(* ===== verification/Prelude.thy ===== *)
theory Prelude
  imports Main "HOL-Library.Word"
begin

text \<open>
  Shared vocabulary of the development: the Go machine types the agent uses, Go maps and
  the order in which \<^verbatim>\<open>range\<close> visits them, results with errors, and the lemma
  collections the component theories rely on.

  \<^item> \<open>time\<close> is a point in time in nanoseconds; \<^verbatim>\<open>t.After(u)\<close> is \<open>u < t\<close>.
  \<^item> Go's \<^verbatim>\<open>int64\<close> arithmetic is written on \<open>int\<close> with the wrap-around made explicit by
    \<open>i64\<close>.
  \<^item> A Go map is a HOL map \<open>'k \<rightharpoonup> 'v\<close>. Go does not specify the order in which
    \<^verbatim>\<open>range\<close> visits the entries, so every operation that ranges over a map takes the order
    as an argument, a list of keys; \<open>range_order\<close> says that it visits each entry once.
\<close>

type_synonym time = int
type_synonym byte = "8 word"
type_synonym u32 = "32 word"
type_synonym u64 = "64 word"

named_theorems go_map_simps \<open>lookups in updated Go maps and in lists built by range\<close>
named_theorems go_int_simps \<open>int64 arithmetic that does not wrap around\<close>

section \<open>64-bit signed integers\<close>

definition i64 :: "int \<Rightarrow> int" where
  "i64 x = signed_take_bit 63 x"

definition is_i64 :: "int \<Rightarrow> bool" where
  "is_i64 x \<longleftrightarrow> - (2 ^ 63) \<le> x \<and> x < 2 ^ 63"

lemma i64_id [go_int_simps]: "is_i64 x \<Longrightarrow> i64 x = x"
  unfolding i64_def is_i64_def by (rule signed_take_bit_int_eq_self) auto

lemma is_i64_i64 [simp, intro]: "is_i64 (i64 x)"
  unfolding i64_def is_i64_def
  using signed_take_bit_int_greater_eq_minus_exp [of 63 x] signed_take_bit_int_less_exp [of 63 x]
  by simp

lemma is_i64_zero [simp]: "is_i64 0"
  by (simp add: is_i64_def)

section \<open>Go maps\<close>

definition range_order :: "('k \<rightharpoonup> 'v) \<Rightarrow> 'k list \<Rightarrow> bool" where
  "range_order m ks \<longleftrightarrow> distinct ks \<and> set ks = dom m"

text \<open>The entries, in the order \<open>ks\<close>, as \<^verbatim>\<open>for k, v := range m\<close> visits them.\<close>

definition range_entries :: "('k \<rightharpoonup> 'v) \<Rightarrow> 'k list \<Rightarrow> ('k \<times> 'v) list" where
  "range_entries m ks = List.map_filter (\<lambda>k. map_option (Pair k) (m k)) ks"

definition range_values :: "('k \<rightharpoonup> 'v) \<Rightarrow> 'k list \<Rightarrow> 'v list" where
  "range_values m ks = List.map_filter m ks"

lemma range_order_empty [simp]: "range_order Map.empty ks \<longleftrightarrow> ks = []"
  by (auto simp: range_order_def)

lemma range_entries_Nil [simp]: "range_entries m [] = []"
  and range_entries_Cons [simp]:
    "range_entries m (k # ks) =
       (case m k of None \<Rightarrow> range_entries m ks | Some v \<Rightarrow> (k, v) # range_entries m ks)"
  by (simp_all add: range_entries_def split: option.split)

lemma range_values_Nil [simp]: "range_values m [] = []"
  and range_values_Cons [simp]:
    "range_values m (k # ks) =
       (case m k of None \<Rightarrow> range_values m ks | Some v \<Rightarrow> v # range_values m ks)"
  by (simp_all add: range_values_def split: option.split)

lemma set_range_entries [go_map_simps]:
  "set (range_entries m ks) = {(k, v). k \<in> set ks \<and> m k = Some v}"
  by (induction ks) (auto split: option.splits)

lemma set_range_values [go_map_simps]:
  "set (range_values m ks) = {v. \<exists>k \<in> set ks. m k = Some v}"
  by (induction ks) (auto split: option.splits)

lemma map_fst_range_entries:
  "set ks \<subseteq> dom m \<Longrightarrow> map fst (range_entries m ks) = ks"
  by (induction ks) (auto split: option.splits)

lemma set_range_entries_order:
  "range_order m ks \<Longrightarrow> set (range_entries m ks) = {(k, v). m k = Some v}"
  by (auto simp: range_order_def set_range_entries)

lemma set_range_values_order:
  "range_order m ks \<Longrightarrow> set (range_values m ks) = ran m"
  by (auto simp: range_order_def set_range_values ran_def)

lemma length_range_values:
  "range_order m ks \<Longrightarrow> length (range_values m ks) = card (dom m)"
proof -
  assume o: "range_order m ks"
  have "set ks \<subseteq> dom m \<Longrightarrow> length (range_values m ks) = length ks"
    by (induction ks) (auto split: option.splits)
  with o show ?thesis
    by (metis distinct_card range_order_def subset_refl)
qed

lemma distinct_range_entries: "distinct ks \<Longrightarrow> distinct (map fst (range_entries m ks))"
proof (induction ks)
  case (Cons k ks)
  then show ?case by (auto simp: set_range_entries split: option.splits)
qed simp

lemma map_of_range_entries:
  "map_of (range_entries m ks) k = (if k \<in> set ks then m k else None)"
  by (induction ks) (auto split: option.split)

lemma map_of_range_entries_order: "range_order m ks \<Longrightarrow> map_of (range_entries m ks) = m"
  by (auto simp: fun_eq_iff map_of_range_entries range_order_def)

lemma find_append: "find P (xs @ ys) = (case find P xs of None \<Rightarrow> find P ys | Some x \<Rightarrow> Some x)"
  by (induction xs) simp_all

lemma find_SomeD: "find P xs = Some x \<Longrightarrow> x \<in> set xs \<and> P x"
  by (induction xs) (auto split: if_splits)

section \<open>Strings and byte slices\<close>

text \<open>
  A Go \<^verbatim>\<open>string\<close> is a byte sequence: \<open>string\<close> here, one \<open>char\<close> per byte. The conversions
  \<^verbatim>\<open>[]byte(s)\<close> and \<^verbatim>\<open>string(b)\<close> are the two functions below.
\<close>

definition bytes_of_string :: "string \<Rightarrow> byte list" where
  "bytes_of_string s = map of_char s"

definition string_of_bytes :: "byte list \<Rightarrow> string" where
  "string_of_bytes b = map (\<lambda>w. char_of (unat w)) b"

lemma unat_of_char [simp]: "unat (of_char c :: byte) = of_char c"
proof -
  have "(of_char c :: nat) mod 256 = of_char c"
    by simp
  then have "(of_char c :: nat) < 256"
    by (metis mod_less_divisor zero_less_numeral)
  then have "unat (of_nat (of_char c) :: byte) = of_char c"
    by (simp add: unat_of_nat del: of_nat_of_char)
  then show ?thesis
    by (simp add: of_nat_of_char)
qed

lemma string_of_bytes_of_string [simp]: "string_of_bytes (bytes_of_string s) = s"
  by (induction s) (simp_all add: string_of_bytes_def bytes_of_string_def)

lemma bytes_of_string_of_bytes [simp]: "bytes_of_string (string_of_bytes b) = b"
proof (induction b)
  case (Cons w b)
  have "unat (of_char (char_of (unat w)) :: byte) = unat w"
    using unsigned_less [of w, where 'a = nat] by simp
  then have "(of_char (char_of (unat w)) :: byte) = w"
    by (rule word_unat_eq_iff [THEN iffD2])
  with Cons show ?case
    by (simp add: string_of_bytes_def bytes_of_string_def)
qed (simp add: string_of_bytes_def bytes_of_string_def)

lemma length_bytes_of_string [simp]: "length (bytes_of_string s) = length s"
  by (simp add: bytes_of_string_def)

text \<open>\<^verbatim>\<open>strings.HasPrefix\<close>, \<^verbatim>\<open>strings.HasSuffix\<close>, \<^verbatim>\<open>strings.TrimPrefix\<close>, \<^verbatim>\<open>strings.TrimSuffix\<close>.\<close>

definition HasPrefix :: "string \<Rightarrow> string \<Rightarrow> bool" where
  "HasPrefix s p \<longleftrightarrow> take (length p) s = p"

definition HasSuffix :: "string \<Rightarrow> string \<Rightarrow> bool" where
  "HasSuffix s p \<longleftrightarrow> length p \<le> length s \<and> drop (length s - length p) s = p"

definition TrimPrefix :: "string \<Rightarrow> string \<Rightarrow> string" where
  "TrimPrefix s p = (if HasPrefix s p then drop (length p) s else s)"

definition TrimSuffix :: "string \<Rightarrow> string \<Rightarrow> string" where
  "TrimSuffix s p = (if HasSuffix s p then take (length s - length p) s else s)"

lemma HasPrefix_append [simp]: "HasPrefix (p @ s) p"
  by (simp add: HasPrefix_def)

lemma TrimPrefix_append [simp]: "TrimPrefix (p @ s) p = s"
  by (simp add: TrimPrefix_def)

lemma TrimSuffix_append [simp]: "TrimSuffix (s @ p) p = s"
  by (simp add: TrimSuffix_def HasSuffix_def)

text \<open>\<^verbatim>\<open>strings.Split\<close> with a non-empty separator; \<open>cur\<close> is the current part, reversed.\<close>

function split_from :: "string \<Rightarrow> string \<Rightarrow> string \<Rightarrow> string list" where
  "split_from sep cur [] = [rev cur]"
| "split_from sep cur (c # cs) =
     (if sep \<noteq> [] \<and> HasPrefix (c # cs) sep
      then rev cur # split_from sep [] (drop (length sep) (c # cs))
      else split_from sep (c # cur) cs)"
  by pat_completeness auto
termination
  by (relation "measure (\<lambda>(sep, cur, s). length s)") (auto simp: neq_Nil_conv)

definition Split :: "string \<Rightarrow> string \<Rightarrow> string list" where
  "Split s sep = split_from sep [] s"

lemma split_from_no_sep:
  "c \<notin> set s \<Longrightarrow> sep = c # sep' \<Longrightarrow> split_from sep cur s = [rev cur @ s]"
  by (induction s arbitrary: cur) (auto simp: HasPrefix_def)

lemma split_from_part:
  "c \<notin> set a \<Longrightarrow> sep = c # sep' \<Longrightarrow>
     split_from sep cur (a @ sep @ rest) = (rev cur @ a) # split_from sep [] rest"
  by (induction a arbitrary: cur) (auto simp: HasPrefix_def)

lemma split_from_char:
  "c \<notin> set a \<Longrightarrow> split_from [c] cur a = [rev cur @ a]"
  "c \<notin> set a \<Longrightarrow> split_from [c] cur (a @ c # rest) = (rev cur @ a) # split_from [c] [] rest"
  using split_from_no_sep [of c a "[c]" "[]"] split_from_part [of c a "[c]" "[]"] by simp_all

text \<open>
  White space as \<^verbatim>\<open>unicode.IsSpace\<close> has it, each rune by its bytes in UTF-8. A lead byte is
  never a continuation byte, so the bytes of a space are one rune wherever they stand.
\<close>

definition white_spaces :: "string list" where
  "white_spaces =
     map (\<lambda>n. [char_of n]) [0x09, 0x0A, 0x0B, 0x0C, 0x0D, 0x20 :: nat] @
     map (map char_of) [[0xC2, 0x85], [0xC2, 0xA0], [0xE1, 0x9A, 0x80 :: nat]] @
     map (\<lambda>n. [char_of (0xE2 :: nat), char_of (0x80 :: nat), char_of n]) ([0x80..<0x8B] @ [0xA8, 0xA9, 0xAF :: nat]) @
     map (map char_of) [[0xE2, 0x81, 0x9F], [0xE3, 0x80, 0x80 :: nat]]"

text \<open>\<open>strip ps s\<close> drops strings of \<open>ps\<close> from the front as long as there is one.\<close>

function strip :: "string list \<Rightarrow> string \<Rightarrow> string" where
  "strip ps s =
     (case find (\<lambda>p. p \<noteq> [] \<and> HasPrefix s p) ps of None \<Rightarrow> s | Some p \<Rightarrow> strip ps (drop (length p) s))"
  by auto
termination
proof (relation "measure (\<lambda>(ps, s). length s)")
  fix ps s p
  assume "find (\<lambda>p. p \<noteq> [] \<and> HasPrefix s p) ps = Some p"
  from find_SomeD [OF this] have "p \<noteq> [] \<and> HasPrefix s p"
    by simp
  then have "s \<noteq> [] \<and> 0 < length p"
    by (auto simp: HasPrefix_def)
  then show "((ps, drop (length p) s), ps, s) \<in> measure (\<lambda>(ps, s). length s)"
    by (simp add: diff_less)
qed simp

declare strip.simps [simp del]

lemma strip_none: "find (\<lambda>p. p \<noteq> [] \<and> HasPrefix s p) ps = None \<Longrightarrow> strip ps s = s"
  and strip_some: "find (\<lambda>p. p \<noteq> [] \<and> HasPrefix s p) ps = Some p \<Longrightarrow> strip ps s = strip ps (drop (length p) s)"
  by (subst strip.simps, simp)+

lemma length_strip: "length (strip ps s) \<le> length s"
proof (induction ps s rule: strip.induct)
  case (1 ps s)
  show ?case
  proof (cases "find (\<lambda>p. p \<noteq> [] \<and> HasPrefix s p) ps")
    case (Some p)
    from 1 [OF this] show ?thesis
      by (simp add: strip_some [OF Some])
  qed (simp add: strip_none)
qed

text \<open>\<^verbatim>\<open>strings.TrimSpace\<close> and \<^verbatim>\<open>strings.Fields\<close>.\<close>

definition TrimSpace :: "string \<Rightarrow> string" where
  "TrimSpace s = rev (strip (map rev white_spaces) (rev (strip white_spaces s)))"

fun split_word :: "string \<Rightarrow> string \<times> string" where
  "split_word [] = ([], [])"
| "split_word (c # s) =
     (if list_ex (HasPrefix (c # s)) white_spaces then ([], c # s)
      else (let (w, rest) = split_word s in (c # w, rest)))"

lemma split_word_append: "split_word s = (w, rest) \<Longrightarrow> s = w @ rest"
  by (induction s arbitrary: w) (auto simp: Let_def split: if_splits prod.splits)

function Fields :: "string \<Rightarrow> string list" where
  "Fields s = (case split_word (strip white_spaces s) of ([], rest) \<Rightarrow> [] | (w, rest) \<Rightarrow> w # Fields rest)"
  by auto
termination
proof (relation "measure length")
  fix s w rest c v
  assume w: "(w, rest) = split_word (strip white_spaces s)" "w = c # v"
  have "strip white_spaces s = w @ rest"
    using w(1) by (intro split_word_append) simp
  then show "(rest, s) \<in> measure length"
    using length_strip [of white_spaces s] w(2) by simp
qed simp

declare Fields.simps [simp del]

lemma strip_fix: "find (\<lambda>p. p \<noteq> [] \<and> HasPrefix (strip ps s) p) ps = None"
proof (induction ps s rule: strip.induct)
  case (1 ps s)
  show ?case
  proof (cases "find (\<lambda>p. p \<noteq> [] \<and> HasPrefix s p) ps")
    case (Some p)
    from 1 [OF this] show ?thesis
      by (simp add: strip_some [OF Some])
  qed (simp add: strip_none)
qed

lemma strip_decomp: "\<exists>pre. s = pre @ strip ps s"
proof (induction ps s rule: strip.induct)
  case (1 ps s)
  show ?case
  proof (cases "find (\<lambda>p. p \<noteq> [] \<and> HasPrefix s p) ps")
    case (Some p)
    then obtain pre where "drop (length p) s = pre @ strip ps s"
      using 1 [OF Some] by (auto simp: strip_some [OF Some])
    then have "s = (take (length p) s @ pre) @ strip ps s"
      by (metis append_assoc append_take_drop_id)
    then show ?thesis by blast
  qed (simp add: strip_none)
qed

lemma TrimSpace_TrimSpace [simp]: "TrimSpace (TrimSpace s) = TrimSpace s"
proof -
  let ?u = "strip white_spaces s"
  have t: "rev (TrimSpace s) = strip (map rev white_spaces) (rev ?u)"
    by (simp add: TrimSpace_def)
  then obtain pre where "rev ?u = pre @ rev (TrimSpace s)"
    using strip_decomp by metis
  then have u: "?u = TrimSpace s @ rev pre"
    by (metis rev_append rev_rev_ident)
  have "HasPrefix ?u p" if "HasPrefix (TrimSpace s) p" for p
    using that unfolding u by (auto simp: HasPrefix_def) (metis append_Nil2 append_take_drop_id drop_eq_Nil length_take min.absorb2 nat_le_linear take_all)
  then have "strip white_spaces (TrimSpace s) = TrimSpace s"
    using strip_fix [of white_spaces s] by (intro strip_none) (auto simp: find_None_iff)
  then show ?thesis
    unfolding TrimSpace_def [of "TrimSpace s"] t [symmetric]
    using strip_fix [of "map rev white_spaces" "rev ?u"] by (simp add: t strip_none flip: t)
qed

text \<open>Nothing is trimmed from a text that begins and ends with printable ASCII.\<close>

definition solid :: "char \<Rightarrow> bool" where
  "solid c \<longleftrightarrow> 0x20 < (of_char c :: nat) \<and> (of_char c :: nat) < 0x80"

lemma white_spaces_not_solid:
  "p \<in> set white_spaces \<Longrightarrow> p \<noteq> [] \<and> \<not> solid (hd p) \<and> \<not> solid (last p)"
  by (auto simp: white_spaces_def solid_def upt_rec)

lemma TrimSpace_solid:
  assumes "s \<noteq> []" "solid (hd s)" "solid (last s)"
  shows "TrimSpace s = s"
proof -
  have "strip white_spaces s = s"
  proof (rule strip_none)
    have "\<not> HasPrefix s p" if "p \<in> set white_spaces" for p
      using white_spaces_not_solid [OF that] assms(1,2) by (cases p; cases s) (auto simp: HasPrefix_def)
    then show "find (\<lambda>p. p \<noteq> [] \<and> HasPrefix s p) white_spaces = None"
      by (auto simp: find_None_iff)
  qed
  moreover have "strip (map rev white_spaces) (rev s) = rev s"
  proof (rule strip_none)
    have "\<not> HasPrefix (rev s) (rev q)" if "q \<in> set white_spaces" for q
      using white_spaces_not_solid [OF that] assms(1,3)
      by (cases q rule: rev_cases; cases s rule: rev_cases) (auto simp: HasPrefix_def)
    then show "find (\<lambda>p. p \<noteq> [] \<and> HasPrefix (rev s) p) (map rev white_spaces) = None"
      by (auto simp: find_None_iff)
  qed
  ultimately show ?thesis
    by (simp add: TrimSpace_def)
qed

text \<open>Words of printable ASCII with blanks between them are the fields of a line.\<close>

lemma solid_no_space: "solid c \<Longrightarrow> p \<in> set white_spaces \<Longrightarrow> \<not> HasPrefix (c # s) p"
  using white_spaces_not_solid [of p] by (cases p) (auto simp: HasPrefix_def)

lemma strip_solid: "solid c \<Longrightarrow> strip white_spaces (c # s) = c # s"
  by (rule strip_none) (auto simp: find_None_iff solid_no_space)

lemma blank_is_space: "'' '' \<in> set white_spaces" "list_all (\<lambda>p. hd p = CHR '' '' \<longrightarrow> p = '' '') white_spaces"
proof -
  have b: "CHR '' '' = char_of (0x20 :: nat)"
    by (rule sym) (simp add: char_of_eq_iff)
  show "'' '' \<in> set white_spaces"
    unfolding b by (simp add: white_spaces_def)
  show "list_all (\<lambda>p. hd p = CHR '' '' \<longrightarrow> p = '' '') white_spaces"
    unfolding b by (simp add: white_spaces_def upt_rec char_of_eq_iff)
qed

lemma strip_blank: "strip white_spaces (CHR '' '' # s) = strip white_spaces s"
proof -
  let ?P = "\<lambda>p. p \<noteq> [] \<and> HasPrefix (CHR '' '' # s) p"
  have p: "p = '' ''" if "p \<in> set white_spaces" "?P p" for p
  proof -
    have "hd p = CHR '' ''"
      using that(2) by (cases p) (simp_all add: HasPrefix_def)
    then show ?thesis
      using that(1) blank_is_space(2) unfolding list_all_iff by blast
  qed
  have "?P '' ''"
    by (simp add: HasPrefix_def)
  then obtain p where f: "find ?P white_spaces = Some p"
    using blank_is_space(1) unfolding find_None_iff [of ?P white_spaces] by (cases "find ?P white_spaces") (auto simp: find_None_iff)
  moreover have "p = '' ''"
    using p find_SomeD [OF f] by blast
  ultimately show ?thesis
    using strip_some [of "CHR '' '' # s" white_spaces p] by simp
qed

lemma split_word_solid: "list_all solid w \<Longrightarrow> split_word (w @ s) = (w @ fst (split_word s), snd (split_word s))"
  by (induction w) (auto simp: list_ex_iff solid_no_space split: prod.split)

lemma split_word_blank: "split_word (CHR '' '' # s) = ([], CHR '' '' # s)"
proof -
  have "HasPrefix (CHR '' '' # s) '' ''"
    by (simp add: HasPrefix_def)
  then show ?thesis
    using blank_is_space(1) by (auto simp: list_ex_iff)
qed

lemma Fields_word:
  assumes "w \<noteq> []" "list_all solid w"
  shows "Fields w = [w]" "Fields (w @ CHR '' '' # s) = w # Fields s"
proof -
  obtain c v where w: "w = c # v" "solid c"
    using assms by (cases w) auto
  have e: "Fields [] = []"
    by (subst Fields.simps) (simp add: strip_none find_None_iff HasPrefix_def)
  have "Fields (CHR '' '' # s) = Fields s"
    by (subst (1 2) Fields.simps) (simp only: strip_blank)
  moreover have "Fields (w @ r) = w # Fields r" if "split_word r = ([], r)" for r
    using split_word_solid [OF assms(2), of r] strip_solid [OF w(2), of "v @ r"] that w(1)
    by (subst Fields.simps) simp
  ultimately show "Fields (w @ CHR '' '' # s) = w # Fields s" "Fields w = [w]"
    using split_word_blank [of s] e by (metis, metis append_Nil2 split_word.simps(1))
qed

section \<open>Big-endian 32-bit words\<close>

unbundle bit_operations_syntax

text \<open>\<^verbatim>\<open>binary.BigEndian.PutUint32\<close> and \<^verbatim>\<open>Uint32\<close>.\<close>

definition put_be32 :: "u32 \<Rightarrow> byte list" where
  "put_be32 n = [ucast (drop_bit 24 n), ucast (drop_bit 16 n), ucast (drop_bit 8 n), ucast n]"

definition get_be32 :: "byte \<Rightarrow> byte \<Rightarrow> byte \<Rightarrow> byte \<Rightarrow> u32" where
  "get_be32 a b c d =
     push_bit 24 (ucast a) OR push_bit 16 (ucast b) OR push_bit 8 (ucast c) OR ucast d"

lemma get_put_be32 [simp]:
  fixes n :: u32
  shows "get_be32 (ucast (drop_bit 24 n)) (ucast (drop_bit 16 n)) (ucast (drop_bit 8 n)) (ucast n) = n"
  unfolding get_be32_def
proof (rule bit_word_eqI)
  fix i
  assume "i < LENGTH(32)"
  then consider "i < 8" | "8 \<le> i" "i < 16" | "16 \<le> i" "i < 24" | "24 \<le> i" "i < 32"
    by fastforce
  then show "bit (push_bit 24 (ucast (ucast (drop_bit 24 n) :: byte)) OR
      push_bit 16 (ucast (ucast (drop_bit 16 n) :: byte)) OR
      push_bit 8 (ucast (ucast (drop_bit 8 n) :: byte)) OR (ucast (ucast n :: byte) :: u32)) i = bit n i"
    by cases (auto simp: bit_simps)
qed

section \<open>Self-delimiting codecs\<close>

text \<open>
  The interface every wire format of the agent offers: an encoder, and a decoder that
  recognises an encoding in front of arbitrary bytes and returns what follows it. Clients
  decode sequences of values without knowing the format.
\<close>

fun decode_many :: "(byte list \<Rightarrow> ('a \<times> byte list) option) \<Rightarrow> nat \<Rightarrow> byte list \<Rightarrow>
    ('a list \<times> byte list) option" where
  "decode_many dec 0 b = Some ([], b)"
| "decode_many dec (Suc n) b =
     (case dec b of None \<Rightarrow> None
      | Some (x, b') \<Rightarrow> map_option (\<lambda>(xs, r). (x # xs, r)) (decode_many dec n b'))"

locale delimited_codec =
  fixes enc :: "'a \<Rightarrow> byte list"
    and dec :: "byte list \<Rightarrow> ('a \<times> byte list) option"
    and valid :: "'a \<Rightarrow> bool"
  assumes dec_enc: "valid x \<Longrightarrow> dec (enc x @ rest) = Some (x, rest)"
    and dec_Nil: "dec [] = None"
begin

lemma enc_not_Nil: "valid x \<Longrightarrow> enc x \<noteq> []"
  using dec_enc [of x "[]"] dec_Nil by auto

lemma dec_enc_only: "valid x \<Longrightarrow> dec (enc x) = Some (x, [])"
  using dec_enc [of x "[]"] by simp

lemma enc_inject: "valid x \<Longrightarrow> valid y \<Longrightarrow> enc x @ r = enc y @ s \<Longrightarrow> x = y \<and> r = s"
  by (metis dec_enc option.inject prod.inject)

lemma decode_many_enc:
  "list_all valid xs \<Longrightarrow>
     decode_many dec (length xs) (concat (map enc xs) @ rest) = Some (xs, rest)"
  by (induction xs) (simp_all add: dec_enc)

lemma concat_enc_inject:
  assumes "list_all valid xs" "list_all valid ys" "concat (map enc xs) = concat (map enc ys)"
  shows "xs = ys"
  using assms
proof (induction xs arbitrary: ys)
  case Nil
  then show ?case by (cases ys) (auto dest: enc_not_Nil)
next
  case (Cons x xs)
  then obtain y ys' where ys: "ys = y # ys'"
    by (cases ys) (auto dest: enc_not_Nil)
  with Cons.prems have "x = y \<and> concat (map enc xs) = concat (map enc ys')"
    by (intro enc_inject) auto
  with Cons ys show ?case by auto
qed

end

section \<open>State that survives restarts\<close>

text \<open>
  The interface of a component that keeps its state in memory and mirrors it to disk: \<open>exec\<close>
  runs an operation, \<open>view\<close> is what clients see of the state, \<open>reboot\<close> loses the memory and
  loads the disk, \<open>sound op s\<close> says that the operation's write succeeds. A client may then
  forget about restarts: \<open>run_restarts\<close>.
\<close>

datatype 'op event = Do 'op | Reboot

locale restartable =
  fixes exec :: "'op \<Rightarrow> 's \<Rightarrow> 's"
    and reboot :: "'s \<Rightarrow> 's"
    and view :: "'s \<Rightarrow> 'v"
    and inv :: "'s \<Rightarrow> bool"
    and sound :: "'op \<Rightarrow> 's \<Rightarrow> bool"
  assumes inv_exec: "inv s \<Longrightarrow> sound op s \<Longrightarrow> inv (exec op s)"
    and inv_reboot: "inv s \<Longrightarrow> inv (reboot s)"
    and view_reboot: "inv s \<Longrightarrow> view (reboot s) = view s"
    and view_exec: "view s = view t \<Longrightarrow> view (exec op s) = view (exec op t)"
    and view_sound: "view s = view t \<Longrightarrow> sound op s = sound op t"
begin

fun run :: "'op event list \<Rightarrow> 's \<Rightarrow> 's" where
  "run [] s = s"
| "run (Do op # es) s = run es (exec op s)"
| "run (Reboot # es) s = run es (reboot s)"

fun all_sound :: "'op event list \<Rightarrow> 's \<Rightarrow> bool" where
  "all_sound [] s = True"
| "all_sound (Do op # es) s = (sound op s \<and> all_sound es (exec op s))"
| "all_sound (Reboot # es) s = all_sound es (reboot s)"

definition ops :: "'op event list \<Rightarrow> 'op list" where
  "ops es = List.map_filter (\<lambda>e. case e of Do op \<Rightarrow> Some op | Reboot \<Rightarrow> None) es"

lemma ops_simps [simp]: "ops [] = []" "ops (Do op # es) = op # ops es" "ops (Reboot # es) = ops es"
  by (simp_all add: ops_def)

lemma run_inv: "inv s \<Longrightarrow> all_sound es s \<Longrightarrow> inv (run es s)"
  by (induction es s rule: run.induct) (auto intro: inv_exec inv_reboot)

lemma run_restarts:
  "inv s \<Longrightarrow> view s = view t \<Longrightarrow> all_sound es s \<Longrightarrow> view (run es s) = view (fold exec (ops es) t)"
proof (induction es s arbitrary: t rule: run.induct)
  case (2 op es s)
  then show ?case
    using view_exec [of s t op] by (auto intro: inv_exec)
next
  case (3 es s)
  then show ?case
    using view_reboot [of s] by (auto intro: inv_reboot)
qed simp

lemma restart_unobservable:
  "inv s \<Longrightarrow> all_sound es s \<Longrightarrow> view (reboot (run es s)) = view (fold exec (ops es) s)"
  using view_reboot [OF run_inv] run_restarts [OF _ refl] by metis

end

section \<open>Values that are made once\<close>

text \<open>
  The interface of a component that keeps a value in a file: a start finds it there, or makes it
  from the random source of that start and stores it. \<open>starts\<close> are the results of a history of
  starts, each with what it meets outside; \<open>view\<close> is the part of the result that is kept, and
  \<open>sane\<close> says what a start may rely on. A client may then forget which start made the value.
\<close>

fun starts :: "('e \<Rightarrow> 'f \<Rightarrow> 'f \<times> 'r) \<Rightarrow> 'e list \<Rightarrow> 'f \<Rightarrow> 'r list" where
  "starts boot [] f = []"
| "starts boot (e # es) f = (case boot e f of (f', r) \<Rightarrow> r # starts boot es f')"

lemma length_starts [simp]: "length (starts boot es f) = length es"
  by (induction es arbitrary: f) (auto split: prod.split)

locale made_once =
  fixes boot :: "'e \<Rightarrow> 'f \<Rightarrow> 'f \<times> ('err + 'v)"
    and view :: "'v \<Rightarrow> 'w"
    and sane :: "'e \<Rightarrow> bool"
  assumes kept: "sane e \<Longrightarrow> sane e' \<Longrightarrow> boot e f = (f', Inr v) \<Longrightarrow>
    \<exists>v'. boot e' f' = (f', Inr v') \<and> view v' = view v"
begin

lemma kept_on:
  assumes "sane e" "boot e f = (f', Inr v)" "list_all sane es" "k < length es"
  shows "\<exists>v'. starts boot es f' ! k = Inr v' \<and> view v' = view v"
  using assms(3,4)
proof (induction es arbitrary: k)
  case (Cons e' es)
  obtain v' where "boot e' f' = (f', Inr v')" "view v' = view v"
    using kept [OF assms(1) _ assms(2)] Cons.prems(1) by auto
  with Cons show ?case
    by (cases k) auto
qed simp

lemma same_for_ever:
  assumes "list_all sane es" "i < j" "j < length es" "starts boot es f ! i = Inr v"
  shows "\<exists>v'. starts boot es f ! j = Inr v' \<and> view v' = view v"
  using assms
proof (induction es arbitrary: f i j)
  case (Cons e es)
  obtain f' r where b: "boot e f = (f', r)"
    by fastforce
  obtain k where j: "j = Suc k"
    using Cons.prems(2) by (cases j) auto
  show ?case
  proof (cases i)
    case 0
    then show ?thesis
      using kept_on [of e f f' v es k] Cons.prems b j by simp
  next
    case (Suc i')
    then show ?thesis
      using Cons.IH [of i' k f'] Cons.prems b j by simp
  qed
qed simp

end

end
