(* ===== verification/AuthKeys.thy ===== *)
theory AuthKeys
  imports Prelude "HOL-Library.Char_ord" "HOL-Library.List_Lexorder"
begin

text \<open>
  \<^verbatim>\<open>internal/tunnel/authkeys.go\<close>: the list of the devices that may open a session on this
  machine, kept in one file. A public key is represented by its wire form, the result of
  \<^verbatim>\<open>Marshal()\<close>; parsing a key line and the fingerprint belong to \<^verbatim>\<open>golang.org/x/crypto/ssh\<close> and
  are parameters (\<open>ssh_lib\<close>). The file system's answers and the clock are inputs.
\<close>

section \<open>State and operations\<close>

type_synonym pubkey = "byte list"

text \<open>\<open>parse_line\<close> is \<^verbatim>\<open>ssh.ParseAuthorizedKey\<close>: the key and the comment. \<open>fingerprint\<close> is \<^verbatim>\<open>ssh.FingerprintSHA256\<close>.\<close>

record ssh_lib =
  parse_line :: "string \<Rightarrow> (pubkey \<times> string) option"
  fingerprint :: "pubkey \<Rightarrow> string"

record AuthorizedKey =
  Pub :: string
  key_Name :: string
  FP :: string
  AddedAt :: string
  AddedBy :: string

datatype keys_file = NoKeysFile | KeysUnreadable | KeysGarbage | KeysFile "AuthorizedKey list"

record key_dir =
  keys :: keys_file
  keys_tmp :: keys_file

datatype auth_error = BadKeyLine | ListUnreadable | ListGarbage | NoSuchKey string | LastKey | KeysNotWritten

text \<open>\<^verbatim>\<open>ParseAuthorizedKey\<close>: the key, the comment and the fingerprint.\<close>

definition ParseAuthorizedKey :: "ssh_lib \<Rightarrow> string \<Rightarrow> (pubkey \<times> string \<times> string) option" where
  "ParseAuthorizedKey lib line =
     (case parse_line lib line of None \<Rightarrow> None | Some (pub, comment) \<Rightarrow> Some (pub, comment, fingerprint lib pub))"

definition listLocked :: "key_dir \<Rightarrow> auth_error + AuthorizedKey list" where
  "listLocked d =
     (case keys d of
        NoKeysFile \<Rightarrow> Inr []
      | KeysUnreadable \<Rightarrow> Inl ListUnreadable
      | KeysGarbage \<Rightarrow> Inl ListGarbage
      | KeysFile ks \<Rightarrow> Inr ks)"

definition List :: "key_dir \<Rightarrow> auth_error + AuthorizedKey list" where
  "List d = listLocked d"

fun authorized_loop :: "ssh_lib \<Rightarrow> pubkey \<Rightarrow> AuthorizedKey list \<Rightarrow> AuthorizedKey option" where
  "authorized_loop lib want [] = None"
| "authorized_loop lib want (k # ks) =
     (case ParseAuthorizedKey lib (Pub k) of
        None \<Rightarrow> authorized_loop lib want ks
      | Some (parsed, _, _) \<Rightarrow> if parsed = want then Some k else authorized_loop lib want ks)"

definition Authorized :: "ssh_lib \<Rightarrow> key_dir \<Rightarrow> pubkey \<Rightarrow> AuthorizedKey option" where
  "Authorized lib d pub = (case List d of Inl err \<Rightarrow> None | Inr ks \<Rightarrow> authorized_loop lib pub ks)"

text \<open>
  How a write ends: the directory or the temporary file fails (\<open>TmpFails\<close> with what is left of
  it), the rename fails, or it succeeds.
\<close>

datatype key_write = MkdirFails | TmpFails keys_file | RenameFails | Renamed

definition writeLocked :: "key_write \<Rightarrow> AuthorizedKey list \<Rightarrow> key_dir \<Rightarrow> key_dir \<times> auth_error option" where
  "writeLocked w ks d =
     (case w of
        MkdirFails \<Rightarrow> (d, Some KeysNotWritten)
      | TmpFails left \<Rightarrow> (d\<lparr>keys_tmp := left\<rparr>, Some KeysNotWritten)
      | RenameFails \<Rightarrow> (d\<lparr>keys_tmp := KeysFile ks\<rparr>, Some KeysNotWritten)
      | Renamed \<Rightarrow> (d\<lparr>keys := KeysFile ks, keys_tmp := NoKeysFile\<rparr>, None))"

text \<open>\<open>now\<close> is the formatted time.\<close>

definition new_key :: "ssh_lib \<Rightarrow> string \<Rightarrow> string \<Rightarrow> string \<Rightarrow> string \<Rightarrow> string \<Rightarrow> AuthorizedKey" where
  "new_key lib now line comment fp addedBy =
     \<lparr>Pub = TrimSpace line, key_Name = comment, FP = fp, AddedAt = now, AddedBy = addedBy\<rparr>"

definition Reset :: "ssh_lib \<Rightarrow> string \<Rightarrow> key_write \<Rightarrow> string \<Rightarrow> string \<Rightarrow> key_dir \<Rightarrow> key_dir \<times> (auth_error + AuthorizedKey)" where
  "Reset lib now w line addedBy d =
     (case ParseAuthorizedKey lib line of
        None \<Rightarrow> (d, Inl BadKeyLine)
      | Some (_, comment, fp) \<Rightarrow>
          (let k = new_key lib now line comment fp addedBy
           in case writeLocked w [k] d of
                (d, Some err) \<Rightarrow> (d, Inl err)
              | (d, None) \<Rightarrow> (d, Inr k)))"

definition Add :: "ssh_lib \<Rightarrow> string \<Rightarrow> key_write \<Rightarrow> string \<Rightarrow> string \<Rightarrow> key_dir \<Rightarrow> key_dir \<times> (auth_error + AuthorizedKey)" where
  "Add lib now w line addedBy d =
     (case ParseAuthorizedKey lib line of
        None \<Rightarrow> (d, Inl BadKeyLine)
      | Some (_, comment, fp) \<Rightarrow>
          (case listLocked d of
             Inl err \<Rightarrow> (d, Inl err)
           | Inr ks \<Rightarrow>
               (case find (\<lambda>k. FP k = fp) ks of
                  Some k \<Rightarrow> (d, Inr k)
                | None \<Rightarrow>
                    (let k = new_key lib now line comment fp addedBy
                     in case writeLocked w (ks @ [k]) d of
                          (d, Some err) \<Rightarrow> (d, Inl err)
                        | (d, None) \<Rightarrow> (d, Inr k)))))"

definition Remove :: "key_write \<Rightarrow> string \<Rightarrow> key_dir \<Rightarrow> key_dir \<times> auth_error option" where
  "Remove w fp d =
     (case listLocked d of
        Inl err \<Rightarrow> (d, Some err)
      | Inr ks \<Rightarrow>
          (let kept = filter (\<lambda>k. FP k \<noteq> fp) ks; found = list_ex (\<lambda>k. FP k = fp) ks
           in if \<not> found then (d, Some (NoSuchKey fp))
              else if length kept = 0 then (d, Some LastKey)
              else writeLocked w kept d))"

text \<open>The pairs of fingerprint and name that are reported, by fingerprint.\<close>

definition Fingerprints :: "key_dir \<Rightarrow> (string \<times> string) list" where
  "Fingerprints d = (case List d of Inl err \<Rightarrow> [] | Inr ks \<Rightarrow> sort_key fst (map (\<lambda>k. (FP k, key_Name k)) ks))"

section \<open>The contract of a device list\<close>

text \<open>
  What the SSH server and the command line rely on: operations that may fail, the set of keys
  that give access, and what an operation that succeeds makes of that set. A client may then
  forget the files: \<open>run_access\<close>.
\<close>

locale device_list =
  fixes exec :: "'op \<Rightarrow> 's \<Rightarrow> 's \<times> bool"
    and inv :: "'s \<Rightarrow> bool"
    and access :: "'s \<Rightarrow> 'k set"
    and spec :: "'op \<Rightarrow> 'k set \<Rightarrow> 'k set"
    and clean :: "'op \<Rightarrow> 'k set \<Rightarrow> bool"
  assumes inv_exec: "inv s \<Longrightarrow> inv (fst (exec op s))"
    and access_exec: "inv s \<Longrightarrow> clean op (access s) \<Longrightarrow>
      access (fst (exec op s)) = (if snd (exec op s) then spec op (access s) else access s)"
begin

fun run :: "'op list \<Rightarrow> 's \<Rightarrow> 's" where
  "run [] s = s"
| "run (op # ops) s = run ops (fst (exec op s))"

fun succeeded :: "'op list \<Rightarrow> 's \<Rightarrow> 'op list" where
  "succeeded [] s = []"
| "succeeded (op # ops) s =
     (let rest = succeeded ops (fst (exec op s)) in if snd (exec op s) then op # rest else rest)"

fun all_clean :: "'op list \<Rightarrow> 's \<Rightarrow> bool" where
  "all_clean [] s = True"
| "all_clean (op # ops) s = (clean op (access s) \<and> all_clean ops (fst (exec op s)))"

lemma run_inv: "inv s \<Longrightarrow> inv (run ops s)"
  by (induction ops arbitrary: s) (auto intro: inv_exec)

lemma run_access:
  "inv s \<Longrightarrow> all_clean ops s \<Longrightarrow> access (run ops s) = fold spec (succeeded ops s) (access s)"
  by (induction ops arbitrary: s) (auto simp: access_exec inv_exec Let_def)

end

section \<open>The list of keys has the contract\<close>

datatype key_op = OpAdd string string | OpReset string string | OpRemove string

fun exec_key :: "ssh_lib \<Rightarrow> string \<times> key_write \<times> key_op \<Rightarrow> key_dir \<Rightarrow> key_dir \<times> bool" where
  "exec_key lib (now, w, OpAdd line who) d =
     (case Add lib now w line who d of (d, Inl err) \<Rightarrow> (d, False) | (d, Inr k) \<Rightarrow> (d, True))"
| "exec_key lib (now, w, OpReset line who) d =
     (case Reset lib now w line who d of (d, Inl err) \<Rightarrow> (d, False) | (d, Inr k) \<Rightarrow> (d, True))"
| "exec_key lib (now, w, OpRemove fp) d =
     (case Remove w fp d of (d, Some err) \<Rightarrow> (d, False) | (d, None) \<Rightarrow> (d, True))"

text \<open>The parser ignores white space around the line, as \<^verbatim>\<open>ssh.ParseAuthorizedKey\<close> does.\<close>

definition trims :: "ssh_lib \<Rightarrow> bool" where
  "trims lib \<longleftrightarrow> (\<forall>line. parse_line lib (TrimSpace line) = parse_line lib line)"

definition key_ok :: "ssh_lib \<Rightarrow> AuthorizedKey \<Rightarrow> bool" where
  "key_ok lib k \<longleftrightarrow> (\<exists>pub c. parse_line lib (Pub k) = Some (pub, c) \<and> FP k = fingerprint lib pub)"

definition keys_wf :: "ssh_lib \<Rightarrow> key_dir \<Rightarrow> bool" where
  "keys_wf lib d \<longleftrightarrow> (case keys d of NoKeysFile \<Rightarrow> True | KeysFile ks \<Rightarrow> list_all (key_ok lib) ks \<and> distinct (map FP ks)
     | _ \<Rightarrow> False)"

definition access :: "ssh_lib \<Rightarrow> key_dir \<Rightarrow> pubkey set" where
  "access lib d = {pub. Authorized lib d pub \<noteq> None}"

definition key_spec :: "ssh_lib \<Rightarrow> string \<times> key_write \<times> key_op \<Rightarrow> pubkey set \<Rightarrow> pubkey set" where
  "key_spec lib e A =
     (case snd (snd e) of
        OpAdd line who \<Rightarrow> (case parse_line lib line of None \<Rightarrow> A | Some (pub, c) \<Rightarrow> insert pub A)
      | OpReset line who \<Rightarrow> (case parse_line lib line of None \<Rightarrow> A | Some (pub, c) \<Rightarrow> {pub})
      | OpRemove fp \<Rightarrow> {pub \<in> A. fingerprint lib pub \<noteq> fp})"

text \<open>A key that is added has the fingerprint of no other key of the list.\<close>

definition no_collision :: "ssh_lib \<Rightarrow> string \<times> key_write \<times> key_op \<Rightarrow> pubkey set \<Rightarrow> bool" where
  "no_collision lib e A \<longleftrightarrow>
     (case snd (snd e) of
        OpAdd line who \<Rightarrow> (\<forall>pub \<in> A. map_option (\<lambda>r. fingerprint lib (fst r)) (parse_line lib line) = Some (fingerprint lib pub) \<longrightarrow>
          map_option fst (parse_line lib line) = Some pub)
      | _ \<Rightarrow> True)"

definition keys_of :: "ssh_lib \<Rightarrow> AuthorizedKey list \<Rightarrow> pubkey set" where
  "keys_of lib ks = {pub. \<exists>k \<in> set ks. \<exists>c. parse_line lib (Pub k) = Some (pub, c)}"

lemma authorized_loop_iff: "authorized_loop lib pub ks \<noteq> None \<longleftrightarrow> pub \<in> keys_of lib ks"
  by (induction ks) (auto simp: keys_of_def ParseAuthorizedKey_def split: option.splits if_splits)

lemma access_simps:
  "keys d = KeysFile ks \<Longrightarrow> access lib d = keys_of lib ks"
  "keys d = NoKeysFile \<Longrightarrow> access lib d = {}"
  "listLocked d = Inr ks \<Longrightarrow> access lib d = keys_of lib ks"
  "keys d' = keys d \<Longrightarrow> access lib d' = access lib d"
proof -
  show "listLocked d = Inr ks \<Longrightarrow> access lib d = keys_of lib ks" for ks
    using authorized_loop_iff [of lib _ ks] by (auto simp: access_def Authorized_def List_def)
  then show "keys d = KeysFile ks \<Longrightarrow> access lib d = keys_of lib ks"
    by (simp add: listLocked_def)
  show "keys d = NoKeysFile \<Longrightarrow> access lib d = {}"
    by (auto simp: access_def Authorized_def List_def listLocked_def)
  show "keys d' = keys d \<Longrightarrow> access lib d' = access lib d"
    by (simp add: access_def Authorized_def List_def listLocked_def)
qed

lemma keys_of_simps:
  "keys_of lib (ks @ ks') = keys_of lib ks \<union> keys_of lib ks'"
  "parse_line lib (Pub k) = Some (pub, c) \<Longrightarrow> keys_of lib [k] = {pub}"
  by (auto simp: keys_of_def)

lemma keys_of_empty: "list_all (key_ok lib) ks \<Longrightarrow> keys_of lib ks = {} \<longleftrightarrow> ks = []"
  by (cases ks) (auto simp: keys_of_def key_ok_def)

lemma keys_of_kept:
  "list_all (key_ok lib) ks \<Longrightarrow>
     keys_of lib (filter (\<lambda>k. FP k \<noteq> fp) ks) = {pub \<in> keys_of lib ks. fingerprint lib pub \<noteq> fp}"
  by (fastforce simp: keys_of_def key_ok_def list_all_iff)

lemma keys_wf_listLocked:
  "keys_wf lib d \<longleftrightarrow> (\<exists>ks. listLocked d = Inr ks \<and> list_all (key_ok lib) ks \<and> distinct (map FP ks))"
  by (auto simp: keys_wf_def listLocked_def split: keys_file.split)

text \<open>A write either replaces the list or leaves it alone.\<close>

lemma writeLocked_cases:
  obtains (written) "writeLocked w ks d = (d\<lparr>keys := KeysFile ks, keys_tmp := NoKeysFile\<rparr>, None)"
  | (failed) d' where "writeLocked w ks d = (d', Some KeysNotWritten)" "keys d' = keys d"
  by (cases w) (simp_all add: writeLocked_def)

lemma new_key_ok:
  assumes "trims lib" "parse_line lib line = Some (pub, c)"
  shows "key_ok lib (new_key lib now line c (fingerprint lib pub) who)"
    "keys_of lib [new_key lib now line c (fingerprint lib pub) who] = {pub}"
    "FP (new_key lib now line c (fingerprint lib pub) who) = fingerprint lib pub"
  using assms by (auto simp: key_ok_def trims_def new_key_def keys_of_simps)

text \<open>
  What one operation does to the list: it fails and changes nothing, or it is one of the four
  successful cases.
\<close>

lemma exec_key_cases:
  assumes "trims lib" "listLocked d = Inr ks"
  obtains (failed) d' where "exec_key lib (now, w, op) d = (d', False)" "keys d' = keys d"
  | (present) line who pub c k where "op = OpAdd line who" "parse_line lib line = Some (pub, c)" "k \<in> set ks"
      "FP k = fingerprint lib pub" "exec_key lib (now, w, op) d = (d, True)"
  | (added) line who pub c k d' where "op = OpAdd line who" "parse_line lib line = Some (pub, c)" "key_ok lib k"
      "keys_of lib [k] = {pub}" "FP k = fingerprint lib pub" "fingerprint lib pub \<notin> FP ` set ks"
      "exec_key lib (now, w, op) d = (d', True)" "keys d' = KeysFile (ks @ [k])"
  | (reset) line who pub c k d' where "op = OpReset line who" "parse_line lib line = Some (pub, c)" "key_ok lib k"
      "keys_of lib [k] = {pub}" "exec_key lib (now, w, op) d = (d', True)" "keys d' = KeysFile [k]"
  | (removed) fp d' where "op = OpRemove fp" "filter (\<lambda>k. FP k \<noteq> fp) ks \<noteq> []"
      "exec_key lib (now, w, op) d = (d', True)" "keys d' = KeysFile (filter (\<lambda>k. FP k \<noteq> fp) ks)"
proof (cases op)
  case (OpAdd line who)
  show ?thesis
  proof (cases "parse_line lib line")
    case None
    then show ?thesis
      using failed OpAdd by (simp add: Add_def ParseAuthorizedKey_def)
  next
    case (Some r)
    then obtain pub c where r: "parse_line lib line = Some (pub, c)"
      by (cases r) simp
    let ?k = "new_key lib now line c (fingerprint lib pub) who"
    show ?thesis
    proof (cases "find (\<lambda>k. FP k = fingerprint lib pub) ks")
      case None
      then have fresh: "fingerprint lib pub \<notin> FP ` set ks"
        by (auto simp: find_None_iff)
      show ?thesis
      proof (cases w "ks @ [?k]" d rule: writeLocked_cases)
        case written
        show ?thesis
          by (rule added [OF OpAdd r new_key_ok [OF assms(1) r] fresh, of "d\<lparr>keys := KeysFile (ks @ [?k]), keys_tmp := NoKeysFile\<rparr>"])
            (use None r assms(2) OpAdd written in \<open>simp_all add: Add_def ParseAuthorizedKey_def Let_def\<close>)
      next
        case (failed d')
        show ?thesis
          by (rule that(1) [of d']) (use None r assms(2) OpAdd failed in \<open>simp_all add: Add_def ParseAuthorizedKey_def Let_def\<close>)
      qed
    next
      case (Some k)
      then show ?thesis
        using find_SomeD [OF Some] r assms(2) OpAdd present [OF OpAdd r, of k] by (simp add: Add_def ParseAuthorizedKey_def)
    qed
  qed
next
  case (OpReset line who)
  show ?thesis
  proof (cases "parse_line lib line")
    case None
    then show ?thesis
      using failed OpReset by (simp add: Reset_def ParseAuthorizedKey_def)
  next
    case (Some r)
    then obtain pub c where r: "parse_line lib line = Some (pub, c)"
      by (cases r) simp
    show ?thesis
    proof (cases w "[new_key lib now line c (fingerprint lib pub) who]" d rule: writeLocked_cases)
      case written
      show ?thesis
        by (rule reset [OF OpReset r new_key_ok(1,2) [OF assms(1) r],
              of "d\<lparr>keys := KeysFile [new_key lib now line c (fingerprint lib pub) who], keys_tmp := NoKeysFile\<rparr>"])
          (use r OpReset written in \<open>simp_all add: Reset_def ParseAuthorizedKey_def Let_def\<close>)
    next
      case (failed d')
      show ?thesis
        by (rule that(1) [of d']) (use r OpReset failed in \<open>simp_all add: Reset_def ParseAuthorizedKey_def Let_def\<close>)
    qed
  qed
next
  case (OpRemove fp)
  show ?thesis
  proof (cases "list_ex (\<lambda>k. FP k = fp) ks \<and> filter (\<lambda>k. FP k \<noteq> fp) ks \<noteq> []")
    case True
    show ?thesis
    proof (cases w "filter (\<lambda>k. FP k \<noteq> fp) ks" d rule: writeLocked_cases)
      case written
      show ?thesis
        by (rule removed [OF OpRemove, of "d\<lparr>keys := KeysFile (filter (\<lambda>k. FP k \<noteq> fp) ks), keys_tmp := NoKeysFile\<rparr>"]) (use True assms(2) OpRemove written in \<open>simp_all add: Remove_def Let_def\<close>)
    next
      case (failed d')
      show ?thesis
        by (rule that(1) [of d']) (use True assms(2) OpRemove failed in \<open>simp_all add: Remove_def Let_def\<close>)
    qed
  next
    case False
    then have "exec_key lib (now, w, op) d = (d, False)"
      using OpRemove assms(2) by (auto simp: Remove_def Let_def)
    then show ?thesis
      using failed by simp
  qed
qed

lemma key_spec_nonempty:
  assumes "A \<noteq> {}" "\<And>fp. snd (snd e) = OpRemove fp \<Longrightarrow> \<exists>pub \<in> A. fingerprint lib pub \<noteq> fp"
  shows "key_spec lib e A \<noteq> {}"
  using assms by (auto simp: key_spec_def split: key_op.split option.split)

lemma exec_key_wf:
  assumes "trims lib" "keys_wf lib d"
  shows "keys_wf lib (fst (exec_key lib (now, w, op) d))"
proof -
  obtain ks where ks: "listLocked d = Inr ks" "list_all (key_ok lib) ks" "distinct (map FP ks)"
    using assms(2) by (auto simp: keys_wf_listLocked)
  show ?thesis
  proof (cases rule: exec_key_cases [OF assms(1) ks(1), of now w op, case_names failed present added reset removed])
    case (failed d')
    then show ?thesis
      using assms(2) by (simp add: keys_wf_def)
  next
    case (added line who pub c k d')
    then show ?thesis
      using ks by (simp add: keys_wf_def)
  next
    case (removed fp d')
    then show ?thesis
      using ks by (auto simp: keys_wf_def list_all_iff intro: distinct_filter simp: distinct_map_filter)
  qed (use assms(2) in \<open>simp_all add: keys_wf_def\<close>)
qed

lemma exec_key_access:
  assumes "trims lib" "keys_wf lib d" "no_collision lib (now, w, op) (access lib d)"
  shows "access lib (fst (exec_key lib (now, w, op) d)) =
    (if snd (exec_key lib (now, w, op) d) then key_spec lib (now, w, op) (access lib d) else access lib d)"
proof -
  obtain ks where ks: "listLocked d = Inr ks" "list_all (key_ok lib) ks" "distinct (map FP ks)"
    using assms(2) by (auto simp: keys_wf_listLocked)
  note a = access_simps(3) [OF ks(1), of lib]
  show ?thesis
  proof (cases rule: exec_key_cases [OF assms(1) ks(1), of now w op, case_names failed present added reset removed])
    case (failed d')
    then show ?thesis
      using access_simps(4) [OF failed(2), of lib] by simp
  next
    case (present line who pub c k)
    then obtain pub' c' where k: "parse_line lib (Pub k) = Some (pub', c')" "fingerprint lib pub' = fingerprint lib pub"
      using ks(2) by (auto simp: list_all_iff key_ok_def)
    then have "pub' \<in> access lib d"
      using present(3) by (auto simp: a keys_of_def)
    then have "pub \<in> access lib d"
      using assms(3) present(1,2) k(2) by (auto simp: no_collision_def)
    then show ?thesis
      using present(1,2,5) by (auto simp: key_spec_def)
  next
    case (added line who pub c k d')
    then show ?thesis
      by (simp add: access_simps(1) a keys_of_simps key_spec_def)
  next
    case (reset line who pub c k d')
    then show ?thesis
      by (simp add: access_simps(1) key_spec_def)
  next
    case (removed fp d')
    then show ?thesis
      by (simp add: access_simps(1) a keys_of_kept [OF ks(2)] key_spec_def)
  qed
qed

interpretation keylist: device_list "exec_key lib" "\<lambda>d. trims lib \<and> keys_wf lib d" "access lib" "key_spec lib" "no_collision lib"
  for lib
proof
  fix d :: key_dir and e :: "string \<times> key_write \<times> key_op"
  obtain now w op where e: "e = (now, w, op)"
    by (cases e)
  show "trims lib \<and> keys_wf lib d \<Longrightarrow> trims lib \<and> keys_wf lib (fst (exec_key lib e d))"
    using exec_key_wf by (simp add: e)
  show "trims lib \<and> keys_wf lib d \<Longrightarrow> no_collision lib e (access lib d) \<Longrightarrow>
      access lib (fst (exec_key lib e d)) =
        (if snd (exec_key lib e d) then key_spec lib e (access lib d) else access lib d)"
    using exec_key_access by (simp add: e)
qed

section \<open>What the list promises\<close>

text \<open>
  The key file implements a set of devices: after any sequence of additions, resets and
  removals, each of which may fail, the keys that give access are those the successful
  operations leave in the set; a failed operation changes nothing. (Keys whose SHA-256
  fingerprints collide are left out: the second would be taken for the first.)
\<close>

theorem key_list_is_a_set:
  assumes "trims lib" "keys_wf lib d" "keylist.all_clean lib es d"
  shows "access lib (keylist.run lib es d) = fold (key_spec lib) (keylist.succeeded lib es d) (access lib d)"
  using keylist.run_access assms by blast

lemma exec_key_nonempty:
  assumes "trims lib" "keys_wf lib d" "access lib d \<noteq> {}"
  shows "access lib (fst (exec_key lib (now, w, op) d)) \<noteq> {}"
proof -
  obtain ks where ks: "listLocked d = Inr ks" "list_all (key_ok lib) ks"
    using assms(2) by (auto simp: keys_wf_listLocked)
  show ?thesis
  proof (cases rule: exec_key_cases [OF assms(1) ks(1), of now w op, case_names failed present added reset removed])
    case (removed fp d')
    have "list_all (key_ok lib) (filter (\<lambda>k. FP k \<noteq> fp) ks)"
      using ks(2) by (simp add: list_all_iff)
    then show ?thesis
      using removed(2-4) keys_of_empty [of lib "filter (\<lambda>k. FP k \<noteq> fp) ks"] by (simp add: access_simps(1))
  next
    case (failed d')
    then show ?thesis
      using access_simps(4) [OF failed(2), of lib] assms(3) by simp
  qed (use assms(3) in \<open>simp_all add: access_simps(1) keys_of_simps(1)\<close>)
qed

text \<open>
  Nobody is locked out: as long as one device has access, no sequence of operations on the
  list, whatever fails in them, takes the last device's access away.
\<close>

theorem devices_never_locked_out:
  assumes "trims lib" "keys_wf lib d" "access lib d \<noteq> {}"
  shows "access lib (keylist.run lib es d) \<noteq> {}"
  using assms
proof (induction es arbitrary: d)
  case (Cons e es)
  obtain now w op where e: "e = (now, w, op)"
    by (cases e)
  show ?case
    using Cons.IH [OF Cons.prems(1) exec_key_wf exec_key_nonempty] Cons.prems by (simp add: e)
qed simp

text \<open>A key whose fingerprint was removed stays out until somebody adds a key with this fingerprint again.\<close>

definition adds_fp :: "ssh_lib \<Rightarrow> string \<Rightarrow> key_op \<Rightarrow> bool" where
  "adds_fp lib fp op =
     (case op of
        OpRemove _ \<Rightarrow> False
      | OpAdd line _ \<Rightarrow> map_option (\<lambda>r. fingerprint lib (fst r)) (parse_line lib line) = Some fp
      | OpReset line _ \<Rightarrow> map_option (\<lambda>r. fingerprint lib (fst r)) (parse_line lib line) = Some fp)"

definition shut_out :: "ssh_lib \<Rightarrow> string \<Rightarrow> key_dir \<Rightarrow> bool" where
  "shut_out lib fp d \<longleftrightarrow> (\<forall>pub \<in> access lib d. fingerprint lib pub \<noteq> fp)"

lemma Remove_shuts_out:
  assumes "trims lib" "keys_wf lib d" "Remove w fp d = (d', None)"
  shows "keys_wf lib d' \<and> shut_out lib fp d' \<and> access lib d' \<subseteq> access lib d"
proof -
  have x: "exec_key lib (now, w, OpRemove fp) d = (d', True)" for now
    using assms(3) by simp
  show ?thesis
    using exec_key_wf [OF assms(1,2), of "''''" w "OpRemove fp"] exec_key_access [OF assms(1,2), of "''''" w "OpRemove fp"]
    unfolding x by (auto simp: no_collision_def shut_out_def key_spec_def)
qed

lemma shut_out_exec:
  assumes "trims lib" "keys_wf lib d" "shut_out lib fp d" "\<not> adds_fp lib fp op"
  shows "shut_out lib fp (fst (exec_key lib (now, w, op) d))"
proof -
  obtain ks where ks: "listLocked d = Inr ks" "list_all (key_ok lib) ks"
    using assms(2) by (auto simp: keys_wf_listLocked)
  note a = access_simps(3) [OF ks(1), of lib]
  show ?thesis
  proof (cases rule: exec_key_cases [OF assms(1) ks(1), of now w op, case_names failed present added reset removed])
    case (removed fp' d')
    then show ?thesis
      using assms(3) by (auto simp: shut_out_def access_simps(1) a keys_of_kept [OF ks(2)])
  next
    case (failed d')
    then show ?thesis
      using access_simps(4) [OF failed(2), of lib] assms(3) by (simp add: shut_out_def)
  qed (use assms(3,4) in \<open>auto simp: shut_out_def access_simps(1) keys_of_simps(1) adds_fp_def a\<close>)
qed

lemma shut_out_run:
  assumes "trims lib" "keys_wf lib d" "shut_out lib fp d" "list_all (\<lambda>e. \<not> adds_fp lib fp (snd (snd e))) es"
  shows "shut_out lib fp (keylist.run lib es d)"
  using assms
proof (induction es arbitrary: d)
  case (Cons e es)
  obtain now w op where e: "e = (now, w, op)"
    by (cases e)
  show ?case
    using Cons.IH [OF Cons.prems(1) exec_key_wf shut_out_exec] Cons.prems by (simp add: e)
qed simp

section \<open>Examples\<close>

definition sample_ssh :: ssh_lib where
  "sample_ssh = \<lparr>parse_line = (\<lambda>l. if TrimSpace l = ''key-a phone'' then Some ([1], ''phone'')
       else if TrimSpace l = ''key-b tablet'' then Some ([2], ''tablet'') else None),
     fingerprint = (\<lambda>p. if p = [1] then ''SHA256:a'' else if p = [2] then ''SHA256:b'' else ''SHA256:c'')\<rparr>"

definition sample_keys :: key_dir where
  "sample_keys = \<lparr>keys = KeysFile [\<lparr>Pub = ''key-a phone'', key_Name = ''phone'', FP = ''SHA256:a'', AddedAt = '''', AddedBy = ''enroll''\<rparr>],
     keys_tmp = NoKeysFile\<rparr>"

lemma sample_ssh_lines:
  "trims sample_ssh" "TrimSpace ''key-a phone'' = ''key-a phone''" "TrimSpace ''key-b tablet'' = ''key-b tablet''"
  "parse_line sample_ssh ''key-a phone'' = Some ([1], ''phone'')" "parse_line sample_ssh ''key-b tablet'' = Some ([2], ''tablet'')"
proof -
  show "trims sample_ssh"
    by (simp add: trims_def sample_ssh_def)
  show t: "TrimSpace ''key-a phone'' = ''key-a phone''" "TrimSpace ''key-b tablet'' = ''key-b tablet''"
    by (rule TrimSpace_solid; simp add: solid_def)+
  show "parse_line sample_ssh ''key-a phone'' = Some ([1], ''phone'')" "parse_line sample_ssh ''key-b tablet'' = Some ([2], ''tablet'')"
    by (simp_all add: sample_ssh_def t)
qed

lemma sample_keys_wf: "keys_wf sample_ssh sample_keys" "access sample_ssh sample_keys = {[1]}"
proof -
  show "keys_wf sample_ssh sample_keys"
    by (simp add: keys_wf_def sample_keys_def key_ok_def sample_ssh_lines(4)) (simp add: sample_ssh_def)
  have "keys_of sample_ssh [\<lparr>Pub = ''key-a phone'', key_Name = ''phone'', FP = ''SHA256:a'', AddedAt = '''', AddedBy = ''enroll''\<rparr>] = {[1]}"
    by (auto simp: keys_of_def sample_ssh_lines)
  then show "access sample_ssh sample_keys = {[1]}"
    using access_simps(1) [of sample_keys _ sample_ssh] by (simp add: sample_keys_def)
qed

definition sample_key_ops :: "(string \<times> key_write \<times> key_op) list" where
  "sample_key_ops = [(''now'', Renamed, OpAdd ''key-b tablet'' ''local''), (''now'', RenameFails, OpRemove ''SHA256:b''),
     (''now'', Renamed, OpRemove ''SHA256:a''), (''now'', Renamed, OpRemove ''SHA256:b'')]"

lemma sample_fingerprints: "fingerprint sample_ssh [1] = ''SHA256:a''" "fingerprint sample_ssh [2] = ''SHA256:b''"
  by (simp_all add: sample_ssh_def)

lemma sample_key_run:
  "keylist.succeeded sample_ssh sample_key_ops sample_keys =
     [(''now'', Renamed, OpAdd ''key-b tablet'' ''local''), (''now'', Renamed, OpRemove ''SHA256:a'')]"
  by (simp add: sample_key_ops_def sample_keys_def Add_def Remove_def ParseAuthorizedKey_def sample_ssh_lines
      sample_fingerprints listLocked_def writeLocked_def new_key_def Let_def)

lemma key_list_is_a_set_witness:
  "access sample_ssh (keylist.run sample_ssh sample_key_ops sample_keys) = {[2]}"
proof -
  have "keylist.all_clean sample_ssh sample_key_ops sample_keys"
    by (simp add: sample_key_ops_def no_collision_def sample_keys_wf sample_ssh_lines sample_fingerprints del: exec_key.simps)
  from key_list_is_a_set [OF sample_ssh_lines(1) sample_keys_wf(1) this]
  have "access sample_ssh (keylist.run sample_ssh sample_key_ops sample_keys) = {pub \<in> {[2], [1]}. fingerprint sample_ssh pub \<noteq> ''SHA256:a''}"
    unfolding sample_key_run by (simp add: sample_keys_wf key_spec_def sample_ssh_lines)
  then show ?thesis
    by (auto simp: sample_ssh_def)
qed

lemma devices_never_locked_out_witness:
  "access sample_ssh (keylist.run sample_ssh [(''now'', Renamed, OpRemove ''SHA256:a'')] sample_keys) \<noteq> {}"
  by (rule devices_never_locked_out [OF sample_ssh_lines(1) sample_keys_wf(1)]) (simp add: sample_keys_wf(2))

end
