(* ===== verification/Encoding.thy ===== *)
theory Encoding
  imports Prelude
begin

text \<open>
  The encodings of Go's standard library that the agent's derived credentials and links are
  made of, written out so that the derivations compute: \<^verbatim>\<open>crypto/sha256\<close>, \<^verbatim>\<open>encoding/hex\<close>
  and \<^verbatim>\<open>encoding/base64\<close>. The lemmas are what the users of the encodings need: lengths,
  alphabets, and that base64 can be decoded again.
\<close>

section \<open>SHA-256\<close>

definition sha_k :: "u32 list" where
  "sha_k =
   [1116352408, 1899447441, 3049323471, 3921009573, 961987163, 1508970993,
    2453635748, 2870763221, 3624381080, 310598401, 607225278, 1426881987,
    1925078388, 2162078206, 2614888103, 3248222580, 3835390401, 4022224774,
    264347078, 604807628, 770255983, 1249150122, 1555081692, 1996064986,
    2554220882, 2821834349, 2952996808, 3210313671, 3336571891, 3584528711,
    113926993, 338241895, 666307205, 773529912, 1294757372, 1396182291,
    1695183700, 1986661051, 2177026350, 2456956037, 2730485921, 2820302411,
    3259730800, 3345764771, 3516065817, 3600352804, 4094571909, 275423344,
    430227734, 506948616, 659060556, 883997877, 958139571, 1322822218,
    1537002063, 1747873779, 1955562222, 2024104815, 2227730452, 2361852424,
    2428436474, 2756734187, 3204031479, 3329325298]"

definition sha_h :: "u32 list" where
  "sha_h = [1779033703, 3144134277, 1013904242, 2773480762, 1359893119, 2600822924,
    528734635, 1541459225]"

definition ror :: "nat \<Rightarrow> u32 \<Rightarrow> u32" where
  "ror n x = drop_bit n x OR push_bit (32 - n) x"

definition sha_pad :: "byte list \<Rightarrow> byte list" where
  "sha_pad m =
     (let n = length m; bits = 8 * of_nat n :: u64
      in m @ [0x80] @ replicate ((119 - n mod 64) mod 64) 0 @
         put_be32 (ucast (drop_bit 32 bits)) @ put_be32 (ucast bits))"

fun be_words :: "byte list \<Rightarrow> u32 list" where
  "be_words (a # b # c # d # r) = get_be32 a b c d # be_words r"
| "be_words _ = []"

text \<open>The message schedule, grown one word at a time; newest word first.\<close>

definition sha_next :: "u32 list \<Rightarrow> u32 list" where
  "sha_next w =
     (let w15 = w ! 14; w2 = w ! 1;
          s0 = ror 7 w15 XOR ror 18 w15 XOR drop_bit 3 w15;
          s1 = ror 17 w2 XOR ror 19 w2 XOR drop_bit 10 w2
      in (w ! 15 + s0 + w ! 6 + s1) # w)"

definition sha_schedule :: "byte list \<Rightarrow> u32 list" where
  "sha_schedule block = rev ((sha_next ^^ 48) (rev (be_words block)))"

type_synonym sha_state = "u32 \<times> u32 \<times> u32 \<times> u32 \<times> u32 \<times> u32 \<times> u32 \<times> u32"

fun sha_round :: "u32 \<times> u32 \<Rightarrow> sha_state \<Rightarrow> sha_state" where
  "sha_round (k, w) (a, b, c, d, e, f, g, h) =
     (let s1 = ror 6 e XOR ror 11 e XOR ror 25 e;
          ch = (e AND f) XOR (NOT e AND g);
          t1 = h + s1 + ch + k + w;
          s0 = ror 2 a XOR ror 13 a XOR ror 22 a;
          maj = (a AND b) XOR (a AND c) XOR (b AND c)
      in (t1 + (s0 + maj), a, b, c, d + t1, e, f, g))"

fun sha_add :: "sha_state \<Rightarrow> sha_state \<Rightarrow> sha_state" where
  "sha_add (a, b, c, d, e, f, g, h) (a', b', c', d', e', f', g', h') =
     (a + a', b + b', c + c', d + d', e + e', f + f', g + g', h + h')"

definition sha_block :: "byte list \<Rightarrow> sha_state \<Rightarrow> sha_state" where
  "sha_block block s = sha_add s (fold sha_round (zip sha_k (sha_schedule block)) s)"

function sha_blocks :: "byte list \<Rightarrow> sha_state \<Rightarrow> sha_state" where
  "sha_blocks m s = (if length m < 64 then s else sha_blocks (drop 64 m) (sha_block (take 64 m) s))"
  by pat_completeness auto
termination by (relation "measure (\<lambda>(m, s). length m)") auto

declare sha_blocks.simps [simp del]

definition sha_init :: sha_state where
  "sha_init = (sha_h ! 0, sha_h ! 1, sha_h ! 2, sha_h ! 3, sha_h ! 4, sha_h ! 5, sha_h ! 6, sha_h ! 7)"

definition sha256 :: "byte list \<Rightarrow> byte list" where
  "sha256 m =
     (case sha_blocks (sha_pad m) sha_init of
        (a, b, c, d, e, f, g, h) \<Rightarrow>
          put_be32 a @ put_be32 b @ put_be32 c @ put_be32 d @
          put_be32 e @ put_be32 f @ put_be32 g @ put_be32 h)"

lemma length_put_be32 [simp]: "length (put_be32 n) = 4"
  by (simp add: put_be32_def)

lemma length_sha256 [simp]: "length (sha256 m) = 32"
  by (simp add: sha256_def split: prod.split)

section \<open>Hexadecimal\<close>

definition hex_digit :: "nat \<Rightarrow> char" where
  "hex_digit n = ''0123456789abcdef'' ! n"

definition hex_byte :: "byte \<Rightarrow> string" where
  "hex_byte b = [hex_digit (unat b div 16), hex_digit (unat b mod 16)]"

definition hex_encode :: "byte list \<Rightarrow> string" where
  "hex_encode bs = concat (map hex_byte bs)"

lemma unat_byte_less [simp]: "unat (b :: byte) < 256"
  using unsigned_less [of b, where 'a = nat] by simp

lemma length_hex_encode [simp]: "length (hex_encode bs) = 2 * length bs"
  by (induction bs) (simp_all add: hex_encode_def hex_byte_def)

lemma hex_digit_in: "n < 16 \<Longrightarrow> hex_digit n \<in> set ''0123456789abcdef''"
  unfolding hex_digit_def by (rule nth_mem) simp

lemma set_hex_encode: "set (hex_encode bs) \<subseteq> set ''0123456789abcdef''"
proof
  fix c
  assume "c \<in> set (hex_encode bs)"
  then obtain b where "c \<in> set (hex_byte b)"
    by (auto simp: hex_encode_def)
  moreover have "unat b div 16 < 16"
    by (simp add: less_mult_imp_div_less)
  ultimately show "c \<in> set ''0123456789abcdef''"
    unfolding hex_byte_def using hex_digit_in [of "unat b div 16"] hex_digit_in [of "unat b mod 16"]
    by auto
qed

lemma nth_hex_encode:
  "i < length bs \<Longrightarrow> hex_encode bs ! (2 * i) = hex_digit (unat (bs ! i) div 16)"
proof (induction bs arbitrary: i)
  case (Cons b bs)
  then show ?case by (cases i) (simp_all add: hex_encode_def hex_byte_def)
qed simp

text \<open>\<^verbatim>\<open>hex.DecodeString\<close>, \<open>None\<close> for its errors.\<close>

definition hex_val :: "char \<Rightarrow> nat option" where
  "hex_val c =
     (let n = (of_char c :: nat) in
      if 48 \<le> n \<and> n \<le> 57 then Some (n - 48)
      else if 65 \<le> n \<and> n \<le> 70 then Some (n - 55)
      else if 97 \<le> n \<and> n \<le> 102 then Some (n - 87)
      else None)"

fun hex_decode :: "string \<Rightarrow> byte list option" where
  "hex_decode [] = Some []"
| "hex_decode [c] = None"
| "hex_decode (a # b # s) =
     (case (hex_val a, hex_val b) of
        (Some x, Some y) \<Rightarrow> map_option ((#) (of_nat (16 * x + y))) (hex_decode s)
      | _ \<Rightarrow> None)"

lemma hex_val_hex_digit: "n < 16 \<Longrightarrow> hex_val (hex_digit n) = Some n"
proof -
  have "list_all (\<lambda>n. hex_val (hex_digit n) = Some n) [0..<16]"
    by (simp add: upt_rec hex_val_def hex_digit_def)
  then show "n < 16 \<Longrightarrow> hex_val (hex_digit n) = Some n"
    by (simp only: list_all_iff set_upt) simp
qed

lemma hex_decode_encode [simp]: "hex_decode (hex_encode bs) = Some bs"
proof (induction bs)
  case (Cons b bs)
  have "unat b div 16 < 16" "unat b mod 16 < 16"
    by (simp_all add: less_mult_imp_div_less)
  moreover have "hex_encode (b # bs) = hex_digit (unat b div 16) # hex_digit (unat b mod 16) # hex_encode bs"
    by (simp add: hex_encode_def hex_byte_def)
  ultimately show ?case
    using Cons by (simp add: hex_val_hex_digit)
qed (simp add: hex_encode_def)

section \<open>Base64\<close>

definition b64_std :: string where
  "b64_std = ''ABCDEFGHIJKLMNOPQRSTUVWXYZabcdefghijklmnopqrstuvwxyz0123456789+/''"

definition b64_url :: string where
  "b64_url = ''ABCDEFGHIJKLMNOPQRSTUVWXYZabcdefghijklmnopqrstuvwxyz0123456789-_''"

text \<open>The sextets of a byte sequence, and the padding that follows them.\<close>

fun sextets :: "nat list \<Rightarrow> nat list" where
  "sextets (a # b # c # r) =
     [a div 4, (a mod 4) * 16 + b div 16, (b mod 16) * 4 + c div 64, c mod 64] @ sextets r"
| "sextets [a, b] = [a div 4, (a mod 4) * 16 + b div 16, (b mod 16) * 4]"
| "sextets [a] = [a div 4, (a mod 4) * 16]"
| "sextets [] = []"

definition base64_raw :: "string \<Rightarrow> byte list \<Rightarrow> string" where
  "base64_raw alphabet bs = map (\<lambda>i. alphabet ! i) (sextets (map unat bs))"

definition base64_pad :: "string \<Rightarrow> byte list \<Rightarrow> string" where
  "base64_pad alphabet bs = base64_raw alphabet bs @ replicate ((3 - length bs mod 3) mod 3) CHR ''=''"

text \<open>\<^verbatim>\<open>RawURLEncoding\<close>, \<^verbatim>\<open>URLEncoding\<close> and \<^verbatim>\<open>StdEncoding\<close>.\<close>

definition RawURLEncoding :: "byte list \<Rightarrow> string" where
  "RawURLEncoding bs = base64_raw b64_url bs"

definition URLEncoding :: "byte list \<Rightarrow> string" where
  "URLEncoding bs = base64_pad b64_url bs"

definition StdEncoding :: "byte list \<Rightarrow> string" where
  "StdEncoding bs = base64_pad b64_std bs"

text \<open>Decoding, for the round trip: a client's view of the encoded text.\<close>

fun unsextets :: "nat list \<Rightarrow> nat list" where
  "unsextets (a # b # c # d # r) =
     [a * 4 + b div 16, (b mod 16) * 16 + c div 4, (c mod 4) * 64 + d] @ unsextets r"
| "unsextets [a, b, c] = [a * 4 + b div 16, (b mod 16) * 16 + c div 4]"
| "unsextets [a, b] = [a * 4 + b div 16]"
| "unsextets _ = []"

definition find_index :: "string \<Rightarrow> char \<Rightarrow> nat" where
  "find_index alphabet c = length (takeWhile (\<lambda>x. x \<noteq> c) alphabet)"

definition base64_decode :: "string \<Rightarrow> string \<Rightarrow> byte list" where
  "base64_decode alphabet s =
     map of_nat (unsextets (map (find_index alphabet) (takeWhile (\<lambda>c. c \<noteq> CHR ''='') s)))"

lemma sextets_less: "\<forall>x \<in> set ns. x < 256 \<Longrightarrow> \<forall>i \<in> set (sextets ns). i < 64"
  by (induction ns rule: sextets.induct) auto

lemma unsextets_sextets: "\<forall>x \<in> set ns. x < 256 \<Longrightarrow> unsextets (sextets ns) = ns"
  by (induction ns rule: sextets.induct) auto

lemma length_sextets:
  "length (sextets ns) = 4 * (length ns div 3) + (if length ns mod 3 = 0 then 0 else length ns mod 3 + 1)"
proof (induction ns rule: sextets.induct)
  case (1 a b c r)
  have "length (a # b # c # r) = 3 + length r"
    by simp
  then have "length (a # b # c # r) div 3 = Suc (length r div 3)"
    "length (a # b # c # r) mod 3 = length r mod 3"
    by simp_all
  with 1 show ?case by simp
qed simp_all

lemma length_base64_raw: "length (base64_raw alphabet bs) =
    4 * (length bs div 3) + (if length bs mod 3 = 0 then 0 else length bs mod 3 + 1)"
  by (simp add: base64_raw_def length_sextets)

lemma b64_alphabets [simp]:
  "length b64_std = 64" "length b64_url = 64" "distinct b64_std" "distinct b64_url"
  "CHR ''='' \<notin> set b64_std" "CHR ''='' \<notin> set b64_url"
  by (simp_all add: b64_std_def b64_url_def)

lemma set_base64_raw: "length alphabet = 64 \<Longrightarrow> set (base64_raw alphabet bs) \<subseteq> set alphabet"
  using sextets_less [of "map unat bs"] by (auto simp: base64_raw_def)

lemma find_index_nth: "distinct alphabet \<Longrightarrow> i < length alphabet \<Longrightarrow> find_index alphabet (alphabet ! i) = i"
proof (induction alphabet arbitrary: i)
  case (Cons c cs)
  then show ?case by (cases i) (auto simp: find_index_def)
qed simp

lemma base64_decode_pad:
  assumes "length alphabet = 64" "distinct alphabet" "CHR ''='' \<notin> set alphabet"
  shows "base64_decode alphabet (base64_raw alphabet bs @ replicate n CHR ''='') = bs"
proof -
  have lt: "\<forall>x \<in> set (map unat bs). x < 256"
    by simp
  have "\<forall>c \<in> set (base64_raw alphabet bs). c \<noteq> CHR ''=''"
    using set_base64_raw [OF assms(1), of bs] assms(3) by auto
  then have "takeWhile (\<lambda>c. c \<noteq> CHR ''='') (base64_raw alphabet bs @ replicate n CHR ''='') = base64_raw alphabet bs"
    by (simp add: takeWhile_append takeWhile_replicate)
  moreover have "map (find_index alphabet) (base64_raw alphabet bs) = sextets (map unat bs)"
    unfolding base64_raw_def map_map using sextets_less [OF lt] assms
    by (intro map_idI) (simp add: find_index_nth)
  ultimately show ?thesis
    by (simp add: base64_decode_def unsextets_sextets [OF lt] comp_def)
qed

text \<open>Hexadecimal text has no white space at its ends.\<close>

lemma hex_digit_solid: "c \<in> set ''0123456789abcdef'' \<Longrightarrow> solid c"
proof -
  have "list_all solid ''0123456789abcdef''"
    by (simp add: solid_def)
  then show "c \<in> set ''0123456789abcdef'' \<Longrightarrow> solid c"
    unfolding list_all_iff by (rule bspec)
qed

lemma TrimSpace_hex_encode: "TrimSpace (hex_encode s) = hex_encode s"
proof (cases "hex_encode s = []")
  case True
  then show ?thesis
    by (simp add: TrimSpace_def strip_none white_spaces_def HasPrefix_def)
next
  case False
  then have "solid (hd (hex_encode s))" "solid (last (hex_encode s))"
    using set_hex_encode [of s] hex_digit_solid by (meson contra_subsetD hd_in_set last_in_set)+
  then show ?thesis
    using False by (simp add: TrimSpace_solid)
qed

end
