(* ===== verification/Strconv.thy ===== *)
theory Strconv
  imports Prelude
begin

text \<open>
  The decimal conversions the agent uses: \<^verbatim>\<open>%d\<close> of \<^verbatim>\<open>fmt\<close> and \<^verbatim>\<open>strconv.Itoa\<close> (\<open>itoa\<close>), and
  \<^verbatim>\<open>strconv.Atoi\<close> with its syntax and range errors (\<open>None\<close>).
\<close>

definition digit_char :: "nat \<Rightarrow> char" where
  "digit_char d = char_of (48 + d)"

definition is_digit :: "char \<Rightarrow> bool" where
  "is_digit c \<longleftrightarrow> 48 \<le> (of_char c :: nat) \<and> (of_char c :: nat) \<le> 57"

definition digit_val :: "char \<Rightarrow> nat" where
  "digit_val c = of_char c - 48"

fun digits :: "nat \<Rightarrow> string" where
  "digits n = (if n < 10 then [digit_char n] else digits (n div 10) @ [digit_char (n mod 10)])"

declare digits.simps [simp del]

definition itoa :: "int \<Rightarrow> string" where
  "itoa i = (if i < 0 then CHR ''-'' # digits (nat (- i)) else digits (nat i))"

definition dec_value :: "string \<Rightarrow> nat" where
  "dec_value s = foldl (\<lambda>n c. 10 * n + digit_val c) 0 s"

definition Atou :: "string \<Rightarrow> nat option" where
  "Atou s = (if s \<noteq> [] \<and> list_all is_digit s then Some (dec_value s) else None)"

definition Atoi :: "string \<Rightarrow> int option" where
  "Atoi s =
     (let (neg, body) =
        (case s of [] \<Rightarrow> (False, [])
         | c # r \<Rightarrow> if c = CHR ''-'' then (True, r) else if c = CHR ''+'' then (False, r) else (False, s))
      in case Atou body of None \<Rightarrow> None
         | Some n \<Rightarrow> (let i = (if neg then - int n else int n) in if is_i64 i then Some i else None))"

lemma digit_char_props [simp]:
  assumes "d < 10"
  shows "is_digit (digit_char d)" "digit_val (digit_char d) = d"
  using assms by (simp_all add: is_digit_def digit_char_def digit_val_def)

lemma digits_not_Nil [simp]: "digits n \<noteq> []"
  by (subst digits.simps) simp

lemma digits_ok [simp]: "list_all is_digit (digits n)"
proof (induction n rule: digits.induct)
  case (1 n)
  then show ?case by (subst digits.simps) auto
qed

lemma dec_value_digits [simp]: "dec_value (digits n) = n"
proof (induction n rule: digits.induct)
  case (1 n)
  then show ?case
    by (subst digits.simps) (auto simp: dec_value_def)
qed

lemma Atou_digits [simp]: "Atou (digits n) = Some n"
  by (simp add: Atou_def)

lemma digits_no_sign: "c \<in> set (digits n) \<Longrightarrow> c \<noteq> CHR ''-'' \<and> c \<noteq> CHR ''+''"
  using digits_ok [of n] by (auto simp: list_all_iff is_digit_def)

lemma Atoi_itoa: "is_i64 i \<Longrightarrow> Atoi (itoa i) = Some i"
proof (cases "i < 0")
  case False
  assume i: "is_i64 i"
  obtain c r where d: "digits (nat i) = c # r"
    by (cases "digits (nat i)") auto
  then have "c \<noteq> CHR ''-''" "c \<noteq> CHR ''+''"
    using digits_no_sign [of c "nat i"] by auto
  moreover have "Atou (c # r) = Some (nat i)"
    using Atou_digits [of "nat i"] by (simp add: d)
  ultimately show ?thesis
    using False i by (simp add: Atoi_def itoa_def d)
qed (simp add: Atoi_def itoa_def)

lemma digits_inject: "digits m = digits n \<longleftrightarrow> m = n"
  by (metis dec_value_digits)

lemma itoa_inject: "itoa i = itoa j \<longleftrightarrow> i = j"
proof
  assume "itoa i = itoa j"
  moreover have "hd (digits n) \<noteq> CHR ''-''" for n
    using digits_no_sign [of "hd (digits n)" n] by simp
  ultimately show "i = j"
    by (auto simp: itoa_def digits_inject split: if_splits) (metis list.sel(1))+
qed simp

end
