(* ===== verification/Urls.thy ===== *)
theory Urls
  imports Encoding Strconv "HOL-Library.AList" "HOL-Library.Char_ord" "HOL-Library.List_Lexorder"
begin

text \<open>
  The parts of \<^verbatim>\<open>net/url\<close>, \<^verbatim>\<open>net\<close> and \<^verbatim>\<open>strings\<close> that the share links are made of:
  percent-encoding in its two modes, \<^verbatim>\<open>url.Values\<close>, \<^verbatim>\<open>net.JoinHostPort\<close> and the trimming
  functions, with the lemmas that a link can be taken apart again.
\<close>

section \<open>Percent-encoding\<close>

datatype escape_mode = PathSegment | QueryComponent

definition upper_hex :: "nat \<Rightarrow> char" where
  "upper_hex n = ''0123456789ABCDEF'' ! n"

definition is_alnum :: "char \<Rightarrow> bool" where
  "is_alnum c \<longleftrightarrow>
     (let n = (of_char c :: nat) in (97 \<le> n \<and> n \<le> 122) \<or> (65 \<le> n \<and> n \<le> 90) \<or> (48 \<le> n \<and> n \<le> 57))"

definition shouldEscape :: "escape_mode \<Rightarrow> char \<Rightarrow> bool" where
  "shouldEscape mode c =
     (if is_alnum c then False
      else if c \<in> set ''-_.~'' then False
      else if c \<in> set ''$&+,/:;=?@'' then
        (case mode of PathSegment \<Rightarrow> c \<in> set ''/;,?'' | QueryComponent \<Rightarrow> True)
      else True)"

definition escape_char :: "escape_mode \<Rightarrow> char \<Rightarrow> string" where
  "escape_char mode c =
     (if c = CHR '' '' \<and> mode = QueryComponent then ''+''
      else if shouldEscape mode c
      then CHR ''%'' # [upper_hex (of_char c div 16), upper_hex (of_char c mod 16)]
      else [c])"

definition escape :: "escape_mode \<Rightarrow> string \<Rightarrow> string" where
  "escape mode s = concat (map (escape_char mode) s)"

abbreviation QueryEscape :: "string \<Rightarrow> string" where
  "QueryEscape \<equiv> escape QueryComponent"

abbreviation PathEscape :: "string \<Rightarrow> string" where
  "PathEscape \<equiv> escape PathSegment"

text \<open>Decoding, the view of the client that reads a link.\<close>

fun unescape :: "escape_mode \<Rightarrow> string \<Rightarrow> string option" where
  "unescape mode [] = Some []"
| "unescape mode (c # cs) =
     (if c = CHR ''%'' then
        (case cs of
           a # b # r \<Rightarrow>
             (case (hex_val a, hex_val b) of
                (Some x, Some y) \<Rightarrow> map_option ((#) (char_of (16 * x + y))) (unescape mode r)
              | _ \<Rightarrow> None)
         | _ \<Rightarrow> None)
      else if c = CHR ''+'' \<and> mode = QueryComponent then map_option ((#) CHR '' '') (unescape mode cs)
      else map_option ((#) c) (unescape mode cs))"

lemma hex_val_upper_hex: "n < 16 \<Longrightarrow> hex_val (upper_hex n) = Some n"
proof -
  have "\<forall>n \<in> {0..<16}. hex_val (upper_hex n) = Some n"
    by (simp add: atLeastLessThan_nat_numeral upper_hex_def hex_val_def numeral_eq_Suc atLeastLessThanSuc)
  then show "n < 16 \<Longrightarrow> hex_val (upper_hex n) = Some n" by simp
qed

lemma of_char_less_256 [simp]: "(of_char c :: nat) < 256"
proof -
  have "(of_char c :: nat) mod 256 = of_char c"
    by simp
  then show ?thesis
    by (metis mod_less_divisor zero_less_numeral)
qed

lemma unescape_escape_char:
  "unescape mode (escape_char mode c @ r) = map_option ((#) c) (unescape mode r)"
proof -
  have "(of_char c :: nat) div 16 < 16"
    by (simp add: less_mult_imp_div_less)
  moreover have "16 * ((of_char c :: nat) div 16) + of_char c mod 16 = of_char c"
    by simp
  ultimately have "shouldEscape mode c \<Longrightarrow> ?thesis"
    by (auto simp: escape_char_def hex_val_upper_hex shouldEscape_def)
  moreover have "\<not> shouldEscape mode c \<Longrightarrow> c \<noteq> CHR ''%'' \<and> (mode = QueryComponent \<longrightarrow> c \<noteq> CHR ''+'')"
    by (auto simp: shouldEscape_def is_alnum_def)
  then have "\<not> shouldEscape mode c \<Longrightarrow> ?thesis"
    by (auto simp: escape_char_def)
  ultimately show ?thesis by blast
qed

lemma unescape_escape [simp]: "unescape mode (escape mode s) = Some s"
  by (induction s) (simp_all add: escape_def unescape_escape_char)

lemma escape_inject: "escape mode s = escape mode t \<longleftrightarrow> s = t"
  by (metis option.inject unescape_escape)

text \<open>The characters that separate the parts of a link never occur in an encoded part.\<close>

lemma upper_hex_alnum: "n < 16 \<Longrightarrow> is_alnum (upper_hex n)"
proof -
  have "\<forall>n \<in> {0..<16}. is_alnum (upper_hex n)"
    by (simp add: upper_hex_def is_alnum_def numeral_eq_Suc atLeastLessThanSuc)
  then show "n < 16 \<Longrightarrow> is_alnum (upper_hex n)" by simp
qed

lemma shouldEscape_alnum: "is_alnum c \<Longrightarrow> \<not> shouldEscape mode c"
  by (simp add: shouldEscape_def)

lemma set_escape:
  "set (escape mode s) \<subseteq> {c. \<not> shouldEscape mode c} \<union> {CHR ''%'', CHR ''+''}"
proof
  fix d
  assume "d \<in> set (escape mode s)"
  then obtain c where d: "d \<in> set (escape_char mode c)"
    by (auto simp: escape_def)
  have "(of_char c :: nat) div 16 < 16"
    by (simp add: less_mult_imp_div_less)
  then have "is_alnum (upper_hex (of_char c div 16))" "is_alnum (upper_hex (of_char c mod 16))"
    by (auto intro: upper_hex_alnum)
  with d show "d \<in> {c. \<not> shouldEscape mode c} \<union> {CHR ''%'', CHR ''+''}"
    by (auto simp: escape_char_def shouldEscape_alnum split: if_splits)
qed

lemma not_in_escape: "shouldEscape mode c \<Longrightarrow> c \<noteq> CHR ''%'' \<and> c \<noteq> CHR ''+'' \<Longrightarrow> c \<notin> set (escape mode s)"
  using set_escape [of mode s] by auto

lemma escape_no_separators:
  "CHR ''#'' \<notin> set (escape mode s)" "CHR ''?'' \<notin> set (escape mode s)" "CHR ''/'' \<notin> set (escape mode s)"
  "CHR ''&'' \<notin> set (escape QueryComponent s)" "CHR ''='' \<notin> set (escape QueryComponent s)"
  by (cases mode; rule not_in_escape; simp add: shouldEscape_def is_alnum_def)+

section \<open>Query strings\<close>

text \<open>
  \<^verbatim>\<open>url.Values\<close> filled by \<^verbatim>\<open>Set\<close> only: one value per key. \<^verbatim>\<open>Encode\<close> sorts by key.
\<close>

type_synonym url_values = "(string \<times> string) list"

definition Set_value :: "string \<Rightarrow> string \<Rightarrow> url_values \<Rightarrow> url_values" where
  "Set_value k v vs = AList.update k v vs"

fun join :: "string \<Rightarrow> string list \<Rightarrow> string" where
  "join sep [] = []"
| "join sep [x] = x"
| "join sep (x # y # r) = x @ sep @ join sep (y # r)"

definition Encode :: "url_values \<Rightarrow> string" where
  "Encode vs = join ''&'' (map (\<lambda>(k, v). QueryEscape k @ ''='' @ QueryEscape v) (sort_key fst vs))"

text \<open>What \<^verbatim>\<open>url.ParseQuery\<close> returns for a query with one value per key.\<close>

definition parse_pair :: "string \<Rightarrow> (string \<times> string) option" where
  "parse_pair p =
     (case unescape QueryComponent (takeWhile (\<lambda>c. c \<noteq> CHR ''='') p) of
        None \<Rightarrow> None
      | Some k \<Rightarrow> map_option (Pair k) (unescape QueryComponent (drop 1 (dropWhile (\<lambda>c. c \<noteq> CHR ''='') p))))"

definition ParseQuery :: "string \<Rightarrow> (string \<times> string) list" where
  "ParseQuery q = List.map_filter parse_pair (Split q ''&'')"

lemma parse_pair_encoded: "parse_pair (QueryEscape k @ ''='' @ QueryEscape v) = Some (k, v)"
proof -
  have no: "\<forall>c \<in> set (QueryEscape k). c \<noteq> CHR ''=''"
    using escape_no_separators(5) [of k] by auto
  then have "takeWhile (\<lambda>c. c \<noteq> CHR ''='') (QueryEscape k @ ''='' @ QueryEscape v) = QueryEscape k"
    by (simp add: takeWhile_append)
  moreover have "dropWhile (\<lambda>c. c \<noteq> CHR ''='') (QueryEscape k @ ''='' @ QueryEscape v) = CHR ''='' # QueryEscape v"
    using no by (simp add: dropWhile_append)
  ultimately show ?thesis
    by (simp add: parse_pair_def)
qed

lemma split_join:
  "xs \<noteq> [] \<Longrightarrow> \<forall>x \<in> set xs. c \<notin> set x \<Longrightarrow> split_from [c] [] (join [c] xs) = xs"
  by (induction "[c]" xs rule: join.induct) (simp_all add: split_from_char)

lemma no_amp: "CHR ''&'' \<notin> set (QueryEscape k @ ''='' @ QueryEscape v)"
  by (simp add: escape_no_separators(4))

abbreviation encode_pair :: "string \<times> string \<Rightarrow> string" where
  "encode_pair \<equiv> \<lambda>(k, v). QueryEscape k @ ''='' @ QueryEscape v"

lemma Split_Encode: "vs \<noteq> [] \<Longrightarrow> Split (Encode vs) ''&'' = map encode_pair (sort_key fst vs)"
proof -
  assume "vs \<noteq> []"
  then have "map encode_pair (sort_key fst vs) \<noteq> []"
    by (metis length_0_conv length_sort map_is_Nil_conv)
  then show ?thesis
    unfolding Split_def Encode_def by (rule split_join) (use no_amp in auto)
qed

lemma parse_pairs_encoded: "List.map_filter parse_pair (map encode_pair ps) = ps"
  using parse_pair_encoded by (induction ps) (simp_all split: prod.split)

lemma ParseQuery_Encode: "vs \<noteq> [] \<Longrightarrow> ParseQuery (Encode vs) = sort_key fst vs"
  unfolding ParseQuery_def by (subst Split_Encode) (assumption, rule parse_pairs_encoded)

section \<open>Hosts and trimming\<close>

text \<open>\<^verbatim>\<open>strings.Trim(s, cutset)\<close> for ASCII cutsets.\<close>

definition Trim :: "string \<Rightarrow> string \<Rightarrow> string" where
  "Trim s cutset = rev (dropWhile (\<lambda>c. c \<in> set cutset) (rev (dropWhile (\<lambda>c. c \<in> set cutset) s)))"

definition JoinHostPort :: "string \<Rightarrow> string \<Rightarrow> string" where
  "JoinHostPort host port =
     (if CHR '':'' \<in> set host then ''['' @ host @ '']:'' @ port else host @ '':'' @ port)"

text \<open>\<^verbatim>\<open>net.SplitHostPort\<close>, \<open>None\<close> for its errors.\<close>

definition SplitHostPort :: "string \<Rightarrow> (string \<times> string) option" where
  "SplitHostPort hostport =
     (if CHR '':'' \<notin> set hostport then None
      else
        (let port = rev (takeWhile (\<lambda>c. c \<noteq> CHR '':'') (rev hostport));
             i = length hostport - length port - 1
         in if hd hostport = CHR ''['' then
              (if CHR '']'' \<notin> set hostport then None
               else
                 (let e = length (takeWhile (\<lambda>c. c \<noteq> CHR '']'') hostport);
                      host = take (e - 1) (drop 1 hostport)
                  in if e + 1 \<noteq> i then None
                     else if CHR ''['' \<in> set (drop 1 hostport) \<or> CHR '']'' \<in> set (drop (e + 1) hostport) then None
                     else Some (host, port)))
            else
              (let host = take i hostport
               in if CHR '':'' \<in> set host then None
                  else if CHR ''['' \<in> set hostport \<or> CHR '']'' \<in> set hostport then None
                  else Some (host, port))))"

lemma SplitHostPort_JoinHostPort:
  assumes "set host \<inter> {CHR ''['', CHR '']''} = {}" "set port \<inter> {CHR ''['', CHR '']'', CHR '':''} = {}"
  shows "SplitHostPort (JoinHostPort host port) = Some (host, port)"
proof -
  have p: "takeWhile (\<lambda>c. c \<noteq> CHR '':'') (rev port @ CHR '':'' # r) = rev port" for r
    using assms(2) by (subst takeWhile_append2) auto
  show ?thesis
  proof (cases "CHR '':'' \<in> set host")
    case True
    have "takeWhile (\<lambda>c. c \<noteq> CHR '']'') (host @ CHR '']'' # r) = host" for r
      using assms(1) by (subst takeWhile_append2) auto
    then show ?thesis
      using assms True p by (auto simp: SplitHostPort_def JoinHostPort_def Let_def)
  next
    case False
    then have "host = [] \<or> hd host \<noteq> CHR ''[''"
      using assms(1) by (cases host) auto
    then show ?thesis
      using assms False p by (cases host) (auto simp: SplitHostPort_def JoinHostPort_def Let_def)
  qed
qed

end
