(* ===== verification/OboxKey.thy ===== *)
theory OboxKey
  imports AuthKeys Urls
begin

text \<open>
  \<^verbatim>\<open>cmd/agent/oboxkey.go\<close>: the command \<^verbatim>\<open>obox-key\<close>, by which somebody who has root on the machine
  manages the list of devices. A run is a function of the environment, the arguments and the key
  directory; its result is the directory and the exit code. What it prints is left out.
\<close>

section \<open>The command line\<close>

text \<open>\<^verbatim>\<open>filepath.Base\<close>.\<close>

definition filepath_Base :: "string \<Rightarrow> string" where
  "filepath_Base path =
     (if path = [] then ''.''
      else
        (let r = dropWhile (\<lambda>c. c = CHR ''/'') (rev path)
         in if r = [] then ''/'' else rev (takeWhile (\<lambda>c. c \<noteq> CHR ''/'') r)))"

text \<open>\<open>prog\<close> is \<^verbatim>\<open>os.Args[0]\<close> and \<open>rest\<close> the arguments after it.\<close>

definition isOboxKeyInvocation :: "string \<Rightarrow> string list \<Rightarrow> bool" where
  "isOboxKeyInvocation prog rest \<longleftrightarrow>
     (if HasSuffix (filepath_Base prog) ''obox-key'' then True
      else 0 < length rest \<and> rest ! 0 = ''obox-key'')"

definition oboxKeyArgs :: "string \<Rightarrow> string list \<Rightarrow> string list" where
  "oboxKeyArgs prog rest = (if HasSuffix (filepath_Base prog) ''obox-key'' then rest else drop 1 rest)"

definition oboxKeyDataDir :: "(string \<Rightarrow> string) \<Rightarrow> string" where
  "oboxKeyDataDir env = (if env ''OTUN_DATA_DIR'' \<noteq> '''' then env ''OTUN_DATA_DIR'' else ''/opt/otun-agent/data'')"

definition oboxKeyAddedBy :: "(string \<Rightarrow> string) \<Rightarrow> string" where
  "oboxKeyAddedBy env =
     (if env ''OBOX_SESSION_FP'' \<noteq> '''' then ''session:'' @ env ''OBOX_SESSION_FP'' else ''local'')"

section \<open>The subcommands\<close>

text \<open>Every failure is reported with exit code 1. What is printed is left out.\<close>

definition reportError :: "auth_error \<Rightarrow> int" where
  "reportError err = 1"

definition oboxKeyList :: "key_dir \<Rightarrow> int" where
  "oboxKeyList d = (case List d of Inl err \<Rightarrow> reportError err | Inr ks \<Rightarrow> 0)"

definition oboxKeyAdd ::
    "ssh_lib \<Rightarrow> string \<Rightarrow> key_write \<Rightarrow> (string \<Rightarrow> string) \<Rightarrow> string \<Rightarrow> key_dir \<Rightarrow> key_dir \<times> int" where
  "oboxKeyAdd lib now w env line d =
     (case Add lib now w line (oboxKeyAddedBy env) d of
        (d, Inl err) \<Rightarrow> (d, reportError err) | (d, Inr k) \<Rightarrow> (d, 0))"

definition oboxKeyReset :: "ssh_lib \<Rightarrow> string \<Rightarrow> key_write \<Rightarrow> string \<Rightarrow> key_dir \<Rightarrow> key_dir \<times> int" where
  "oboxKeyReset lib now w line d =
     (case Reset lib now w line ''enroll'' d of
        (d, Inl err) \<Rightarrow> (d, reportError err) | (d, Inr k) \<Rightarrow> (d, 0))"

definition oboxKeyRemove :: "key_write \<Rightarrow> string \<Rightarrow> key_dir \<Rightarrow> key_dir \<times> int" where
  "oboxKeyRemove w fp d =
     (case Remove w fp d of (d, Some err) \<Rightarrow> (d, reportError err) | (d, None) \<Rightarrow> (d, 0))"

definition runOboxKey ::
    "ssh_lib \<Rightarrow> string \<Rightarrow> key_write \<Rightarrow> (string \<Rightarrow> string) \<Rightarrow> string list \<Rightarrow> key_dir \<Rightarrow> key_dir \<times> int" where
  "runOboxKey lib now w env args d =
     (if length args = 0 then (d, 2)
      else
        (let sub = args ! 0; line = join '' '' (drop 1 args) in
         if sub = ''list'' \<or> sub = ''ls'' then (d, oboxKeyList d)
         else if sub = ''reset'' then
           (if length args < 2 then (d, 2) else oboxKeyReset lib now w line d)
         else if sub = ''add'' then
           (if length args < 2 then (d, 2) else oboxKeyAdd lib now w env line d)
         else if sub = ''rm'' \<or> sub = ''remove'' \<or> sub = ''del'' then
           (if length args < 2 then (d, 2) else oboxKeyRemove w (args ! 1) d)
         else if sub = ''-h'' \<or> sub = ''--help'' \<or> sub = ''help'' then (d, 0)
         else (d, 2)))"

text \<open>
  The whole command: \<^verbatim>\<open>NewAuthKeyStore(oboxKeyDataDir())\<close> picks the directory whose list the run
  works on; \<open>fs\<close> gives every directory its list. The agent itself uses \<^verbatim>\<open>./data\<close>, which is
  \<open>agentDataDir\<close> of its working directory.
\<close>

type_synonym key_dirs = "string \<Rightarrow> key_dir"

definition runOboxKey_dirs ::
    "ssh_lib \<Rightarrow> string \<Rightarrow> key_write \<Rightarrow> (string \<Rightarrow> string) \<Rightarrow> string list \<Rightarrow> key_dirs \<Rightarrow> key_dirs \<times> int" where
  "runOboxKey_dirs lib now w env args fs =
     (let dir = oboxKeyDataDir env; (d, code) = runOboxKey lib now w env args (fs dir)
      in (fs(dir := d), code))"

definition agentDataDir :: "string \<Rightarrow> string" where
  "agentDataDir cwd = cwd @ ''/data''"

lemma runOboxKey_dirs_spec:
  assumes "runOboxKey_dirs lib now w env args fs = (fs', code)"
  shows "runOboxKey lib now w env args (fs (oboxKeyDataDir env)) = (fs' (oboxKeyDataDir env), code)"
    "\<And>dir. dir \<noteq> oboxKeyDataDir env \<Longrightarrow> fs' dir = fs dir"
  using assms by (auto simp: runOboxKey_dirs_def Let_def split_beta)

text \<open>
  Run without \<^verbatim>\<open>OTUN_DATA_DIR\<close>, the command works on the list of an agent that was started in
  \<^verbatim>\<open>/opt/otun-agent\<close>, where the service is installed by default, and on no other.
\<close>

lemma default_directory_is_the_agents:
  "env ''OTUN_DATA_DIR'' = '''' \<Longrightarrow> oboxKeyDataDir env = agentDataDir ''/opt/otun-agent''"
  by (simp add: oboxKeyDataDir_def agentDataDir_def)

section \<open>What a run does\<close>

text \<open>The operation on the list that the arguments ask for.\<close>

definition asked :: "(string \<Rightarrow> string) \<Rightarrow> string list \<Rightarrow> key_op option" where
  "asked env args =
     (if length args < 2 then None
      else if args ! 0 = ''reset'' then Some (OpReset (join '' '' (drop 1 args)) ''enroll'')
      else if args ! 0 = ''add'' then Some (OpAdd (join '' '' (drop 1 args)) (oboxKeyAddedBy env))
      else if args ! 0 = ''rm'' \<or> args ! 0 = ''remove'' \<or> args ! 0 = ''del'' then Some (OpRemove (args ! 1))
      else None)"

lemma runOboxKey_sub:
  assumes "\<not> length args < 2"
  shows "args ! 0 = ''reset'' \<Longrightarrow> runOboxKey lib now w env args d = oboxKeyReset lib now w (join '' '' (drop 1 args)) d"
    "args ! 0 = ''add'' \<Longrightarrow> runOboxKey lib now w env args d = oboxKeyAdd lib now w env (join '' '' (drop 1 args)) d"
    "args ! 0 = ''rm'' \<Longrightarrow> runOboxKey lib now w env args d = oboxKeyRemove w (args ! 1) d"
    "args ! 0 = ''remove'' \<Longrightarrow> runOboxKey lib now w env args d = oboxKeyRemove w (args ! 1) d"
    "args ! 0 = ''del'' \<Longrightarrow> runOboxKey lib now w env args d = oboxKeyRemove w (args ! 1) d"
proof -
  have "args \<noteq> []"
    using assms by auto
  then show "args ! 0 = ''reset'' \<Longrightarrow> runOboxKey lib now w env args d = oboxKeyReset lib now w (join '' '' (drop 1 args)) d"
    "args ! 0 = ''add'' \<Longrightarrow> runOboxKey lib now w env args d = oboxKeyAdd lib now w env (join '' '' (drop 1 args)) d"
    "args ! 0 = ''rm'' \<Longrightarrow> runOboxKey lib now w env args d = oboxKeyRemove w (args ! 1) d"
    "args ! 0 = ''remove'' \<Longrightarrow> runOboxKey lib now w env args d = oboxKeyRemove w (args ! 1) d"
    "args ! 0 = ''del'' \<Longrightarrow> runOboxKey lib now w env args d = oboxKeyRemove w (args ! 1) d"
    using assms by (simp_all add: runOboxKey_def)
qed

lemma obox_key_ops:
  "oboxKeyReset lib now w line d = (let (d', ok) = exec_key lib (now, w, OpReset line ''enroll'') d in (d', if ok then 0 else 1))"
  "oboxKeyAdd lib now w env line d =
     (let (d', ok) = exec_key lib (now, w, OpAdd line (oboxKeyAddedBy env)) d in (d', if ok then 0 else 1))"
  "oboxKeyRemove w fp d = (let (d', ok) = exec_key lib (now, w, OpRemove fp) d in (d', if ok then 0 else 1))"
  by (simp_all add: oboxKeyReset_def oboxKeyAdd_def oboxKeyRemove_def reportError_def split: prod.split sum.split option.split)

lemma runOboxKey_asked:
  "asked env args = Some op \<Longrightarrow>
     runOboxKey lib now w env args d = (let (d', ok) = exec_key lib (now, w, op) d in (d', if ok then 0 else 1))"
  "asked env args = None \<Longrightarrow> fst (runOboxKey lib now w env args d) = d"
proof -
  show "runOboxKey lib now w env args d = (let (d', ok) = exec_key lib (now, w, op) d in (d', if ok then 0 else 1))"
    if a: "asked env args = Some op"
  proof -
    have l: "\<not> length args < 2"
      using a by (cases "length args < 2") (simp_all add: asked_def)
    consider "args ! 0 = ''reset''" "op = OpReset (join '' '' (drop 1 args)) ''enroll''"
      | "args ! 0 = ''add''" "op = OpAdd (join '' '' (drop 1 args)) (oboxKeyAddedBy env)"
      | "args ! 0 = ''rm'' \<or> args ! 0 = ''remove'' \<or> args ! 0 = ''del''" "op = OpRemove (args ! 1)"
      using a l unfolding asked_def by (metis option.distinct(1) option.inject)
    then show ?thesis
      by cases (use obox_key_ops runOboxKey_sub [OF l, of lib now w env d] in metis)+
  qed
  show "asked env args = None \<Longrightarrow> fst (runOboxKey lib now w env args d) = d"
    unfolding asked_def runOboxKey_def Let_def by (simp split: if_split_asm)
qed

lemma runOboxKey_code: "snd (runOboxKey lib now w env args d) \<in> {0, 1, 2}"
  by (simp add: runOboxKey_def oboxKeyList_def oboxKeyReset_def oboxKeyAdd_def oboxKeyRemove_def reportError_def Let_def
      split: prod.split sum.split option.split)

text \<open>
  C20. A run of \<^verbatim>\<open>obox-key\<close> does what its arguments ask for or nothing: with exit code 0 the set of
  keys that give access is the one the operation asked for describes, with any other exit code,
  and for the arguments that ask for no operation, the set is unchanged. The file stays well
  formed, and while one key has access no run takes the last one away.
\<close>

theorem obox_key_contract:
  assumes "trims lib" "keys_wf lib d" "runOboxKey lib now w env args d = (d', code)"
    and "\<And>op. asked env args = Some op \<Longrightarrow> no_collision lib (now, w, op) (access lib d)"
  shows "keys_wf lib d' \<and> code \<in> {0, 1, 2} \<and>
    access lib d' = (case asked env args of
        None \<Rightarrow> access lib d
      | Some op \<Rightarrow> if code = 0 then key_spec lib (now, w, op) (access lib d) else access lib d) \<and>
    (access lib d \<noteq> {} \<longrightarrow> access lib d' \<noteq> {})"
proof (cases "asked env args")
  case None
  then have "d' = d"
    using runOboxKey_asked(2) [OF None, of lib now w d] assms(3) by simp
  then show ?thesis
    using None assms(2) runOboxKey_code [of lib now w env args d] assms(3) by simp
next
  case (Some op)
  have run: "d' = fst (exec_key lib (now, w, op) d)" "code = (if snd (exec_key lib (now, w, op) d) then 0 else 1)"
    using runOboxKey_asked(1) [OF Some, of lib now w d] assms(3) by (simp_all add: Let_def split: prod.splits)
  then show ?thesis
    using exec_key_wf [OF assms(1,2), of now w op] exec_key_access [OF assms(1,2) assms(4) [OF Some]]
      exec_key_nonempty [OF assms(1,2), of now w op] Some by auto
qed

lemma obox_key_contract_witness:
  "access sample_ssh (fst (runOboxKey sample_ssh ''now'' Renamed (\<lambda>_. '''') [''add'', ''key-b'', ''tablet''] sample_keys)) = {[1], [2]}"
proof -
  let ?args = "[''add'', ''key-b'', ''tablet'']"
  obtain d' code where r: "runOboxKey sample_ssh ''now'' Renamed (\<lambda>_. '''') ?args sample_keys = (d', code)"
    by fastforce
  have a: "asked (\<lambda>_. '''') ?args = Some (OpAdd ''key-b tablet'' ''local'')"
    by (simp add: asked_def oboxKeyAddedBy_def)
  have "code = 0"
    using r runOboxKey_asked(1) [OF a, of sample_ssh "''now''" Renamed sample_keys]
    by (simp add: sample_keys_def Add_def ParseAuthorizedKey_def sample_ssh_lines sample_fingerprints listLocked_def
        writeLocked_def Let_def)
  moreover have "no_collision sample_ssh (''now'', Renamed, OpAdd ''key-b tablet'' ''local'') (access sample_ssh sample_keys)"
    by (simp add: no_collision_def sample_keys_wf sample_ssh_lines sample_fingerprints)
  ultimately show ?thesis
    using obox_key_contract [OF sample_ssh_lines(1) sample_keys_wf(1) r]
    by (auto simp: a r key_spec_def sample_ssh_lines sample_keys_wf)
qed

end
