(* ===== verification/NetIP.thy ===== *)
theory NetIP
  imports Strconv Encoding
begin

text \<open>
  The part of Go's \<^verbatim>\<open>net\<close> package that decides which addresses the agent accepts: parsing and
  printing (\<^verbatim>\<open>net.ParseIP\<close>, \<^verbatim>\<open>IP.String\<close>) and the classes of addresses. An address is its 16
  bytes; an IPv4 address is the mapped form \<^verbatim>\<open>::ffff:a.b.c.d\<close>, as \<^verbatim>\<open>ParseIP\<close> returns it.
\<close>

section \<open>Parsing\<close>

text \<open>One field of a dotted address: one to three digits, no leading zero, at most 255.\<close>

definition ipv4_field :: "string \<Rightarrow> byte option" where
  "ipv4_field s =
     (if s = [] \<or> \<not> list_all is_digit s then None
      else if 1 < length s \<and> hd s = CHR ''0'' then None
      else if 255 < dec_value s then None
      else Some (of_nat (dec_value s)))"

definition parseIPv4 :: "string \<Rightarrow> byte list option" where
  "parseIPv4 s =
     (case map ipv4_field (Split s ''.'') of
        [Some a, Some b, Some c, Some d] \<Rightarrow> Some [a, b, c, d]
      | _ \<Rightarrow> None)"

text \<open>A group of an IPv6 address: one to four hexadecimal digits, and what follows them.\<close>

definition hextet :: "string \<Rightarrow> (nat \<times> string) option" where
  "hextet s =
     (let ds = takeWhile (\<lambda>c. hex_val c \<noteq> None) s
      in if ds = [] \<or> 4 < length ds then None
         else Some (foldl (\<lambda>n c. 16 * n + the (hex_val c)) 0 ds, drop (length ds) s))"

text \<open>
  The loop of \<^verbatim>\<open>netip.parseIPv6\<close>: the bytes so far, where the ellipsis is, and the rest of the
  text. The result is the state after the loop.
\<close>

function parse_groups :: "byte list \<Rightarrow> nat option \<Rightarrow> string \<Rightarrow> (byte list \<times> nat option \<times> string) option" where
  "parse_groups ip e s =
     (if 16 \<le> length ip then Some (ip, e, s)
      else
        (case hextet s of
           None \<Rightarrow> None
         | Some (v, rest) \<Rightarrow>
             if rest \<noteq> [] \<and> hd rest = CHR ''.'' then
               (if e = None \<and> length ip \<noteq> 12 then None
                else if 16 < length ip + 4 then None
                else (case parseIPv4 s of None \<Rightarrow> None | Some f \<Rightarrow> Some (ip @ f, e, [])))
             else
               (let ip = ip @ [of_nat (v div 256), of_nat (v mod 256)] in
                if rest = [] then Some (ip, e, [])
                else if hd rest \<noteq> CHR '':'' \<or> length rest = 1 then None
                else
                  (let s = tl rest in
                   if hd s = CHR '':'' then
                     (if e \<noteq> None then None
                      else if tl s = [] then Some (ip, Some (length ip), [])
                      else parse_groups ip (Some (length ip)) (tl s))
                   else parse_groups ip e s))))"
  by auto
termination
  by (relation "measure (\<lambda>(ip, e, s). 16 - length ip)") auto

declare parse_groups.simps [simp del]

definition parseIPv6 :: "string \<Rightarrow> byte list option" where
  "parseIPv6 s =
     (if s = ''::'' then Some (replicate 16 0)
      else
        (case (if HasPrefix s ''::'' then parse_groups [] (Some 0) (drop 2 s) else parse_groups [] None s) of
           None \<Rightarrow> None
         | Some (ip, e, rest) \<Rightarrow>
             if rest \<noteq> [] then None
             else if length ip < 16 then
               (case e of None \<Rightarrow> None | Some k \<Rightarrow> Some (take k ip @ replicate (16 - length ip) 0 @ drop k ip))
             else if e \<noteq> None then None
             else Some ip))"

definition v4_mapped :: "byte list \<Rightarrow> byte list" where
  "v4_mapped f = replicate 10 0 @ [0xFF, 0xFF] @ f"

text \<open>\<^verbatim>\<open>net.ParseIP\<close>; a zone (\<^verbatim>\<open>%eth0\<close>) is refused.\<close>

definition ParseIP :: "string \<Rightarrow> byte list option" where
  "ParseIP s =
     (case find (\<lambda>c. c = CHR ''.'' \<or> c = CHR '':'' \<or> c = CHR ''%'') s of
        None \<Rightarrow> None
      | Some c \<Rightarrow>
          if c = CHR ''.'' then map_option v4_mapped (parseIPv4 s)
          else if c = CHR ''%'' \<or> CHR ''%'' \<in> set s then None
          else parseIPv6 s)"

section \<open>Classes of addresses\<close>

text \<open>\<^verbatim>\<open>To4\<close> on a 16-byte address.\<close>

definition To4 :: "byte list \<Rightarrow> byte list option" where
  "To4 ip = (if take 12 ip = replicate 10 0 @ [0xFF, 0xFF] then Some (drop 12 ip) else None)"

definition IPv6loopback :: "byte list" where
  "IPv6loopback = replicate 15 0 @ [1]"

definition IsLoopback :: "byte list \<Rightarrow> bool" where
  "IsLoopback ip = (case To4 ip of Some f \<Rightarrow> f ! 0 = 127 | None \<Rightarrow> ip = IPv6loopback)"

definition IsMulticast :: "byte list \<Rightarrow> bool" where
  "IsMulticast ip = (case To4 ip of Some f \<Rightarrow> f ! 0 AND 0xF0 = 0xE0 | None \<Rightarrow> ip ! 0 = 0xFF)"

definition IsLinkLocalUnicast :: "byte list \<Rightarrow> bool" where
  "IsLinkLocalUnicast ip =
     (case To4 ip of
        Some f \<Rightarrow> f ! 0 = 169 \<and> f ! 1 = 254
      | None \<Rightarrow> ip ! 0 = 0xFE \<and> ip ! 1 AND 0xC0 = 0x80)"

definition IsUnspecified :: "byte list \<Rightarrow> bool" where
  "IsUnspecified ip \<longleftrightarrow> ip = v4_mapped [0, 0, 0, 0] \<or> ip = replicate 16 0"

definition IsGlobalUnicast :: "byte list \<Rightarrow> bool" where
  "IsGlobalUnicast ip \<longleftrightarrow> ip \<noteq> v4_mapped [0xFF, 0xFF, 0xFF, 0xFF] \<and> \<not> IsUnspecified ip \<and>
     \<not> IsLoopback ip \<and> \<not> IsMulticast ip \<and> \<not> IsLinkLocalUnicast ip"

section \<open>Printing\<close>

definition show_ipv4 :: "byte list \<Rightarrow> string" where
  "show_ipv4 f =
     digits (unat (f ! 0)) @ ''.'' @ digits (unat (f ! 1)) @ ''.'' @ digits (unat (f ! 2)) @ ''.'' @ digits (unat (f ! 3))"

fun words_of :: "byte list \<Rightarrow> nat list" where
  "words_of (a # b # r) = (256 * unat a + unat b) # words_of r"
| "words_of _ = []"

text \<open>Hexadecimal without leading zeros.\<close>

definition show_hextet :: "nat \<Rightarrow> string" where
  "show_hextet v =
     (if 0x1000 \<le> v then [hex_digit (v div 4096), hex_digit (v div 256 mod 16), hex_digit (v div 16 mod 16), hex_digit (v mod 16)]
      else if 0x100 \<le> v then [hex_digit (v div 256 mod 16), hex_digit (v div 16 mod 16), hex_digit (v mod 16)]
      else if 0x10 \<le> v then [hex_digit (v div 16 mod 16), hex_digit (v mod 16)]
      else [hex_digit (v mod 16)])"

text \<open>The first longest run of zero groups, if it has at least two: its start and its end.\<close>

definition zero_run :: "nat list \<Rightarrow> nat \<times> nat" where
  "zero_run ws =
     foldl (\<lambda>(zs, ze) i.
        (let l = length (takeWhile (\<lambda>w. w = 0) (drop i ws))
         in if 2 \<le> l \<and> ze - zs < l then (i, i + l) else (zs, ze)))
      (255, 255) [0..<8]"

fun show_groups :: "nat \<Rightarrow> nat list \<Rightarrow> string" where
  "show_groups i [] = []"
| "show_groups i (w # ws) = (if 0 < i then '':'' else '''') @ show_hextet w @ show_groups (Suc i) ws"

definition show_ipv6 :: "byte list \<Rightarrow> string" where
  "show_ipv6 ip =
     (let ws = words_of ip; (zs, ze) = zero_run ws
      in if zs < 8 then show_groups 0 (take zs ws) @ ''::'' @ show_groups 0 (drop ze ws)
         else show_groups 0 ws)"

text \<open>\<^verbatim>\<open>IP.String\<close> on a 16-byte address.\<close>

definition IP_String :: "byte list \<Rightarrow> string" where
  "IP_String ip = (case To4 ip of Some f \<Rightarrow> show_ipv4 f | None \<Rightarrow> show_ipv6 ip)"

section \<open>What is printed parses back\<close>

lemma ipv4_field_digits: "n < 256 \<Longrightarrow> ipv4_field (digits n) = Some (of_nat n)"
proof -
  assume n: "n < 256"
  have "\<not> (1 < length (digits n) \<and> hd (digits n) = CHR ''0'')"
  proof (cases "n < 10")
    case True
    then show ?thesis by (subst digits.simps) simp
  next
    case False
    have "hd (digits m) \<noteq> CHR ''0''" if "0 < m" for m
      using that
    proof (induction m rule: digits.induct)
      case (1 m)
      show ?case
      proof (cases "m < 10")
        case True
        then have "digit_val (digit_char m) = m"
          by simp
        then show ?thesis
          using 1(2) True by (subst digits.simps) (auto simp: digit_val_def)
      next
        case False
        then show ?thesis
          using 1 by (subst digits.simps) (simp add: hd_append)
      qed
    qed
    then show ?thesis
      using False by simp
  qed
  then show ?thesis
    using n by (auto simp: ipv4_field_def)
qed

lemma digits_no: "\<not> is_digit c \<Longrightarrow> c \<notin> set (digits n)"
  using digits_ok [of n] by (auto simp: list_all_iff)

lemma parse_show_ipv4:
  assumes "length f = 4"
  shows "parseIPv4 (show_ipv4 f) = Some f"
proof -
  obtain a b c d where f: "f = [a, b, c, d]"
    using assms by (auto simp: length_Suc_conv eval_nat_numeral)
  have "CHR ''.'' \<notin> set (digits n)" for n
    by (rule digits_no) (simp add: is_digit_def)
  then have "Split (show_ipv4 f) ''.'' = [digits (unat a), digits (unat b), digits (unat c), digits (unat d)]"
    by (simp add: show_ipv4_def f Split_def split_from_char)
  then show ?thesis
    by (simp add: parseIPv4_def f ipv4_field_digits)
qed

text \<open>A group is read up to its end.\<close>

definition group_end :: "string \<Rightarrow> bool" where
  "group_end r \<longleftrightarrow> r = [] \<or> hex_val (hd r) = None"

lemma takeWhile_group: "list_all (\<lambda>c. hex_val c \<noteq> None) ds \<Longrightarrow> group_end r \<Longrightarrow> takeWhile (\<lambda>c. hex_val c \<noteq> None) (ds @ r) = ds"
  by (cases r) (auto simp: group_end_def list_all_iff takeWhile_append2)

lemma show_hextet_digits:
  assumes "v < 65536"
  shows "\<exists>ns. show_hextet v = map hex_digit ns \<and> ns \<noteq> [] \<and> length ns \<le> 4 \<and> list_all (\<lambda>n. n < 16) ns \<and>
    foldl (\<lambda>n c. 16 * n + c) 0 ns = v"
proof -
  have "v div 4096 < 16"
    using assms by (simp add: less_mult_imp_div_less)
  moreover have "v mod 16 + 16 * (v div 16 mod 16 + 16 * (v div 256 mod 16 + 16 * (v div 4096))) = v"
    using div_mult2_eq [of v 16 16] div_mult2_eq [of v 256 16] mult_div_mod_eq [of 16 v]
      mult_div_mod_eq [of 16 "v div 16"] mult_div_mod_eq [of 16 "v div 256"] by simp
  ultimately have d: "v mod 16 + 16 * (v div 16 mod 16 + 16 * (v div 256 mod 16 + 16 * (v div 4096))) = v" "v div 4096 < 16"
    by simp_all
  consider "0x1000 \<le> v" | "0x100 \<le> v" "v < 0x1000" | "0x10 \<le> v" "v < 0x100" | "v < 0x10"
    by linarith
  then show ?thesis
  proof cases
    case 1
    then show ?thesis
      using d by (intro exI [of _ "[v div 4096, v div 256 mod 16, v div 16 mod 16, v mod 16]"]) (simp add: show_hextet_def algebra_simps)
  next
    case 2
    then show ?thesis
      using d by (intro exI [of _ "[v div 256 mod 16, v div 16 mod 16, v mod 16]"]) (simp add: show_hextet_def algebra_simps)
  next
    case 3
    then have "v div 256 = 0" "v div 4096 = 0"
      by simp_all
    with 3 show ?thesis
      using d by (intro exI [of _ "[v div 16 mod 16, v mod 16]"]) (simp add: show_hextet_def algebra_simps)
  next
    case 4
    then show ?thesis
      by (intro exI [of _ "[v mod 16]"]) (simp add: show_hextet_def)
  qed
qed

lemma hextet_show:
  assumes "v < 65536" "group_end r"
  shows "hextet (show_hextet v @ r) = Some (v, r)"
proof -
  obtain ns where ns: "show_hextet v = map hex_digit ns" "ns \<noteq> []" "length ns \<le> 4" "list_all (\<lambda>n. n < 16) ns"
    "foldl (\<lambda>n c. 16 * n + c) 0 ns = v"
    using show_hextet_digits [OF assms(1)] by blast
  have v: "list_all (\<lambda>c. hex_val c \<noteq> None) (map hex_digit ns)"
    using ns(4) by (auto simp: list_all_iff hex_val_hex_digit)
  have "foldl (\<lambda>n c. 16 * n + the (hex_val c)) k (map hex_digit ns) = foldl (\<lambda>n c. 16 * n + c) k ns" for k
    using ns(4) by (induction ns arbitrary: k) (simp_all add: hex_val_hex_digit)
  then show ?thesis
    using takeWhile_group [OF v assms(2)] ns by (simp add: hextet_def ns(1))
qed

lemma show_hextet_not_Nil: "v < 65536 \<Longrightarrow> show_hextet v \<noteq> []"
  using show_hextet_digits [of v] by auto

lemma hd_show_hextet: "v < 65536 \<Longrightarrow> hex_val (hd (show_hextet v)) \<noteq> None"
  using show_hextet_digits [of v] by (auto simp: hd_map list_all_iff hex_val_hex_digit)

definition group_bytes :: "nat \<Rightarrow> byte list" where
  "group_bytes v = [of_nat (v div 256), of_nat (v mod 256)]"

lemma length_group_bytes [simp]: "length (group_bytes v) = 2"
  by (simp add: group_bytes_def)

lemma show_groups_Suc: "show_groups (Suc i) ws = concat (map (\<lambda>w. '':'' @ show_hextet w) ws)"
  by (induction ws arbitrary: i) simp_all

lemma parse_groups_step:
  assumes "v < 65536" "length ip < 16"
  shows "parse_groups ip e (show_hextet v) = Some (ip @ group_bytes v, e, [])"
    and "r \<noteq> [] \<Longrightarrow> hd r \<noteq> CHR '':'' \<Longrightarrow>
      parse_groups ip e (show_hextet v @ '':'' @ r) = parse_groups (ip @ group_bytes v) e r"
    and "r \<noteq> [] \<Longrightarrow> parse_groups ip None (show_hextet v @ ''::'' @ r) =
      parse_groups (ip @ group_bytes v) (Some (length ip + 2)) r"
    and "parse_groups ip None (show_hextet v @ ''::'') = Some (ip @ group_bytes v, Some (length ip + 2), [])"
proof -
  have colon: "group_end (CHR '':'' # r)" "group_end []" for r
    by (simp_all add: group_end_def hex_val_def)
  have h: "hextet (show_hextet v) = Some (v, [])"
    using hextet_show [OF assms(1) colon(2)] by simp
  note hs = hextet_show [OF assms(1) colon(1)]
  show "parse_groups ip e (show_hextet v) = Some (ip @ group_bytes v, e, [])"
    using assms(2) by (subst parse_groups.simps) (simp add: h group_bytes_def Let_def)
  show "r \<noteq> [] \<Longrightarrow> hd r \<noteq> CHR '':'' \<Longrightarrow>
      parse_groups ip e (show_hextet v @ '':'' @ r) = parse_groups (ip @ group_bytes v) e r"
    using assms(2) by (subst parse_groups.simps) (simp add: hs group_bytes_def Let_def)
  show "r \<noteq> [] \<Longrightarrow> parse_groups ip None (show_hextet v @ ''::'' @ r) =
      parse_groups (ip @ group_bytes v) (Some (length ip + 2)) r"
    using assms(2) by (subst parse_groups.simps) (simp add: hs group_bytes_def Let_def)
  show "parse_groups ip None (show_hextet v @ ''::'') = Some (ip @ group_bytes v, Some (length ip + 2), [])"
    using assms(2) by (subst parse_groups.simps) (simp add: hs group_bytes_def Let_def)
qed

lemma hd_show_groups: "list_all (\<lambda>v. v < 65536) ws \<Longrightarrow> ws \<noteq> [] \<Longrightarrow> show_groups 0 ws \<noteq> [] \<and> hd (show_groups 0 ws) \<noteq> CHR '':''"
proof (cases ws)
  case (Cons w ws')
  moreover assume "list_all (\<lambda>v. v < 65536) ws"
  ultimately have w: "w < 65536"
    by simp
  have "hex_val (CHR '':'') = None"
    by (simp add: hex_val_def)
  then have "hd (show_hextet w) \<noteq> CHR '':''"
    using hd_show_hextet [OF w] by metis
  then show ?thesis
    using Cons show_hextet_not_Nil [OF w] by simp
qed simp

lemma show_groups_Cons2: "show_groups 0 (w # w' # ws) = show_hextet w @ '':'' @ show_groups 0 (w' # ws)"
  by (simp add: show_groups_Suc)

lemma parse_show_groups:
  assumes "list_all (\<lambda>v. v < 65536) ws" "ws \<noteq> []" "length ip + 2 * length ws \<le> 16"
  shows "parse_groups ip e (show_groups 0 ws) = Some (ip @ concat (map group_bytes ws), e, [])"
  using assms
proof (induction ws arbitrary: ip)
  case (Cons w ws)
  show ?case
  proof (cases ws)
    case Nil
    then show ?thesis
      using Cons.prems parse_groups_step(1) [of w ip e] by simp
  next
    case (Cons w' ws')
    have "parse_groups ip e (show_groups 0 (w # ws)) = parse_groups (ip @ group_bytes w) e (show_groups 0 ws)"
      using parse_groups_step(2) [of w ip "show_groups 0 ws" e] Cons.prems hd_show_groups [of ws]
      unfolding Cons show_groups_Cons2 by simp
    then show ?thesis
      using Cons.IH [of "ip @ group_bytes w"] Cons.prems Cons by simp
  qed
qed simp

lemma parse_show_ellipsis:
  assumes "list_all (\<lambda>v. v < 65536) ws" "ws \<noteq> []" "list_all (\<lambda>v. v < 65536) ws'"
    and "length ip + 2 * length ws + 2 * length ws' < 16"
  shows "parse_groups ip None (show_groups 0 ws @ ''::'' @ show_groups 0 ws') =
    Some (ip @ concat (map group_bytes (ws @ ws')), Some (length ip + 2 * length ws), [])"
  using assms
proof (induction ws arbitrary: ip)
  case (Cons w ws)
  show ?case
  proof (cases ws)
    case Nil
    show ?thesis
    proof (cases "ws' = []")
      case True
      then show ?thesis
        using Nil Cons.prems parse_groups_step(4) [of w ip] by simp
    next
      case False
      then show ?thesis
        using Nil Cons.prems parse_groups_step(3) [of w ip "show_groups 0 ws'"] hd_show_groups [of ws']
          parse_show_groups [of ws' "ip @ group_bytes w" "Some (length ip + 2)"] by simp
    qed
  next
    case (Cons v vs)
    have "show_groups 0 ws \<noteq> []" "hd (show_groups 0 ws @ ''::'' @ show_groups 0 ws') \<noteq> CHR '':''"
      using hd_show_groups [of ws] Cons.prems Cons by (auto simp: hd_append)
    then have "parse_groups ip None (show_groups 0 (w # ws) @ ''::'' @ show_groups 0 ws') =
        parse_groups (ip @ group_bytes w) None (show_groups 0 ws @ ''::'' @ show_groups 0 ws')"
      using parse_groups_step(2) [of w ip "show_groups 0 ws @ ''::'' @ show_groups 0 ws'" None] Cons.prems
      unfolding Cons show_groups_Cons2 by (simp del: show_groups.simps)
    then show ?thesis
      using Cons.IH [of "ip @ group_bytes w"] Cons.prems Cons by simp
  qed
qed simp

lemma words_of_props:
  "list_all (\<lambda>v. v < 65536) (words_of ip)"
  "length (words_of ip) = length ip div 2"
  "even (length ip) \<Longrightarrow> concat (map group_bytes (words_of ip)) = ip"
proof -
  have "256 * unat a + unat b < 65536" for a b :: byte
    using unat_byte_less [of a] unat_byte_less [of b] by linarith
  then show "list_all (\<lambda>v. v < 65536) (words_of ip)"
    by (induction ip rule: words_of.induct) simp_all
  show "length (words_of ip) = length ip div 2"
    by (induction ip rule: words_of.induct) simp_all
  have "group_bytes (256 * unat a + unat b) = [a, b]" for a b :: byte
    using unat_byte_less [of b] by (simp add: group_bytes_def div_mult_self3 del: unat_byte_less)
  then show "even (length ip) \<Longrightarrow> concat (map group_bytes (words_of ip)) = ip"
    by (induction ip rule: words_of.induct) simp_all
qed

lemma foldl_invariant: "P x \<Longrightarrow> (\<And>x y. P x \<Longrightarrow> y \<in> set ys \<Longrightarrow> P (f x y)) \<Longrightarrow> P (foldl f x ys)"
  by (induction ys arbitrary: x) simp_all

lemma takeWhile_zero: "takeWhile (\<lambda>w. w = 0) ws = replicate (length (takeWhile (\<lambda>w. w = 0) ws)) (0 :: nat)"
  by (induction ws) simp_all

text \<open>A run that is found is a run of zeros, with at least two groups.\<close>

definition is_zero_run :: "nat list \<Rightarrow> nat \<times> nat \<Rightarrow> bool" where
  "is_zero_run ws r = (case r of (zs, ze) \<Rightarrow>
     zs + 2 \<le> ze \<and> ze \<le> length ws \<and> take (ze - zs) (drop zs ws) = replicate (ze - zs) 0)"

lemma zero_run_found:
  assumes "zero_run ws = (zs, ze)" "zs < 8"
  shows "is_zero_run ws (zs, ze)"
proof -
  have "zero_run ws = (255, 255) \<or> is_zero_run ws (zero_run ws)"
    unfolding zero_run_def
  proof (rule foldl_invariant)
    fix r :: "nat \<times> nat" and i
    assume r: "r = (255, 255) \<or> is_zero_run ws r"
    let ?l = "length (takeWhile (\<lambda>w. w = 0) (drop i ws))"
    have "?l \<le> length ws - i"
      by (metis length_drop length_takeWhile_le)
    moreover have "take ?l (drop i ws) = replicate ?l 0"
      by (metis takeWhile_eq_take takeWhile_zero)
    ultimately have "2 \<le> ?l \<Longrightarrow> is_zero_run ws (i, i + ?l)"
      by (simp add: is_zero_run_def)
    with r show "(case r of (zs, ze) \<Rightarrow> \<lambda>i. let l = length (takeWhile (\<lambda>w. w = 0) (drop i ws))
         in if 2 \<le> l \<and> ze - zs < l then (i, i + l) else (zs, ze)) i = (255, 255) \<or>
       is_zero_run ws ((case r of (zs, ze) \<Rightarrow> \<lambda>i. let l = length (takeWhile (\<lambda>w. w = 0) (drop i ws))
         in if 2 \<le> l \<and> ze - zs < l then (i, i + l) else (zs, ze)) i)"
      by (cases r) (simp add: Let_def)
  qed simp
  then show ?thesis
    using assms by auto
qed

lemma zero_run_split:
  assumes "is_zero_run ws (zs, ze)"
  shows "ws = take zs ws @ replicate (ze - zs) 0 @ drop ze ws"
proof -
  have z: "zs \<le> ze" "take (ze - zs) (drop zs ws) = replicate (ze - zs) 0"
    using assms by (simp_all add: is_zero_run_def)
  have "drop zs ws = take (ze - zs) (drop zs ws) @ drop (ze - zs) (drop zs ws)"
    by (rule append_take_drop_id [symmetric])
  also have "\<dots> = replicate (ze - zs) 0 @ drop ze ws"
    using z by simp
  finally show ?thesis
    by (metis append_take_drop_id)
qed

lemma concat_group_zeros: "concat (map group_bytes (replicate n 0)) = replicate (2 * n) 0"
  by (induction n) (simp_all add: group_bytes_def)

lemma length_concat_groups [simp]: "length (concat (map group_bytes ws)) = 2 * length ws"
  by (induction ws) simp_all

lemma HasPrefix_colons: "t \<noteq> [] \<Longrightarrow> hd t \<noteq> CHR '':'' \<Longrightarrow> \<not> HasPrefix (t @ r) ''::'' \<and> t @ r \<noteq> ''::''"
  by (cases t) (auto simp: HasPrefix_def)

lemma parseIPv6_groups:
  assumes "list_all (\<lambda>v. v < 65536) ws" "length ws = 8"
  shows "parseIPv6 (show_groups 0 ws) = Some (concat (map group_bytes ws))"
proof -
  have ne: "ws \<noteq> []"
    using assms(2) by auto
  then have "\<not> HasPrefix (show_groups 0 ws) ''::''" "show_groups 0 ws \<noteq> ''::''"
    using hd_show_groups [OF assms(1)] HasPrefix_colons [of "show_groups 0 ws" "[]"] by simp_all
  moreover have "parse_groups [] None (show_groups 0 ws) = Some (concat (map group_bytes ws), None, [])"
    using parse_show_groups [OF assms(1) ne, of "[]" None] assms(2) by simp
  ultimately show ?thesis
    using assms(2) by (simp add: parseIPv6_def)
qed

lemma parseIPv6_ellipsis:
  assumes "list_all (\<lambda>v. v < 65536) l" "list_all (\<lambda>v. v < 65536) r" "length l + length r < 8"
  shows "parseIPv6 (show_groups 0 l @ ''::'' @ show_groups 0 r) =
    Some (concat (map group_bytes l) @ replicate (16 - (2 * length l + 2 * length r)) 0 @ concat (map group_bytes r))"
proof -
  have small: "2 * length l + 2 * length r < 16"
    using assms(3) by linarith
  show ?thesis
  proof (cases "l = []")
    case False
    have "parse_groups [] None (show_groups 0 l @ ''::'' @ show_groups 0 r) =
        Some (concat (map group_bytes (l @ r)), Some (2 * length l), [])"
      using parse_show_ellipsis [OF assms(1) False assms(2), of "[]"] small by simp
    moreover have "\<not> HasPrefix (show_groups 0 l @ ''::'' @ show_groups 0 r) ''::''"
      "show_groups 0 l @ ''::'' @ show_groups 0 r \<noteq> ''::''"
      using HasPrefix_colons [of "show_groups 0 l" "''::'' @ show_groups 0 r"] hd_show_groups [OF assms(1) False]
      by simp_all
    ultimately show ?thesis
      using small by (simp add: parseIPv6_def)
  next
    case True
    show ?thesis
    proof (cases "r = []")
      case False
      have "parse_groups [] (Some 0) (show_groups 0 r) = Some (concat (map group_bytes r), Some 0, [])"
        using parse_show_groups [OF assms(2) False, of "[]" "Some 0"] small by simp
      then show ?thesis
        using hd_show_groups [OF assms(2) False] small True by (simp add: parseIPv6_def HasPrefix_def)
    qed (simp add: True parseIPv6_def)
  qed
qed

lemma parse_show_ipv6:
  assumes "length ip = 16"
  shows "parseIPv6 (show_ipv6 ip) = Some ip"
proof -
  define ws where "ws = words_of ip"
  have ws: "list_all (\<lambda>v. v < 65536) ws" "length ws = 8" "concat (map group_bytes ws) = ip"
    using words_of_props [of ip] assms by (simp_all add: ws_def)
  obtain zs ze where run: "zero_run ws = (zs, ze)"
    by fastforce
  show ?thesis
  proof (cases "zs < 8")
    case False
    then show ?thesis
      using parseIPv6_groups [OF ws(1,2)] ws(3) run by (simp add: show_ipv6_def flip: ws_def)
  next
    case True
    let ?l = "take zs ws" and ?r = "drop ze ws"
    have z: "is_zero_run ws (zs, ze)"
      by (rule zero_run_found [OF run True])
    then have len: "zs + 2 \<le> ze" "ze \<le> 8"
      using ws(2) by (simp_all add: is_zero_run_def)
    have "list_all (\<lambda>v. v < 65536) (take zs ws @ replicate (ze - zs) 0 @ drop ze ws)"
      using ws(1) by (simp only: zero_run_split [OF z, symmetric])
    moreover have "length ?l = zs" "length ?r = 8 - ze" "16 - (2 * zs + 2 * (8 - ze)) = 2 * (ze - zs)" "zs + (8 - ze) < 8"
      using len ws(2) by simp_all
    ultimately have "parseIPv6 (show_groups 0 ?l @ ''::'' @ show_groups 0 ?r) =
        Some (concat (map group_bytes ?l) @ replicate (2 * (ze - zs)) 0 @ concat (map group_bytes ?r))"
      using parseIPv6_ellipsis [of ?l ?r] by simp
    moreover have "ip = concat (map group_bytes ?l) @ replicate (2 * (ze - zs)) 0 @ concat (map group_bytes ?r)"
      using ws(3) zero_run_split [OF z] concat_group_zeros [of "ze - zs"] by (metis concat_append map_append)
    moreover have "show_ipv6 ip = show_groups 0 ?l @ ''::'' @ show_groups 0 ?r"
      using True run by (simp add: show_ipv6_def flip: ws_def)
    ultimately show ?thesis
      by simp
  qed
qed

lemma find_only:
  assumes "c \<in> set s" "P c" "\<And>d. d \<in> set s \<Longrightarrow> P d \<Longrightarrow> d = c"
  shows "find P s = Some c"
proof (cases "find P s")
  case None
  then show ?thesis
    using assms(1,2) by (auto simp: find_None_iff)
next
  case (Some d)
  then show ?thesis
    using find_SomeD [OF Some] assms(3) by simp
qed

lemma set_show_groups:
  "list_all (\<lambda>v. v < 65536) ws \<Longrightarrow> c \<in> set (show_groups i ws) \<Longrightarrow> c = CHR '':'' \<or> hex_val c \<noteq> None"
proof (induction ws arbitrary: i)
  case (Cons w ws)
  obtain ns where "show_hextet w = map hex_digit ns" "list_all (\<lambda>n. n < 16) ns"
    using show_hextet_digits [of w] Cons.prems(1) by auto
  then have "c \<in> set (show_hextet w) \<Longrightarrow> hex_val c \<noteq> None"
    by (auto simp: list_all_iff hex_val_hex_digit)
  then show ?case
    using Cons by (auto split: if_splits)
qed simp

lemma show_ipv6_chars:
  assumes "length ip = 16"
  shows "CHR '':'' \<in> set (show_ipv6 ip)" "c \<in> set (show_ipv6 ip) \<Longrightarrow> c = CHR '':'' \<or> hex_val c \<noteq> None"
proof -
  have ws: "list_all (\<lambda>v. v < 65536) (words_of ip)" "length (words_of ip) = 8"
    using words_of_props [of ip] assms by simp_all
  obtain zs ze where run: "zero_run (words_of ip) = (zs, ze)"
    by fastforce
  obtain a b r where "words_of ip = a # b # r"
    using ws(2) by (auto simp: length_Suc_conv eval_nat_numeral)
  then show "CHR '':'' \<in> set (show_ipv6 ip)"
    using run by (simp add: show_ipv6_def Let_def)
  have "list_all (\<lambda>v. v < 65536) (take k (words_of ip))" "list_all (\<lambda>v. v < 65536) (drop k (words_of ip))" for k
    using ws(1) by (auto simp: list_all_iff dest: in_set_takeD in_set_dropD)
  then show "c \<in> set (show_ipv6 ip) \<Longrightarrow> c = CHR '':'' \<or> hex_val c \<noteq> None"
    using run set_show_groups ws(1) by (fastforce simp: show_ipv6_def Let_def split: if_splits)
qed

lemma To4_Some:
  assumes "length ip = 16" "To4 ip = Some f"
  shows "ip = v4_mapped f" "length f = 4"
proof -
  have "take 12 ip = replicate 10 0 @ [0xFF, 0xFF]" "f = drop 12 ip"
    using assms(2) by (simp_all add: To4_def split: if_splits)
  then show "ip = v4_mapped f" "length f = 4"
    using assms(1) append_take_drop_id [of 12 ip] unfolding v4_mapped_def by (metis append_assoc, simp)
qed

text \<open>
  An address that is printed is read back as the same address: \<^verbatim>\<open>net.ParseIP\<close> inverts
  \<^verbatim>\<open>IP.String\<close>, for the dotted form, for the eight groups, and wherever the ellipsis stands.
\<close>

lemma ParseIP_String:
  assumes "length ip = 16"
  shows "ParseIP (IP_String ip) = Some ip"
proof (cases "To4 ip")
  case (Some f)
  note ip = To4_Some [OF assms this]
  have "CHR '':'' \<notin> set (digits n)" "CHR ''%'' \<notin> set (digits n)" for n
    by (rule digits_no, simp add: is_digit_def)+
  then have "CHR '':'' \<notin> set (show_ipv4 f)" "CHR ''%'' \<notin> set (show_ipv4 f)"
    by (simp_all add: show_ipv4_def)
  moreover have "CHR ''.'' \<in> set (show_ipv4 f)"
    by (simp add: show_ipv4_def)
  ultimately have "find (\<lambda>c. c = CHR ''.'' \<or> c = CHR '':'' \<or> c = CHR ''%'') (show_ipv4 f) = Some CHR ''.''"
    by (intro find_only) metis+
  then show ?thesis
    using ip parse_show_ipv4 [of f] Some by (simp add: ParseIP_def IP_String_def)
next
  case None
  have no: "hex_val (CHR ''.'') = None" "hex_val (CHR ''%'') = None"
    by (simp_all add: hex_val_def)
  then have "CHR ''%'' \<notin> set (show_ipv6 ip)" "CHR ''.'' \<notin> set (show_ipv6 ip)"
    using show_ipv6_chars(2) [OF assms] by fastforce+
  moreover from this have "find (\<lambda>c. c = CHR ''.'' \<or> c = CHR '':'' \<or> c = CHR ''%'') (show_ipv6 ip) = Some CHR '':''"
    using show_ipv6_chars(1) [OF assms] by (intro find_only) metis+
  ultimately show ?thesis
    using parse_show_ipv6 [OF assms] None by (simp add: ParseIP_def IP_String_def)
qed

section \<open>Every address has sixteen bytes\<close>

lemma length_parseIPv4: "parseIPv4 s = Some f \<Longrightarrow> length f = 4"
  by (auto simp: parseIPv4_def split: list.splits option.splits)

lemma length_parse_groups:
  "parse_groups ip e s = Some (ip', e', r) \<Longrightarrow> even (length ip) \<Longrightarrow> length ip \<le> 16 \<Longrightarrow> length ip' \<le> 16"
proof (induction ip e s rule: parse_groups.induct)
  case (1 ip e s)
  show ?case
  proof (cases "16 \<le> length ip")
    case True
    then show ?thesis
      using 1(3,5) by (subst (asm) parse_groups.simps) simp
  next
    case False
    then have room: "length ip + 2 \<le> 16"
      using 1(4) by presburger
    obtain v rest where h: "hextet s = Some (v, rest)"
      using 1(3) False by (subst (asm) parse_groups.simps) (auto split: option.splits)
    show ?thesis
    proof (cases "rest \<noteq> [] \<and> hd rest = CHR ''.''")
      case True
      then show ?thesis
        using 1(3) False h length_parseIPv4
        by (subst (asm) parse_groups.simps) (auto split: if_splits option.splits)
    next
      case dot: False
      note IH = 1(1) [OF False h refl dot refl] 1(2) [OF False h refl dot refl]
      show ?thesis
        using 1(3) False h dot room 1(4) IH
        by (subst (asm) parse_groups.simps) (auto simp: Let_def split: if_splits)
    qed
  qed
qed

lemma length_ParseIP:
  assumes "ParseIP s = Some ip"
  shows "length ip = 16"
proof -
  have "length ip = 16" if v6: "parseIPv6 s = Some ip" for s ip
  proof (cases "s = ''::''")
    case True
    then show ?thesis
      using v6 by (simp add: parseIPv6_def) auto
  next
    case False
    let ?start = "if HasPrefix s ''::'' then parse_groups [] (Some 0) (drop 2 s) else parse_groups [] None s"
    obtain g e where g: "?start = Some (g, e, [])"
      using v6 False by (auto simp: parseIPv6_def split: option.splits if_splits prod.splits)
    have "length g \<le> 16"
      using g length_parse_groups [of "[]"] by (auto split: if_splits)
    then show ?thesis
      using v6 False g by (auto simp: parseIPv6_def split: if_splits option.splits)
  qed
  then show ?thesis
    using assms length_parseIPv4 by (auto simp: ParseIP_def v4_mapped_def split: option.splits if_splits)
qed

end
