(* ===== verification/SshServer.thy ===== *)
theory SshServer
  imports OboxKey NetIP
begin

text \<open>
  \<^verbatim>\<open>internal/tunnel/sshserver.go\<close>: the SSH server that runs inside a tunnel. The SSH transport
  (\<^verbatim>\<open>golang.org/x/crypto/ssh\<close>), pseudo terminals and processes are outside; modelled are the host
  key's seed, the decision who may log in, what is done with each channel and request, the
  decoding of the requests, the environment of the user's shell and the exit status.
\<close>

section \<open>The host key\<close>

definition hostKeySeedContext :: string where
  "hostKeySeedContext = ''obox-host-key-v1|''"

text \<open>\<open>SeedTmp\<close> is a failure before the rename; the final file is then untouched.\<close>

datatype seed_write = SeedMkdirFails | SeedTmpFails | SeedRenameFails | SeedRenamed

datatype seed_error = GenerateSeed | CreateDataDir | WriteSeed | PersistSeed

text \<open>
  \<open>seed\<close> is what \<^verbatim>\<open>rand.Read\<close> yields; the file is its content, \<open>None\<close> when it cannot be read.
\<close>

definition usable_seed :: "string option \<Rightarrow> byte list option" where
  "usable_seed file =
     (case file of
        None \<Rightarrow> None
      | Some raw \<Rightarrow>
          (case hex_decode (TrimSpace raw) of
             None \<Rightarrow> None
           | Some decoded \<Rightarrow> if length decoded = 32 then Some decoded else None))"

definition loadOrCreateHostKeySeed ::
    "byte list option \<Rightarrow> seed_write \<Rightarrow> string \<Rightarrow> string \<Rightarrow> string option \<Rightarrow> string option \<times> (seed_error + byte list)" where
  "loadOrCreateHostKeySeed seed w dataDir nodeSecret file =
     (if dataDir = '''' then (file, Inr (sha256 (bytes_of_string (hostKeySeedContext @ nodeSecret))))
      else
        (case usable_seed file of
           Some decoded \<Rightarrow> (file, Inr decoded)
         | None \<Rightarrow>
             (case seed of
                None \<Rightarrow> (file, Inl GenerateSeed)
              | Some s \<Rightarrow>
                  (case w of
                     SeedMkdirFails \<Rightarrow> (file, Inl CreateDataDir)
                   | SeedTmpFails \<Rightarrow> (file, Inl WriteSeed)
                   | SeedRenameFails \<Rightarrow> (file, Inl PersistSeed)
                   | SeedRenamed \<Rightarrow> (Some (hex_encode s), Inr s)))))"

text \<open>The server; \<open>hostKey\<close> stands for the Ed25519 key derived from it.\<close>

record Server =
  s_nodeID :: string
  hostKey :: "byte list"
  has_authKeys :: bool

definition NewServer ::
    "byte list option \<Rightarrow> seed_write \<Rightarrow> string \<Rightarrow> string \<Rightarrow> string \<Rightarrow> string option \<Rightarrow> string option \<times> (seed_error + Server)" where
  "NewServer seed w nodeID nodeSecret dataDir file =
     (case loadOrCreateHostKeySeed seed w dataDir nodeSecret file of
        (file, Inl err) \<Rightarrow> (file, Inl err)
      | (file, Inr s) \<Rightarrow> (file, Inr \<lparr>s_nodeID = nodeID, hostKey = s, has_authKeys = False\<rparr>))"

definition EnableOwnerKeys :: "Server \<Rightarrow> Server" where
  "EnableOwnerKeys s = s\<lparr>has_authKeys := True\<rparr>"

section \<open>Who may log in, and to what\<close>

definition sshUsername :: string where
  "sshUsername = ''obox''"

text \<open>The callback of \<^verbatim>\<open>Serve\<close>: \<open>None\<close> refuses, \<open>Some\<close> is the session's key fingerprint.\<close>

definition PublicKeyCallback :: "ssh_lib \<Rightarrow> key_dir \<Rightarrow> string \<Rightarrow> pubkey \<Rightarrow> string option" where
  "PublicKeyCallback lib d user key =
     (if user \<noteq> sshUsername then None
      else (case Authorized lib d key of None \<Rightarrow> None | Some k \<Rightarrow> Some (FP k)))"

datatype channel_action = ForwardTCP | RejectChannel | RunSession

definition channel_action :: "string \<Rightarrow> channel_action" where
  "channel_action typ =
     (if typ = ''direct-tcpip'' then ForwardTCP
      else if typ \<noteq> ''session'' then RejectChannel
      else RunSession)"

text \<open>
  \<^verbatim>\<open>Serve\<close>: without a list of keys the connection is closed; otherwise the handshake must
  succeed, with \<open>login\<close> the user and the key it ended on, and the channels are dispatched.
\<close>

datatype serve_result = NotEnabled | HandshakeFailed | Served "channel_action list"

definition Serve :: "ssh_lib \<Rightarrow> key_dir \<Rightarrow> (string \<times> pubkey) option \<Rightarrow> string list \<Rightarrow> Server \<Rightarrow> serve_result" where
  "Serve lib d login channels s =
     (if \<not> has_authKeys s then NotEnabled
      else
        (case login of
           None \<Rightarrow> HandshakeFailed
         | Some (user, key) \<Rightarrow>
             (case PublicKeyCallback lib d user key of
                None \<Rightarrow> HandshakeFailed
              | Some fp \<Rightarrow> Served (map channel_action channels))))"

definition isLoopbackHost :: "string \<Rightarrow> bool" where
  "isLoopbackHost host \<longleftrightarrow>
     (if host = ''localhost'' then True
      else (case ParseIP host of None \<Rightarrow> False | Some ip \<Rightarrow> IsLoopback ip))"

record directTCPIPPayload =
  DestHost :: string
  DestPort :: u32
  OriginHost :: string
  OriginPort :: u32

text \<open>The payload is \<open>None\<close> when \<^verbatim>\<open>ssh.Unmarshal\<close> fails; \<open>dial\<close> is whether the connection succeeds.\<close>

datatype forward_result = BadPayload | Prohibited | ConnectionFailed string | Forwarded string

definition handleDirectTCPIP :: "(string \<Rightarrow> bool) \<Rightarrow> directTCPIPPayload option \<Rightarrow> forward_result" where
  "handleDirectTCPIP dial payload =
     (case payload of
        None \<Rightarrow> BadPayload
      | Some p \<Rightarrow>
          if \<not> isLoopbackHost (DestHost p) then Prohibited
          else
            (let target = JoinHostPort (DestHost p) (digits (unat (DestPort p)))
             in if \<not> dial target then ConnectionFailed target else Forwarded target))"

section \<open>Decoding of requests\<close>

definition parseUint32 :: "byte list \<Rightarrow> (u32 \<times> byte list) option" where
  "parseUint32 b =
     (if length b < 4 then None
      else Some (push_bit 24 (ucast (b ! 0)) OR push_bit 16 (ucast (b ! 1)) OR push_bit 8 (ucast (b ! 2)) OR ucast (b ! 3),
                 drop 4 b))"

definition parseString :: "byte list \<Rightarrow> (string \<times> byte list) option" where
  "parseString b =
     (case parseUint32 b of
        None \<Rightarrow> None
      | Some (n, rest) \<Rightarrow>
          if of_nat (length rest) < n then None
          else Some (string_of_bytes (take (unat n) rest), drop (unat n) rest))"

record ptyRequest =
  term_name :: string
  pty_cols :: u32
  pty_rows :: u32

definition parsePTYRequest :: "byte list \<Rightarrow> ptyRequest option" where
  "parsePTYRequest payload =
     (case parseString payload of
        None \<Rightarrow> None
      | Some (t, rest) \<Rightarrow>
          (case parseUint32 rest of
             None \<Rightarrow> None
           | Some (cols, rest) \<Rightarrow>
               (case parseUint32 rest of
                  None \<Rightarrow> None
                | Some (rows, _) \<Rightarrow> Some \<lparr>term_name = t, pty_cols = cols, pty_rows = rows\<rparr>)))"

definition parseWindowChange :: "byte list \<Rightarrow> (u32 \<times> u32) option" where
  "parseWindowChange payload =
     (case parseUint32 payload of
        None \<Rightarrow> None
      | Some (cols, rest) \<Rightarrow>
          (case parseUint32 rest of None \<Rightarrow> None | Some (rows, _) \<Rightarrow> Some (cols, rows)))"

definition parseExecRequest :: "byte list \<Rightarrow> string option" where
  "parseExecRequest payload = (case parseString payload of None \<Rightarrow> None | Some (cmd, _) \<Rightarrow> Some cmd)"

text \<open>\<^verbatim>\<open>setWinsize\<close> truncates to 16 bits.\<close>

definition setWinsize :: "u32 \<Rightarrow> u32 \<Rightarrow> 16 word \<times> 16 word" where
  "setWinsize cols rows = (ucast cols, ucast rows)"

definition termOrDefault :: "ptyRequest option \<Rightarrow> string" where
  "termOrDefault p =
     (case p of None \<Rightarrow> ''xterm-256color''
      | Some p \<Rightarrow> if term_name p \<noteq> '''' then term_name p else ''xterm-256color'')"

section \<open>The host key stays the same\<close>

lemma usable_seed_encode: "length s = 32 \<Longrightarrow> usable_seed (Some (hex_encode s)) = Some s"
  by (simp add: usable_seed_def TrimSpace_hex_encode)

text \<open>
  The host key survives restarts and reinstallations: once the server has started with a seed,
  every later start finds the same seed, whatever secret the backend has given the node by then,
  and leaves the file alone. A start that fails leaves the file alone, too.
\<close>

theorem host_key_is_stable:
  assumes "dataDir \<noteq> ''''" "\<And>s. seed = Some s \<Longrightarrow> length s = 32"
    and "NewServer seed w nodeID nodeSecret dataDir file = (file', r)"
  shows "(case r of
      Inl err \<Rightarrow> file' = file
    | Inr srv \<Rightarrow> NewServer seed' w' nodeID' nodeSecret' dataDir file' =
        (file', Inr \<lparr>s_nodeID = nodeID', hostKey = hostKey srv, has_authKeys = False\<rparr>))"
proof (cases "usable_seed file")
  case (Some s)
  then show ?thesis
    using assms(1,3) by (auto simp: NewServer_def loadOrCreateHostKeySeed_def)
next
  case None
  show ?thesis
  proof (cases seed)
    case (Some s)
    then show ?thesis
      using assms None usable_seed_encode [of s]
      by (cases w) (auto simp: NewServer_def loadOrCreateHostKeySeed_def)
  qed (use assms None in \<open>auto simp: NewServer_def loadOrCreateHostKeySeed_def\<close>)
qed

lemma host_key_is_stable_witness:
  "NewServer None SeedRenamed ''n'' ''rotated'' ''data'' (Some (hex_encode (replicate 32 7))) =
     (Some (hex_encode (replicate 32 7)), Inr \<lparr>s_nodeID = ''n'', hostKey = replicate 32 7, has_authKeys = False\<rparr>)"
proof -
  have "NewServer (Some (replicate 32 7)) SeedRenamed ''n'' ''secret'' ''data'' None =
      (Some (hex_encode (replicate 32 7)), Inr \<lparr>s_nodeID = ''n'', hostKey = replicate 32 7, has_authKeys = False\<rparr>)"
    by (simp add: NewServer_def loadOrCreateHostKeySeed_def usable_seed_def)
  from host_key_is_stable [OF _ _ this, of None SeedRenamed "''n''" "''rotated''"] show ?thesis
    by simp
qed

section \<open>Only listed devices get in\<close>

lemma PublicKeyCallback_iff: "PublicKeyCallback lib d user key \<noteq> None \<longleftrightarrow> user = sshUsername \<and> key \<in> access lib d"
  by (auto simp: PublicKeyCallback_def access_def split: option.splits)

text \<open>
  C9. A device that was removed stays out: after \<^verbatim>\<open>obox-key rm\<close> has succeeded, and whatever is done
  to the list afterwards short of adding a key with that fingerprint again, no connection
  authenticates with a key of that fingerprint, so no channel of such a connection is served. The
  list is that of the directory the command works on, which has to be the one the server was
  started with (see \<open>default_directory_is_the_agents\<close>); lists of other directories are untouched.
\<close>

theorem removed_device_stays_out:
  assumes "trims lib" "keys_wf lib (fs (oboxKeyDataDir env))"
    and "runOboxKey_dirs lib now w env [sub, fp] fs = (fs', 0)" "sub \<in> {''rm'', ''remove'', ''del''}"
    and "list_all (\<lambda>e. \<not> adds_fp lib fp (snd (snd e))) es" "fingerprint lib key = fp"
  shows "PublicKeyCallback lib (keylist.run lib es (fs' (oboxKeyDataDir env))) user key = None \<and>
    (\<forall>cs chans. Serve lib (keylist.run lib es (fs' (oboxKeyDataDir env))) (Some (user, key)) chans s \<noteq> Served cs) \<and>
    (\<forall>dir. dir \<noteq> oboxKeyDataDir env \<longrightarrow> fs' dir = fs dir)"
proof -
  let ?d = "fs (oboxKeyDataDir env)" and ?d' = "fs' (oboxKeyDataDir env)"
  note run = runOboxKey_dirs_spec [OF assms(3)]
  have "asked env [sub, fp] = Some (OpRemove fp)"
    using assms(4) by (auto simp: asked_def)
  then have "Remove w fp ?d = (?d', None)"
    using run(1) runOboxKey_asked(1) [of env "[sub, fp]" "OpRemove fp" lib now w ?d]
    by (auto simp: Let_def split: prod.splits option.splits if_splits)
  then have "keys_wf lib ?d' \<and> shut_out lib fp ?d'"
    using Remove_shuts_out [OF assms(1,2)] by blast
  then have "shut_out lib fp (keylist.run lib es ?d')"
    using shut_out_run [OF assms(1)] assms(5) by blast
  then have "PublicKeyCallback lib (keylist.run lib es ?d') user key = None"
    using PublicKeyCallback_iff [of lib "keylist.run lib es ?d'" user key] assms(6) by (auto simp: shut_out_def)
  then show ?thesis
    using run(2) by (simp add: Serve_def)
qed

lemma removed_device_stays_out_witness:
  "PublicKeyCallback sample_ssh (fst (runOboxKey sample_ssh ''now'' Renamed (\<lambda>_. '''') [''rm'', ''SHA256:a'']
     (fst (Add sample_ssh ''now'' Renamed ''key-b tablet'' ''local'' sample_keys)))) ''obox'' [1] = None"
proof -
  define d where "d = fst (exec_key sample_ssh (''now'', Renamed, OpAdd ''key-b tablet'' ''local'') sample_keys)"
  have d: "d = fst (Add sample_ssh ''now'' Renamed ''key-b tablet'' ''local'' sample_keys)"
    by (simp add: d_def split: prod.split sum.split)
  have wf: "keys_wf sample_ssh d"
    unfolding d_def by (rule exec_key_wf [OF sample_ssh_lines(1) sample_keys_wf(1)])
  obtain d' code where r: "runOboxKey sample_ssh ''now'' Renamed (\<lambda>_. '''') [''rm'', ''SHA256:a''] d = (d', code)"
    by fastforce
  have a: "asked (\<lambda>_. '''') [''rm'', ''SHA256:a''] = Some (OpRemove ''SHA256:a'')"
    by (simp add: asked_def)
  have "code = 0"
    using r runOboxKey_asked(1) [OF a, of sample_ssh "''now''" Renamed d]
    by (simp add: d_def sample_keys_def Add_def Remove_def ParseAuthorizedKey_def sample_ssh_lines sample_fingerprints
        listLocked_def writeLocked_def new_key_def Let_def)
  then have "runOboxKey_dirs sample_ssh ''now'' Renamed (\<lambda>_. '''') [''rm'', ''SHA256:a''] (\<lambda>_. d) =
      ((\<lambda>_. d)(oboxKeyDataDir (\<lambda>_. '''') := d'), 0)"
    using r by (simp add: runOboxKey_dirs_def)
  then show ?thesis
    using removed_device_stays_out [OF sample_ssh_lines(1), of "\<lambda>_. d" "\<lambda>_. ''''" "''now''" Renamed "''rm''" "''SHA256:a''"
        "(\<lambda>_. d)(oboxKeyDataDir (\<lambda>_. '''') := d')" "[]" "[1]" "''obox''"] r wf
    by (simp add: sample_fingerprints d)
qed

section \<open>Forwarding stays on the machine\<close>

lemma IsLoopback_iff:
  assumes "length ip = 16"
  shows "IsLoopback ip \<longleftrightarrow> ip = IPv6loopback \<or> (\<exists>a b c. ip = v4_mapped [127, a, b, c])"
proof (cases "To4 ip")
  case (Some f)
  note ip = To4_Some [OF assms Some]
  moreover have "\<exists>w a b c. f = [w, a, b, c]"
    using ip(2) by (auto simp: length_Suc_conv eval_nat_numeral)
  moreover have "v4_mapped f \<noteq> IPv6loopback" for f
  proof
    assume "v4_mapped f = IPv6loopback"
    then have "v4_mapped f ! 10 = IPv6loopback ! 10"
      by simp
    then show False
      by (simp add: v4_mapped_def IPv6loopback_def nth_append)
  qed
  ultimately show ?thesis
    using Some by (auto simp: IsLoopback_def v4_mapped_def)
next
  case None
  moreover have "To4 (v4_mapped f) \<noteq> None" for f
    by (simp add: To4_def v4_mapped_def)
  ultimately show ?thesis
    by (auto simp: IsLoopback_def) (metis option.distinct(1))
qed

lemma ParseIP_localhost: "ParseIP ''localhost'' = None"
  by (simp add: ParseIP_def)

lemma isLoopbackHost_String: "length ip = 16 \<Longrightarrow> isLoopbackHost (IP_String ip) \<longleftrightarrow> IsLoopback ip"
  using ParseIP_String [of ip] ParseIP_localhost by (auto simp: isLoopbackHost_def)

definition on_this_machine :: "string \<Rightarrow> bool" where
  "on_this_machine host \<longleftrightarrow> host = ''localhost'' \<or> ParseIP host = Some IPv6loopback \<or>
     (\<exists>a b c. ParseIP host = Some (v4_mapped [127, a, b, c]))"

lemma isLoopbackHost_iff: "isLoopbackHost host \<longleftrightarrow> on_this_machine host"
  using length_ParseIP [of host] IsLoopback_iff
  by (auto simp: isLoopbackHost_def on_this_machine_def ParseIP_localhost split: option.splits)

lemma on_this_machine_ipv4: "on_this_machine (show_ipv4 [a, b, c, d]) \<longleftrightarrow> a = 127"
proof -
  have "To4 (v4_mapped [a, b, c, d]) = Some [a, b, c, d]" "length (v4_mapped [a, b, c, d]) = 16"
    by (simp_all add: To4_def v4_mapped_def)
  then show ?thesis
    using isLoopbackHost_String [of "v4_mapped [a, b, c, d]"]
    by (simp add: isLoopbackHost_iff IP_String_def IsLoopback_def)
qed

text \<open>
  C11. The tunnel is no proxy into the machine's network: a forwarding request is dialled exactly
  when its destination is \<^verbatim>\<open>localhost\<close>, an address of 127.0.0.0/8 in any notation, or \<^verbatim>\<open>::1\<close>, and
  then at the host and port it names; every other destination is refused before anything is
  dialled. Of the IPv4 addresses in dotted form just those that begin with 127 pass, so the
  metadata service at 169.254.169.254 does not.
\<close>

theorem forwarding_stays_local:
  "(case handleDirectTCPIP dial payload of
      BadPayload \<Rightarrow> payload = None
    | Prohibited \<Rightarrow> (\<exists>p. payload = Some p \<and> \<not> on_this_machine (DestHost p))
    | ConnectionFailed target \<Rightarrow> (\<exists>p. payload = Some p \<and> on_this_machine (DestHost p) \<and>
        target = JoinHostPort (DestHost p) (itoa (uint (DestPort p))) \<and> \<not> dial target)
    | Forwarded target \<Rightarrow> (\<exists>p. payload = Some p \<and> on_this_machine (DestHost p) \<and>
        target = JoinHostPort (DestHost p) (itoa (uint (DestPort p))) \<and> dial target)) \<and>
   (handleDirectTCPIP dial (Some (p\<lparr>DestHost := show_ipv4 [a, b, c, d]\<rparr>)) = Prohibited \<longleftrightarrow> a \<noteq> 127)"
proof -
  have port: "digits (unat n) = itoa (uint n)" for n :: u32
    using uint_ge_0 [of n] by (simp add: itoa_def not_less del: uint_ge_0)
  have "handleDirectTCPIP dial (Some (p\<lparr>DestHost := show_ipv4 [a, b, c, d]\<rparr>)) = Prohibited \<longleftrightarrow> a \<noteq> 127"
    by (simp add: handleDirectTCPIP_def isLoopbackHost_iff on_this_machine_ipv4 Let_def)
  then show ?thesis
    by (cases payload) (simp_all add: handleDirectTCPIP_def isLoopbackHost_iff Let_def port)
qed

section \<open>What a client sends is what is decoded\<close>

text \<open>The encodings of RFC 4254: a 32-bit number, a string with its length in front.\<close>

definition ssh_string :: "string \<Rightarrow> byte list" where
  "ssh_string s = put_be32 (of_nat (length s)) @ bytes_of_string s"

lemma parseUint32_cons: "parseUint32 (a # b # c # d # r) = Some (get_be32 a b c d, r)"
  by (simp add: parseUint32_def get_be32_def)

interpretation uint32_codec: delimited_codec put_be32 parseUint32 "\<lambda>_. True"
proof unfold_locales
  show "parseUint32 (put_be32 n @ rest) = Some (n, rest)" for n rest
    by (simp add: put_be32_def parseUint32_cons)
qed (simp add: parseUint32_def)

lemma parse_ssh_string:
  assumes "length s + length rest < 2 ^ 32"
  shows "parseString (ssh_string s @ rest) = Some (s, rest)"
proof -
  have u: "parseUint32 (ssh_string s @ rest) = Some (of_nat (length s), bytes_of_string s @ rest)"
    using uint32_codec.dec_enc by (simp add: ssh_string_def)
  have "unat (of_nat (length s) :: u32) = length s" "unat (of_nat (length s + length rest) :: u32) = length s + length rest"
    using assms by (simp_all only: unat_of_nat) (simp_all add: take_bit_nat_eq_self)
  then show ?thesis
    unfolding parseString_def u by (simp add: word_less_nat_alt)
qed

lemma parsePTYRequest_roundtrip:
  assumes "length t + length rest < 2 ^ 32 - 8"
  shows "parsePTYRequest (ssh_string t @ put_be32 cols @ put_be32 rows @ rest) = Some \<lparr>term_name = t, pty_cols = cols, pty_rows = rows\<rparr>"
proof -
  have "parseString (ssh_string t @ put_be32 cols @ put_be32 rows @ rest) = Some (t, put_be32 cols @ put_be32 rows @ rest)"
    using assms by (intro parse_ssh_string) simp
  then show ?thesis
    by (simp add: parsePTYRequest_def uint32_codec.dec_enc)
qed

lemma parseWindowChange_roundtrip: "parseWindowChange (put_be32 cols @ put_be32 rows @ rest) = Some (cols, rows)"
  by (simp add: parseWindowChange_def uint32_codec.dec_enc)

lemma parseExecRequest_roundtrip: "length cmd < 2 ^ 32 \<Longrightarrow> parseExecRequest (ssh_string cmd) = Some cmd"
  using parse_ssh_string [of cmd "[]"] by (simp add: parseExecRequest_def)

section \<open>Any history of starts\<close>

definition host_boot where
  "host_boot dataDir e file = (case e of (seed, w, nodeID, nodeSecret) \<Rightarrow> NewServer seed w nodeID nodeSecret dataDir file)"

definition host_sane where
  "host_sane dataDir e \<longleftrightarrow> dataDir \<noteq> '''' \<and> (case e of (seed, w, nodeID, nodeSecret) \<Rightarrow> (\<forall>s. seed = Some s \<longrightarrow> length s = 32))"

interpretation host_key: made_once "host_boot dataDir" hostKey "host_sane dataDir"
proof (unfold_locales, goal_cases)
  case (1 e e' f f' v)
  obtain seed w i k seed' w' i' k' where e: "e = (seed, w, i, k)" "e' = (seed', w', i', k')"
    by (metis prod.exhaust)
  have "dataDir \<noteq> ''''" "\<And>s. seed = Some s \<Longrightarrow> length s = 32" "NewServer seed w i k dataDir f = (f', Inr v)"
    using 1 by (auto simp: e host_boot_def host_sane_def)
  from host_key_is_stable [OF this, of seed' w' i' k'] show ?case
    by (simp add: e host_boot_def)
qed

end
