(* ===== verification/ShellEnv.thy ===== *)
theory ShellEnv
  imports Prelude
begin

text \<open>
  \<^verbatim>\<open>internal/tunnel/sshserver.go\<close>, the environment of the user's programs: which shell is started,
  where, and with which variables. The agent's own environment is \<^verbatim>\<open>os.Environ()\<close>, a list of
  entries \<^verbatim>\<open>KEY=value\<close>; the account and the files that exist are inputs.
\<close>

section \<open>The environment of the agent\<close>

text \<open>\<open>account\<close> is \<^verbatim>\<open>user.Current()\<close>: the name and the home directory.\<close>

record shell_host =
  environ :: "string list"
  account :: "(string \<times> string) option"
  stat_ok :: "string \<Rightarrow> bool"

definition env_lookup :: "string \<Rightarrow> string list \<Rightarrow> string option" where
  "env_lookup k es = map_option (drop (length k + 1)) (find (\<lambda>kv. HasPrefix kv (k @ ''='')) es)"

definition Getenv :: "shell_host \<Rightarrow> string \<Rightarrow> string" where
  "Getenv h k = (case env_lookup k (environ h) of None \<Rightarrow> '''' | Some v \<Rightarrow> v)"

section \<open>The environment of a program\<close>

definition loginShell :: "shell_host \<Rightarrow> string" where
  "loginShell h =
     (if Getenv h ''SHELL'' \<noteq> '''' \<and> stat_ok h (Getenv h ''SHELL'') then Getenv h ''SHELL''
      else (case find (stat_ok h) [''/bin/bash'', ''/bin/sh''] of Some sh \<Rightarrow> sh | None \<Rightarrow> ''/bin/sh''))"

definition homeDir :: "shell_host \<Rightarrow> string" where
  "homeDir h =
     (if Getenv h ''HOME'' \<noteq> '''' then Getenv h ''HOME''
      else (case account h of
              Some (_, dir) \<Rightarrow> if dir \<noteq> '''' then dir else ''/root''
            | None \<Rightarrow> ''/root''))"

definition isSensitiveEnv :: "string \<Rightarrow> bool" where
  "isSensitiveEnv kv = list_ex (\<lambda>k. HasPrefix kv k) [''NODE_API_KEY='', ''OTUN_ENROLL_TOKEN='', ''NODE_SECRET='']"

definition shell_user :: "shell_host \<Rightarrow> string" where
  "shell_user h =
     (if Getenv h ''USER'' = '''' then (case account h of Some (name, _) \<Rightarrow> name | None \<Rightarrow> ''root'')
      else Getenv h ''USER'')"

definition shell_path :: "shell_host \<Rightarrow> string" where
  "shell_path h =
     (if Getenv h ''PATH'' = '''' then ''/usr/local/sbin:/usr/local/bin:/usr/sbin:/usr/bin:/sbin:/bin'' else Getenv h ''PATH'')"

text \<open>The entries that are replaced.\<close>

definition replaced_entry :: "string \<Rightarrow> bool" where
  "replaced_entry kv \<longleftrightarrow>
     HasPrefix kv ''TERM='' \<or> HasPrefix kv ''HOME='' \<or> HasPrefix kv ''USER='' \<or> HasPrefix kv ''LOGNAME='' \<or>
     HasPrefix kv ''SHELL='' \<or> HasPrefix kv ''PATH=''"

definition shellEnv :: "shell_host \<Rightarrow> string \<Rightarrow> string list" where
  "shellEnv h terminal =
     filter (\<lambda>kv. \<not> isSensitiveEnv kv \<and> \<not> replaced_entry kv) (environ h) @
     [''TERM='' @ terminal, ''HOME='' @ homeDir h, ''USER='' @ shell_user h, ''LOGNAME='' @ shell_user h,
      ''SHELL='' @ loginShell h, ''PATH='' @ shell_path h]"

section \<open>What a program finds in its environment\<close>

text \<open>An entry has one key.\<close>

lemma HasPrefix_append_ex: "HasPrefix s p \<Longrightarrow> \<exists>r. s = p @ r"
  unfolding HasPrefix_def by (metis append_take_drop_id)

lemma HasPrefix_key:
  assumes "CHR ''='' \<notin> set k" "HasPrefix kv (k @ ''='')"
  shows "takeWhile (\<lambda>c. c \<noteq> CHR ''='') kv = k"
proof -
  obtain r where "kv = k @ CHR ''='' # r"
    using HasPrefix_append_ex [OF assms(2)] by auto
  then show ?thesis
    using assms(1) by (auto simp: takeWhile_append)
qed

lemma HasPrefix_keys:
  "CHR ''='' \<notin> set k \<Longrightarrow> CHR ''='' \<notin> set k' \<Longrightarrow> HasPrefix kv (k @ ''='') \<Longrightarrow> HasPrefix kv (k' @ ''='') \<longleftrightarrow> k' = k"
  using HasPrefix_key [of k kv] HasPrefix_key [of k' kv] by auto

lemma HasPrefix_entry: "CHR ''='' \<notin> set k \<Longrightarrow> CHR ''='' \<notin> set k' \<Longrightarrow> HasPrefix (k' @ CHR ''='' # v) (k @ ''='') \<longleftrightarrow> k' = k"
  using HasPrefix_keys [of k' k "k' @ CHR ''='' # v"] HasPrefix_append [of "k' @ ''=''" v] by auto

lemma env_lookup_entry:
  "CHR ''='' \<notin> set k \<Longrightarrow> CHR ''='' \<notin> set k' \<Longrightarrow>
     env_lookup k ((k' @ CHR ''='' # v) # es) = (if k = k' then Some v else env_lookup k es)"
  by (auto simp: env_lookup_def HasPrefix_entry)

lemma find_filter:
  "(\<And>x. P x \<Longrightarrow> Q x) \<Longrightarrow> find P (filter Q xs) = find P xs"
  "(\<And>x. P x \<Longrightarrow> \<not> Q x) \<Longrightarrow> find P (filter Q xs) = None"
  by (induction xs) auto

definition secret_keys :: "string list" where
  "secret_keys = [''NODE_API_KEY'', ''OTUN_ENROLL_TOKEN'', ''NODE_SECRET'']"

definition replaced_keys :: "string list" where
  "replaced_keys = [''TERM'', ''HOME'', ''USER'', ''LOGNAME'', ''SHELL'', ''PATH'']"

lemma entry_classes:
  "isSensitiveEnv kv \<longleftrightarrow> (\<exists>k \<in> set secret_keys. HasPrefix kv (k @ ''=''))"
  "replaced_entry kv \<longleftrightarrow> (\<exists>k \<in> set replaced_keys. HasPrefix kv (k @ ''=''))"
  by (simp_all add: isSensitiveEnv_def secret_keys_def replaced_entry_def replaced_keys_def)

lemma keys_plain: "k \<in> set (secret_keys @ replaced_keys) \<Longrightarrow> CHR ''='' \<notin> set k"
proof -
  have "list_all (\<lambda>k. CHR ''='' \<notin> set k) (secret_keys @ replaced_keys)"
    by (simp add: secret_keys_def replaced_keys_def)
  then show "k \<in> set (secret_keys @ replaced_keys) \<Longrightarrow> CHR ''='' \<notin> set k"
    unfolding list_all_iff by (rule bspec)
qed

lemma entry_classes_key:
  assumes "CHR ''='' \<notin> set k" "HasPrefix kv (k @ ''='')"
  shows "isSensitiveEnv kv \<longleftrightarrow> k \<in> set secret_keys" "replaced_entry kv \<longleftrightarrow> k \<in> set replaced_keys"
  using HasPrefix_keys [OF assms(1) _ assms(2)] keys_plain assms(2) unfolding entry_classes by auto

lemma lookup_kept:
  assumes "CHR ''='' \<notin> set k"
  shows "env_lookup k (filter (\<lambda>kv. \<not> isSensitiveEnv kv \<and> \<not> replaced_entry kv) es) =
    (if k \<in> set secret_keys \<union> set replaced_keys then None else env_lookup k es)"
proof (cases "k \<in> set secret_keys \<union> set replaced_keys")
  case True
  then have "find (\<lambda>kv. HasPrefix kv (k @ ''='')) (filter (\<lambda>kv. \<not> isSensitiveEnv kv \<and> \<not> replaced_entry kv) es) = None"
    by (intro find_filter(2)) (use entry_classes_key [OF assms] in auto)
  then show ?thesis
    using True by (simp add: env_lookup_def)
next
  case False
  then have "find (\<lambda>kv. HasPrefix kv (k @ ''='')) (filter (\<lambda>kv. \<not> isSensitiveEnv kv \<and> \<not> replaced_entry kv) es) =
      find (\<lambda>kv. HasPrefix kv (k @ ''='')) es"
    by (intro find_filter(1)) (use entry_classes_key [OF assms] in auto)
  then show ?thesis
    using False by (simp add: env_lookup_def)
qed

lemma env_lookup_append: "env_lookup k (es @ fs) = (case env_lookup k es of None \<Rightarrow> env_lookup k fs | Some v \<Rightarrow> Some v)"
  by (simp add: env_lookup_def find_append split: option.split)

text \<open>The variables a login shell expects, with their values.\<close>

definition login_vars :: "shell_host \<Rightarrow> string \<Rightarrow> (string \<times> string) list" where
  "login_vars h terminal =
     [(''TERM'', terminal), (''HOME'', homeDir h), (''USER'', shell_user h), (''LOGNAME'', shell_user h),
      (''SHELL'', loginShell h), (''PATH'', shell_path h)]"

lemma login_vars_keys: "map fst (login_vars h terminal) = replaced_keys"
  by (simp add: login_vars_def replaced_keys_def)

lemma shellEnv_login_vars:
  "shellEnv h terminal = filter (\<lambda>kv. \<not> isSensitiveEnv kv \<and> \<not> replaced_entry kv) (environ h) @
     map (\<lambda>(k, v). k @ CHR ''='' # v) (login_vars h terminal)"
  by (simp add: shellEnv_def login_vars_def)

lemma env_lookup_entries:
  "CHR ''='' \<notin> set k \<Longrightarrow> \<forall>k' \<in> set (map fst vs). CHR ''='' \<notin> set k' \<Longrightarrow>
     env_lookup k (map (\<lambda>(k, v). k @ CHR ''='' # v) vs) = map_of vs k"
proof (induction vs)
  case (Cons v vs)
  then show ?case
    by (cases v) (simp add: env_lookup_entry)
qed (simp add: env_lookup_def)

lemma login_entries_once:
  assumes "k \<in> set replaced_keys"
  shows "length (filter (\<lambda>kv. HasPrefix kv (k @ ''='')) (map (\<lambda>(k, v). k @ CHR ''='' # v) (login_vars h terminal))) = 1"
proof -
  have plain: "CHR ''='' \<notin> set k'" if "k' \<in> set replaced_keys" for k'
    using keys_plain that by simp
  have "filter (\<lambda>kv. HasPrefix kv (k @ ''='')) (map (\<lambda>(k, v). k @ CHR ''='' # v) vs) =
      map (\<lambda>(k, v). k @ CHR ''='' # v) (filter (\<lambda>p. fst p = k) vs)" if "fst ` set vs \<subseteq> set replaced_keys" for vs
    using that
  proof (induction vs)
    case (Cons v vs)
    then show ?case
      using HasPrefix_entry [OF plain [OF assms] plain] by (cases v) auto
  qed simp
  moreover have "fst ` set (login_vars h terminal) = set replaced_keys"
    by (metis login_vars_keys set_map)
  moreover have "length (filter (\<lambda>p. fst p = k) (login_vars h terminal)) = length (filter (\<lambda>k'. k' = k) replaced_keys)"
    unfolding login_vars_keys [of h terminal, symmetric] by (simp add: filter_map comp_def)
  moreover have "length (filter (\<lambda>k'. k' = k) replaced_keys) = 1"
    using assms by (auto simp: replaced_keys_def)
  ultimately show ?thesis
    by simp
qed

lemma login_entries_harmless:
  "kv \<in> set (map (\<lambda>(k, v). k @ CHR ''='' # v) (login_vars h terminal)) \<Longrightarrow> \<not> isSensitiveEnv kv"
  by (auto simp: login_vars_def isSensitiveEnv_def HasPrefix_def)

lemma shellEnv_harmless: "\<not> list_ex isSensitiveEnv (shellEnv h terminal)"
  using login_entries_harmless by (auto simp: shellEnv_login_vars list_ex_iff)

text \<open>
  C31. A program started over SSH finds exactly this in its environment: the six variables of a
  login shell with the values the agent determined (the terminal type of the client first), none
  of the agent's credentials, and every other variable as the agent has it. Nothing is stated
  twice: each of the six variables has one entry.
\<close>

theorem terminal_environment:
  assumes "CHR ''='' \<notin> set k"
  shows "env_lookup k (shellEnv h terminal) =
      (if k \<in> set replaced_keys then map_of (login_vars h terminal) k
       else if k \<in> set secret_keys then None
       else env_lookup k (environ h)) \<and>
    (k \<in> set replaced_keys \<longrightarrow> length (filter (\<lambda>kv. HasPrefix kv (k @ ''='')) (shellEnv h terminal)) = 1) \<and>
    \<not> list_ex isSensitiveEnv (shellEnv h terminal)"
proof -
  have "map_of (login_vars h terminal) k = None \<longleftrightarrow> k \<notin> set replaced_keys"
    by (metis login_vars_keys map_of_eq_None_iff set_map)
  moreover have "env_lookup k (map (\<lambda>(k, v). k @ CHR ''='' # v) (login_vars h terminal)) = map_of (login_vars h terminal) k"
    using keys_plain by (intro env_lookup_entries) (auto simp only: assms login_vars_keys set_append)
  ultimately have lookup: "env_lookup k (shellEnv h terminal) =
      (if k \<in> set replaced_keys then map_of (login_vars h terminal) k
       else if k \<in> set secret_keys then None
       else env_lookup k (environ h))"
    by (auto simp: shellEnv_login_vars env_lookup_append lookup_kept [OF assms] split: option.split)
  let ?kept = "filter (\<lambda>kv. \<not> isSensitiveEnv kv \<and> \<not> replaced_entry kv) (environ h)"
  have "length (filter (\<lambda>kv. HasPrefix kv (k @ ''='')) (shellEnv h terminal)) = 1" if k: "k \<in> set replaced_keys"
  proof -
    have "filter (\<lambda>kv. HasPrefix kv (k @ ''='')) ?kept = []"
      using entry_classes_key(2) [OF assms] k by (auto simp: filter_empty_conv)
    then show ?thesis
      using login_entries_once [OF k] by (simp add: shellEnv_login_vars)
  qed
  then show ?thesis
    using lookup shellEnv_harmless by blast
qed

lemma terminal_environment_witness:
  "env_lookup ''NODE_SECRET'' (shellEnv \<lparr>environ = [''LANG=C'', ''NODE_SECRET=s3cret''], account = None, stat_ok = (\<lambda>_. False)\<rparr> ''vt100'') = None \<and>
   env_lookup ''HOME'' (shellEnv \<lparr>environ = [''LANG=C'', ''NODE_SECRET=s3cret''], account = None, stat_ok = (\<lambda>_. False)\<rparr> ''vt100'') = Some ''/root''"
proof -
  let ?h = "\<lparr>environ = [''LANG=C'', ''NODE_SECRET=s3cret''], account = None, stat_ok = (\<lambda>_. False)\<rparr>"
  have "homeDir ?h = ''/root''"
    by (simp add: homeDir_def Getenv_def env_lookup_def HasPrefix_def)
  then show ?thesis
    using terminal_environment [of "''NODE_SECRET''" ?h "''vt100''"] terminal_environment [of "''HOME''" ?h "''vt100''"]
    by (simp add: replaced_keys_def secret_keys_def login_vars_def)
qed

end
