(* ===== verification/SshSession.thy ===== *)
theory SshSession
  imports SshServer ShellEnv
begin

text \<open>
  \<^verbatim>\<open>internal/tunnel/sshserver.go\<close>, one session channel: the loop over the client's requests
  (\<^verbatim>\<open>handleSession\<close>), the start of a shell or of a command, and the goroutine \<^verbatim>\<open>pipe\<close> that ends
  the session. The loop, the goroutine and the program interleave; their steps are the relation
  \<open>session_step\<close>. The bytes that are copied between the channel and the program are left out, but
  not the moment when the copying of its output ends.
\<close>

section \<open>Exit codes\<close>

text \<open>What \<^verbatim>\<open>cmd.Wait()\<close> returns: nil, an \<^verbatim>\<open>exec.ExitError\<close> with its code, another error.\<close>

datatype wait_result = WaitOk | WaitExit int | WaitFails

definition wait_code :: "wait_result \<Rightarrow> int" where
  "wait_code w = (case w of WaitOk \<Rightarrow> 0 | WaitExit code \<Rightarrow> code | WaitFails \<Rightarrow> 1)"

text \<open>
  How a program ends: by itself, or killed after two seconds, with what is waited for within two
  seconds more.
\<close>

datatype outcome = Waited wait_result | Killed "wait_result option"

definition outcome_code :: "outcome \<Rightarrow> int" where
  "outcome_code e =
     (case e of
        Waited w \<Rightarrow> wait_code w
      | Killed (Some w) \<Rightarrow> wait_code w
      | Killed None \<Rightarrow> 1)"

definition sendExitStatus :: "int \<Rightarrow> byte list" where
  "sendExitStatus code =
     [word_of_int (drop_bit 24 code), word_of_int (drop_bit 16 code), word_of_int (drop_bit 8 code), word_of_int code]"

section \<open>The state of a session\<close>

text \<open>
  A window size is \<open>None\<close> until it is set. A program has a terminal (\<open>term_size\<close> is \<open>Some\<close> of the
  size it starts with) or none.
\<close>

type_synonym winsize = "(16 word \<times> 16 word) option"

record program =
  argv :: "string list"
  prog_env :: "string list"
  prog_dir :: string
  term_size :: "winsize option"

text \<open>
  \<open>prog_exit\<close> is how the program has exited, \<open>output_over\<close> whether the copying of its output to the
  channel has ended (the terminal or the pipes are closed, or the channel takes no more).
\<close>

text \<open>The loop is reading requests, inside \<^verbatim>\<open>runExec\<close>, waiting for \<open>piped\<close>, or has returned.\<close>

datatype phase = Looping | Executing | AwaitPipe | Returned

datatype pipe = NoPipe | Piping | PtyClosed | PipeDone

record session =
  ptyReq :: "ptyRequest option"
  ptyFile :: "winsize option"
  started :: bool
  programs :: "program list"
  replies :: "bool list"
  exit_sent :: "byte list list"
  ch_open :: bool
  phase :: phase
  pipe :: pipe
  prog_exit :: "wait_result option"
  output_over :: bool

definition new_session :: session where
  "new_session = \<lparr>ptyReq = None, ptyFile = None, started = False, programs = [], replies = [], exit_sent = [],
     ch_open = True, phase = Looping, pipe = NoPipe, prog_exit = None, output_over = False\<rparr>"

definition Reply :: "bool \<Rightarrow> session \<Rightarrow> session" where
  "Reply ok s = s\<lparr>replies := replies s @ [ok]\<rparr>"

text \<open>A status that is sent on a closed channel is lost.\<close>

definition exit_status :: "int \<Rightarrow> session \<Rightarrow> session" where
  "exit_status code s = (if ch_open s then s\<lparr>exit_sent := exit_sent s @ [sendExitStatus code]\<rparr> else s)"

text \<open>The deferred actions of \<^verbatim>\<open>handleSession\<close>: the terminal and the channel are closed.\<close>

definition return_session :: "session \<Rightarrow> session" where
  "return_session s = s\<lparr>phase := Returned, ch_open := False, ptyFile := None\<rparr>"

section \<open>Requests\<close>

definition pty_winsize :: "ptyRequest option \<Rightarrow> winsize" where
  "pty_winsize p = map_option (\<lambda>p. setWinsize (pty_cols p) (pty_rows p)) p"

definition startShell :: "shell_host \<Rightarrow> ptyRequest option \<Rightarrow> program" where
  "startShell h p = \<lparr>argv = [loginShell h, ''-l''], prog_env = shellEnv h (termOrDefault p), prog_dir = homeDir h,
     term_size = Some (pty_winsize p)\<rparr>"

definition exec_program :: "shell_host \<Rightarrow> string \<Rightarrow> ptyRequest option \<Rightarrow> program" where
  "exec_program h cmd p = \<lparr>argv = [''/bin/sh'', ''-c'', cmd], prog_env = shellEnv h (termOrDefault p), prog_dir = homeDir h,
     term_size = (case p of None \<Rightarrow> None | Some _ \<Rightarrow> Some (pty_winsize p))\<rparr>"

text \<open>\<open>can_start\<close>: the program, with its pipes or its terminal, starts.\<close>

definition runExec :: "shell_host \<Rightarrow> bool \<Rightarrow> string \<Rightarrow> session \<Rightarrow> session" where
  "runExec h can_start cmd s =
     (if can_start then s\<lparr>programs := programs s @ [exec_program h cmd (ptyReq s)], phase := Executing\<rparr>
      else return_session (exit_status 1 s))"

definition request_pty :: "byte list \<Rightarrow> session \<Rightarrow> session" where
  "request_pty payload s =
     (case parsePTYRequest payload of
        None \<Rightarrow> Reply False s
      | Some p \<Rightarrow> Reply True (s\<lparr>ptyReq := Some p\<rparr>))"

definition request_window :: "byte list \<Rightarrow> session \<Rightarrow> session" where
  "request_window payload s =
     (case parseWindowChange payload of
        None \<Rightarrow> s
      | Some (cols, rows) \<Rightarrow>
          if ptyFile s \<noteq> None then s\<lparr>ptyFile := Some (Some (setWinsize cols rows))\<rparr>
          else (case ptyReq s of
                  None \<Rightarrow> s
                | Some p \<Rightarrow> s\<lparr>ptyReq := Some (p\<lparr>pty_cols := cols, pty_rows := rows\<rparr>)\<rparr>))"

definition request_shell :: "shell_host \<Rightarrow> bool \<Rightarrow> session \<Rightarrow> session" where
  "request_shell h can_start s =
     (if started s then Reply False s
      else
        (let s = s\<lparr>started := True\<rparr> in
         if \<not> can_start then return_session (Reply False s)
         else Reply True (s\<lparr>programs := programs s @ [startShell h (ptyReq s)],
                ptyFile := Some (pty_winsize (ptyReq s)), pipe := Piping\<rparr>)))"

definition request_exec :: "shell_host \<Rightarrow> bool \<Rightarrow> byte list \<Rightarrow> session \<Rightarrow> session" where
  "request_exec h can_start payload s =
     (if started s then Reply False s
      else
        (let s = s\<lparr>started := True\<rparr> in
         case parseExecRequest payload of
           None \<Rightarrow> return_session (Reply False s)
         | Some cmd \<Rightarrow> runExec h can_start cmd (Reply True s)))"

definition handle_request :: "shell_host \<Rightarrow> bool \<Rightarrow> string \<Rightarrow> byte list \<Rightarrow> session \<Rightarrow> session" where
  "handle_request h can_start typ payload s =
     (if typ = ''pty-req'' then request_pty payload s
      else if typ = ''window-change'' then request_window payload s
      else if typ = ''shell'' then request_shell h can_start s
      else if typ = ''exec'' then request_exec h can_start payload s
      else if typ = ''env'' then Reply True s
      else Reply False s)"

section \<open>The steps of a session\<close>

datatype session_label =
    LRequest string "byte list" bool
  | LRequestsEnd
  | LProgramExits wait_result
  | LOutputEnds
  | LPtyClosed
  | LPipeEnds outcome
  | LPipeAwaited
  | LExecEnds outcome

text \<open>The end of the requests: the loop waits for \<open>piped\<close> while the shell's terminal is open.\<close>

definition requests_over :: "session \<Rightarrow> session" where
  "requests_over s = (if ptyFile s \<noteq> None then s\<lparr>phase := AwaitPipe\<rparr> else return_session s)"

text \<open>
  What \<^verbatim>\<open>pipe\<close> waits for before it closes the terminal: the program's exit or the end of its output.
  A command without a terminal is over when \<^verbatim>\<open>cmd.Wait()\<close> returns, which waits for its exit and for
  the end of its output.
\<close>

definition on_terminal :: "session \<Rightarrow> bool" where
  "on_terminal s \<longleftrightarrow> programs s \<noteq> [] \<and> term_size (last (programs s)) \<noteq> None"

definition program_over :: "session \<Rightarrow> bool" where
  "program_over s \<longleftrightarrow>
     (if on_terminal s then prog_exit s \<noteq> None \<or> output_over s else prog_exit s \<noteq> None \<and> output_over s)"

text \<open>
  How it ends: on a terminal a program that has not exited two seconds after the terminal was
  closed is killed; without a terminal \<^verbatim>\<open>cmd.Wait()\<close> reports a failure of the copying when the
  program itself did not fail.
\<close>

definition outcome_ok :: "session \<Rightarrow> outcome \<Rightarrow> bool" where
  "outcome_ok s e =
     (case e of
        Waited w \<Rightarrow> prog_exit s = Some w \<or> (\<not> on_terminal s \<and> prog_exit s = Some WaitOk \<and> w = WaitFails)
      | Killed r \<Rightarrow> on_terminal s \<and> prog_exit s = None)"

text \<open>
  A request; the end of the requests, after which the loop waits for a running shell; the exit of
  the program and the end of its output; the two halves of the end of \<^verbatim>\<open>pipe\<close> (it closes the
  terminal under the lock, then sends the exit code and closes the channel); and the end of
  \<^verbatim>\<open>runExec\<close>.
\<close>

inductive session_step :: "shell_host \<Rightarrow> session \<Rightarrow> session_label \<Rightarrow> session \<Rightarrow> bool" for h where
  request: "phase s = Looping \<Longrightarrow>
    session_step h s (LRequest typ payload can_start) (handle_request h can_start typ payload s)"
| requests_end: "phase s = Looping \<Longrightarrow>
    session_step h s LRequestsEnd (requests_over s)"
| program_exits: "programs s \<noteq> [] \<Longrightarrow> prog_exit s = None \<Longrightarrow>
    session_step h s (LProgramExits w) (s\<lparr>prog_exit := Some w\<rparr>)"
| output_ends: "programs s \<noteq> [] \<Longrightarrow> session_step h s LOutputEnds (s\<lparr>output_over := True\<rparr>)"
| pty_closed: "pipe s = Piping \<Longrightarrow> program_over s \<Longrightarrow>
    session_step h s LPtyClosed (s\<lparr>ptyFile := None, pipe := PtyClosed\<rparr>)"
| pipe_ends: "pipe s = PtyClosed \<Longrightarrow> outcome_ok s e \<Longrightarrow>
    session_step h s (LPipeEnds e) ((exit_status (outcome_code e) s)\<lparr>ch_open := False, pipe := PipeDone\<rparr>)"
| pipe_awaited: "phase s = AwaitPipe \<Longrightarrow> pipe s = PipeDone \<Longrightarrow> session_step h s LPipeAwaited (return_session s)"
| exec_ends: "phase s = Executing \<Longrightarrow> program_over s \<Longrightarrow> outcome_ok s e \<Longrightarrow>
    session_step h s (LExecEnds e) (return_session (exit_status (outcome_code e) s))"

inductive session_run :: "shell_host \<Rightarrow> session \<Rightarrow> session_label list \<Rightarrow> session \<Rightarrow> bool" for h where
  run_Nil: "session_run h s [] s"
| run_Cons: "session_step h s l s' \<Longrightarrow> session_run h s' ls s'' \<Longrightarrow> session_run h s (l # ls) s''"

inductive_cases session_stepE: "session_step h s l s'"

text \<open>Runs compose.\<close>

lemma session_run_append:
  "session_run h s ls s' \<Longrightarrow> session_run h s' ls' s'' \<Longrightarrow> session_run h s (ls @ ls') s''"
  by (induction rule: session_run.induct) (auto intro: run_Cons)

section \<open>The invariant of a session\<close>

text \<open>What one program has: it is one of the two commands, in an environment made for it.\<close>

definition program_ok :: "shell_host \<Rightarrow> program \<Rightarrow> bool" where
  "program_ok h p \<longleftrightarrow> (\<exists>req. p = startShell h req \<or> (\<exists>cmd. p = exec_program h cmd req))"

text \<open>
  Before a program is started, nothing has happened; a shell has its pipe, a command none; the
  terminal is open exactly while the pipe copies, and no status is sent before the end.
\<close>

definition pipe_ok :: "session \<Rightarrow> bool" where
  "pipe_ok s =
     (case pipe s of
        NoPipe \<Rightarrow> \<not> started s \<and> programs s = [] \<and> exit_sent s = [] \<and> ch_open s
      | PipeDone \<Rightarrow> started s \<and> length (programs s) = 1 \<and> length (exit_sent s) = 1 \<and> \<not> ch_open s
      | _ \<Rightarrow> started s \<and> length (programs s) = 1 \<and> exit_sent s = [] \<and> ch_open s)"

definition phase_ok :: "session \<Rightarrow> bool" where
  "phase_ok s =
     (case phase s of
        Looping \<Rightarrow> pipe_ok s
      | AwaitPipe \<Rightarrow> pipe s \<noteq> NoPipe \<and> pipe_ok s
      | Executing \<Rightarrow> pipe s = NoPipe \<and> started s \<and> length (programs s) = 1 \<and> exit_sent s = [] \<and> ch_open s
      | Returned \<Rightarrow> \<not> ch_open s \<and> length (programs s) \<le> 1 \<and> length (exit_sent s) \<le> 1)"

text \<open>The terminal is closed and the session has returned only after the program was over.\<close>

definition over_ok :: "session \<Rightarrow> bool" where
  "over_ok s \<longleftrightarrow>
     (programs s = [] \<longrightarrow> prog_exit s = None \<and> \<not> output_over s) \<and>
     (pipe s \<noteq> NoPipe \<longrightarrow> on_terminal s) \<and>
     (pipe s = PtyClosed \<or> pipe s = PipeDone \<or> (phase s = Returned \<and> programs s \<noteq> []) \<longrightarrow> program_over s)"

definition session_inv :: "shell_host \<Rightarrow> session \<Rightarrow> bool" where
  "session_inv h s \<longleftrightarrow> phase_ok s \<and> over_ok s \<and> list_all (program_ok h) (programs s) \<and>
     (ptyFile s \<noteq> None \<longleftrightarrow> pipe s = Piping)"

lemmas session_defs = on_terminal_def program_over_def over_ok_def requests_over_def session_inv_def phase_ok_def pipe_ok_def Reply_def exit_status_def return_session_def

lemma session_inv_new: "session_inv h new_session"
  by (simp add: session_defs new_session_def)

lemma startShell_terminal: "term_size (startShell h p) \<noteq> None"
  by (simp add: startShell_def)

lemma session_inv_request:
  assumes "session_inv h s" "phase s = Looping"
  shows "session_inv h (request_pty payload s)" "session_inv h (request_window payload s)"
    "session_inv h (request_shell h can_start s)" "session_inv h (request_exec h can_start payload s)"
    "session_inv h (Reply ok s)"
  using assms startShell_terminal
  by (auto simp: request_pty_def request_window_def request_shell_def request_exec_def runExec_def session_defs program_ok_def Let_def
      split: option.split pipe.splits)

lemma session_inv_step: "session_step h s l s' \<Longrightarrow> session_inv h s \<Longrightarrow> session_inv h s'"
proof (induction rule: session_step.cases)
  case (request s t payload can_start)
  then show ?case
    using session_inv_request [of h s] by (simp add: handle_request_def)
next
  case (exec_ends s e)
  then show ?case
    by (auto simp: session_defs split: pipe.splits)
qed (auto simp: session_defs split: pipe.splits phase.splits)

lemma session_inv_run: "session_run h s ls s' \<Longrightarrow> session_inv h s \<Longrightarrow> session_inv h s'"
  by (induction rule: session_run.induct) (auto intro: session_inv_step)

lemma program_ok_env: "program_ok h p \<Longrightarrow> \<exists>terminal. prog_env p = shellEnv h terminal"
  by (auto simp: program_ok_def startShell_def exec_program_def)

lemma session_run_single: "session_step h s l s' \<Longrightarrow> session_run h s [l] s'"
  by (rule run_Cons [OF _ run_Nil])

section \<open>The end of a session\<close>

text \<open>The steps the agent takes by itself, and how many of them are left.\<close>

definition own_step :: "session_label \<Rightarrow> bool" where
  "own_step l = (case l of LPtyClosed \<Rightarrow> True | LPipeEnds e \<Rightarrow> True | LPipeAwaited \<Rightarrow> True | LExecEnds e \<Rightarrow> True | _ \<Rightarrow> False)"

definition own_steps_left :: "session \<Rightarrow> nat" where
  "own_steps_left s = (if phase s = Returned then 0 else 1) + (case pipe s of Piping \<Rightarrow> 2 | PtyClosed \<Rightarrow> 1 | _ \<Rightarrow> 0)"

text \<open>The agent has nothing to do before somebody else acts: the client, or the program.\<close>

definition waits :: "shell_host \<Rightarrow> session \<Rightarrow> bool" where
  "waits h s \<longleftrightarrow> (\<nexists>l s'. own_step l \<and> session_step h s l s')"

lemma started_request:
  assumes "session_inv h s" "phase s = Looping" "programs s \<noteq> []"
  shows "let s' = handle_request h can_start typ payload s
    in phase s' = phase s \<and> pipe s' = pipe s \<and> programs s' = programs s \<and> prog_exit s' = prog_exit s \<and> output_over s' = output_over s"
proof -
  have "started s"
    using assms by (auto simp: session_inv_def phase_ok_def pipe_ok_def split: pipe.splits)
  then show ?thesis
    by (simp add: handle_request_def request_pty_def request_window_def request_shell_def request_exec_def Reply_def Let_def
        split: option.split)
qed

lemma own_steps_step:
  assumes "session_step h s l s'" "session_inv h s" "programs s \<noteq> []" "program_over s"
  shows "own_steps_left s' + (if own_step l then 1 else 0) \<le> own_steps_left s \<and> programs s' \<noteq> [] \<and> program_over s'"
  using assms
proof (induction rule: session_step.cases)
  case (request s t payload can_start)
  then show ?case
    using started_request [of h s can_start t payload]
    by (auto simp: own_step_def own_steps_left_def program_over_def on_terminal_def Let_def split: if_splits)
qed (auto simp: own_step_def own_steps_left_def program_over_def on_terminal_def requests_over_def return_session_def exit_status_def
    split: pipe.split)

lemma own_steps_run:
  "session_run h s ls s' \<Longrightarrow> session_inv h s \<Longrightarrow> programs s \<noteq> [] \<Longrightarrow> program_over s \<Longrightarrow>
     length (filter own_step ls) + own_steps_left s' \<le> own_steps_left s \<and> programs s' \<noteq> [] \<and> program_over s'"
proof (induction rule: session_run.induct)
  case (run_Cons s l s' ls s'')
  have "own_steps_left s' + (if own_step l then 1 else 0) \<le> own_steps_left s \<and> programs s' \<noteq> [] \<and> program_over s'"
    using own_steps_step run_Cons.hyps(1) run_Cons.prems by blast
  then show ?case
    using run_Cons.IH session_inv_step [OF run_Cons.hyps(1) run_Cons.prems(1)] by auto
qed simp

lemma own_step_simps [simp]:
  "own_step LPtyClosed" "own_step (LPipeEnds e)" "own_step LPipeAwaited" "own_step (LExecEnds e)"
  by (simp_all add: own_step_def)

lemma outcome_exists:
  assumes "program_over s"
  obtains e where "outcome_ok s e"
proof (cases "prog_exit s")
  case None
  then have "outcome_ok s (Killed None)"
    using assms by (auto simp: program_over_def outcome_ok_def split: if_splits)
  then show ?thesis ..
next
  case (Some w)
  then have "outcome_ok s (Waited w)"
    by (simp add: outcome_ok_def)
  then show ?thesis ..
qed

text \<open>While the program runs the agent waits; when it is over the agent does not wait before the end.\<close>

lemma running_waits:
  assumes "session_inv h s" "programs s \<noteq> []" "\<not> program_over s"
  shows "waits h s" "ch_open s" "phase s \<noteq> Returned"
  using assms
  by (auto simp: waits_def own_step_def session_inv_def over_ok_def phase_ok_def pipe_ok_def
      elim!: session_stepE split: phase.splits pipe.splits)

lemma over_proceeds:
  assumes "session_inv h s" "programs s \<noteq> []" "program_over s" "waits h s"
  shows "\<not> ch_open s \<and> (phase s = Looping \<or> phase s = Returned)"
proof -
  obtain e where e: "outcome_ok s e"
    using outcome_exists [OF assms(3)] .
  have no: "own_step l \<Longrightarrow> \<not> session_step h s l s'" for l s'
    using assms(4) by (auto simp: waits_def)
  have "phase s \<noteq> Executing"
    using exec_ends [OF _ assms(3) e, of h] no by fastforce
  moreover have "pipe s \<noteq> Piping"
    using pty_closed [OF _ assms(3), of h] no by fastforce
  moreover have "pipe s \<noteq> PtyClosed"
    using pipe_ends [OF _ e, of h] no by fastforce
  moreover have "\<not> (phase s = AwaitPipe \<and> pipe s = PipeDone)"
    using pipe_awaited [of s h] no by fastforce
  ultimately show ?thesis
    using assms(1,2) by (auto simp: session_inv_def phase_ok_def pipe_ok_def split: phase.splits pipe.splits)
qed

text \<open>
  C38. A session lasts as long as its program. Once the program is over (on a terminal it has exited
  or its output has ended, so a terminal that reports no end of file does no harm; without a
  terminal, both) the agent needs nothing from the client: whatever else happens, it takes at most
  three further steps of its own, and when it has none left to take the channel is closed and the
  handler has returned or only waits for the client to close its side. While the
  program is not over the channel stays open and the handler does not return: the agent waits, also
  when the client has gone.
\<close>

theorem session_ends_with_its_program:
  assumes "session_run h new_session ls s" "programs s \<noteq> []"
  shows "if (if on_terminal s then prog_exit s \<noteq> None \<or> output_over s else prog_exit s \<noteq> None \<and> output_over s)
    then \<forall>ls' s'. session_run h s ls' s' \<longrightarrow> length (filter own_step ls') \<le> 3 \<and>
      (waits h s' \<longrightarrow> \<not> ch_open s' \<and> (phase s' = Looping \<or> phase s' = Returned))
    else waits h s \<and> ch_open s \<and> phase s \<noteq> Returned"
proof -
  have inv: "session_inv h s"
    using session_inv_run [OF assms(1) session_inv_new] .
  have "length (filter own_step ls') \<le> 3 \<and> (waits h s' \<longrightarrow> \<not> ch_open s' \<and> (phase s' = Looping \<or> phase s' = Returned))"
    if "program_over s" "session_run h s ls' s'" for ls' s'
  proof -
    have "own_steps_left s \<le> 3"
      by (simp add: own_steps_left_def split: pipe.split)
    then show ?thesis
      using own_steps_run [OF that(2) inv assms(2) that(1)] over_proceeds [of h s'] session_inv_run [OF that(2) inv] by auto
  qed
  then show ?thesis
    using running_waits [OF inv assms(2)] unfolding program_over_def [symmetric] by auto
qed

definition sample_host :: shell_host where
  "sample_host = \<lparr>environ = [''LANG=C'', ''NODE_SECRET=s3cret''], account = None, stat_ok = (\<lambda>_. True)\<rparr>"

lemma handle_shell: "handle_request h can_start ''shell'' payload s = request_shell h can_start s"
  by (simp add: handle_request_def)

lemma sample_session:
  "session_run sample_host new_session [LRequest ''shell'' [] True] (request_shell sample_host True new_session)"
  using session_run_single [OF request [of new_session sample_host "''shell''" "[]" True]]
  by (simp add: new_session_def handle_shell)

text \<open>Both cases: the shell of this session runs, and then it exits.\<close>

lemma session_ends_with_its_program_witness:
  "let s = request_shell sample_host True new_session; s' = s\<lparr>prog_exit := Some WaitOk\<rparr>
   in waits sample_host s \<and> ch_open s \<and>
     (\<forall>ls' s''. session_run sample_host s' ls' s'' \<longrightarrow> length (filter own_step ls') \<le> 3 \<and> (waits sample_host s'' \<longrightarrow> \<not> ch_open s''))"
proof -
  let ?s = "request_shell sample_host True new_session"
  have p: "programs ?s \<noteq> []" "prog_exit ?s = None" "\<not> program_over ?s"
    by (simp_all add: request_shell_def new_session_def Reply_def program_over_def)
  have run: "session_run sample_host new_session [LRequest ''shell'' [] True, LProgramExits WaitOk] (?s\<lparr>prog_exit := Some WaitOk\<rparr>)"
    using session_run_append [OF sample_session session_run_single [OF program_exits [OF p(1,2)]]] by simp
  have "program_over (?s\<lparr>prog_exit := Some WaitOk\<rparr>)"
    by (simp add: request_shell_def new_session_def Reply_def program_over_def on_terminal_def startShell_def)
  then show ?thesis
    using session_ends_with_its_program [OF sample_session p(1)] p(3) session_ends_with_its_program [OF run] p(1)
    unfolding program_over_def [symmetric] by (simp add: Let_def)
qed

text \<open>
  The client leaves while its shell sits at the prompt: the handler waits for \<open>piped\<close>, and only the
  shell itself, by exiting or by writing to the closed channel, can end that. The goroutines and
  the shell remain.
\<close>

lemma idle_shell_outlives_its_client:
  "\<exists>s. session_run h new_session [LRequest ''shell'' payload True, LRequestsEnd] s \<and> phase s = AwaitPipe \<and>
     (\<forall>l s'. session_step h s l s' \<longrightarrow> l = LOutputEnds \<or> (\<exists>w. l = LProgramExits w))"
proof -
  let ?s = "request_shell h True new_session"
  have "session_run h new_session [LRequest ''shell'' payload True] ?s"
    using session_run_single [OF request [of new_session h "''shell''" payload True]] by (simp add: new_session_def handle_shell)
  moreover have "session_step h ?s LRequestsEnd (?s\<lparr>phase := AwaitPipe\<rparr>)"
    using requests_end [of ?s h] by (simp add: requests_over_def request_shell_def new_session_def Reply_def)
  ultimately have run: "session_run h new_session [LRequest ''shell'' payload True, LRequestsEnd] (?s\<lparr>phase := AwaitPipe\<rparr>)"
    using session_run_append [OF _ session_run_single] by fastforce
  have "l = LOutputEnds \<or> (\<exists>w. l = LProgramExits w)" if "session_step h (?s\<lparr>phase := AwaitPipe\<rparr>) l s'" for l s'
    using that
    by (auto elim!: session_stepE
        simp: request_shell_def new_session_def Reply_def program_over_def on_terminal_def startShell_def)
  with run show ?thesis
    by (intro exI [of _ "?s\<lparr>phase := AwaitPipe\<rparr>"]) simp
qed

section \<open>One program, one exit status\<close>

lemma sendExitStatus_be32: "sendExitStatus code = put_be32 (word_of_int code)"
proof -
  have "(word_of_int (drop_bit n code) :: byte) = ucast (drop_bit n (word_of_int code :: u32))" if "n \<le> 24" for n
    by (rule bit_word_eqI) (use that in \<open>simp add: bit_simps\<close>)
  from this [of 24] this [of 16] this [of 8] this [of 0] show ?thesis
    by (simp add: sendExitStatus_def put_be32_def)
qed

lemma exit_status_sent:
  assumes "session_inv h s" "ch_open s" "session_step h s l s'" "l \<in> {LPipeEnds e, LExecEnds e}"
  shows "exit_sent s' = [sendExitStatus (outcome_code e)]" "\<not> ch_open s'"
  using assms(3,4,1,2)
  by (auto elim!: session_stepE simp: session_defs split: pipe.splits phase.splits)

text \<open>
  C21. A channel runs at most one program, in an environment without the agent's credentials, and
  reports at most one exit status, after which it is closed. When the program ends while the
  channel is open, what is sent decodes to the program's exit code (as an unsigned 32-bit number),
  and to 1 when there is none.
\<close>

theorem session_serves_one_program:
  assumes "session_run h new_session ls s"
  shows "length (programs s) \<le> 1 \<and> list_all (\<lambda>p. \<not> list_ex isSensitiveEnv (prog_env p)) (programs s) \<and>
    length (exit_sent s) \<le> 1 \<and>
    (\<forall>l e s'. ch_open s \<and> session_step h s l s' \<and> l \<in> {LPipeEnds e, LExecEnds e} \<longrightarrow>
      \<not> ch_open s' \<and> map parseUint32 (exit_sent s') = [Some (word_of_int (outcome_code e), [])])"
proof -
  have inv: "session_inv h s"
    using session_inv_run [OF assms session_inv_new] .
  then have "list_all (program_ok h) (programs s)" "length (programs s) \<le> 1 \<and> length (exit_sent s) \<le> 1"
    by (auto simp: session_inv_def phase_ok_def pipe_ok_def split: phase.splits pipe.splits)
  moreover from this(1) have "list_all (\<lambda>p. \<not> list_ex isSensitiveEnv (prog_env p)) (programs s)"
    using program_ok_env shellEnv_harmless unfolding list_all_iff by metis
  ultimately show ?thesis
    using exit_status_sent [OF inv] by (auto simp: sendExitStatus_be32 uint32_codec.dec_enc_only)
qed

lemma session_serves_one_program_witness:
  "list_all (\<lambda>p. \<not> list_ex isSensitiveEnv (prog_env p)) (programs (request_shell sample_host True new_session)) \<and>
   programs (request_shell sample_host True new_session) \<noteq> []"
  using session_serves_one_program [OF sample_session] by (simp add: request_shell_def new_session_def Reply_def)

section \<open>The window of the shell\<close>

text \<open>What a client sends, in the encoding of RFC 4254; \<open>rest\<close> is what the agent does not read.\<close>

definition send_pty :: "string \<Rightarrow> u32 \<Rightarrow> u32 \<Rightarrow> byte list \<Rightarrow> string \<times> byte list" where
  "send_pty terminal cols rows rest = (''pty-req'', ssh_string terminal @ put_be32 cols @ put_be32 rows @ rest)"

definition send_resize :: "u32 \<times> u32 \<Rightarrow> string \<times> byte list" where
  "send_resize z = (''window-change'', put_be32 (fst z) @ put_be32 (snd z) @ put_be32 0 @ put_be32 0)"

definition requests :: "shell_host \<Rightarrow> (string \<times> byte list) list \<Rightarrow> session \<Rightarrow> session" where
  "requests h rs s = fold (\<lambda>(t, payload). handle_request h True t payload) rs s"

lemma requests_simps:
  "requests h [] s = s" "requests h ((t, payload) # rs) s = requests h rs (handle_request h True t payload s)"
  "requests h (rs @ rs') s = requests h rs' (requests h rs s)"
  by (simp_all add: requests_def)

lemma handle_resize:
  "handle_request h True (fst (send_resize z)) (snd (send_resize z)) s =
     (if ptyFile s \<noteq> None then s\<lparr>ptyFile := Some (Some (setWinsize (fst z) (snd z)))\<rparr>
      else (case ptyReq s of None \<Rightarrow> s | Some p \<Rightarrow> s\<lparr>ptyReq := Some (p\<lparr>pty_cols := fst z, pty_rows := snd z\<rparr>)\<rparr>))"
  by (cases z) (simp add: send_resize_def handle_request_def request_window_def parseWindowChange_roundtrip split: option.split)

lemma resizes_before:
  "ptyFile s = None \<Longrightarrow> ptyReq s = Some p \<Longrightarrow>
     requests h (map send_resize zs) s =
       s\<lparr>ptyReq := Some (p\<lparr>pty_cols := fst (last ((pty_cols p, pty_rows p) # zs)), pty_rows := snd (last ((pty_cols p, pty_rows p) # zs))\<rparr>)\<rparr>"
proof (induction zs arbitrary: s p)
  case Nil
  then show ?case
    by (cases s, cases p) (simp add: requests_simps)
next
  case (Cons z zs)
  obtain t b where z: "send_resize z = (t, b)"
    by fastforce
  then have "handle_request h True t b s = s\<lparr>ptyReq := Some (p\<lparr>pty_cols := fst z, pty_rows := snd z\<rparr>)\<rparr>"
    using handle_resize [of h z s] Cons.prems by simp
  then show ?case
    using Cons by (cases zs) (simp_all add: requests_simps z)
qed

lemma resizes_after:
  "ptyFile s = Some w \<Longrightarrow>
     requests h (map send_resize zs) s =
       s\<lparr>ptyFile := Some (if zs = [] then w else Some (setWinsize (fst (last zs)) (snd (last zs))))\<rparr>"
proof (induction zs arbitrary: s w)
  case Nil
  then show ?case
    by (cases s) (simp add: requests_simps)
next
  case (Cons z zs)
  obtain t b where z: "send_resize z = (t, b)"
    by fastforce
  then have "handle_request h True t b s = s\<lparr>ptyFile := Some (Some (setWinsize (fst z) (snd z)))\<rparr>"
    using handle_resize [of h z s] Cons.prems by simp
  then show ?case
    using Cons by (cases zs) (simp_all add: requests_simps z)
qed

text \<open>
  The shell's window is the client's: when a client asks for a terminal, then for a shell, and
  sends changes of the window's size before and after, the shell runs with the client's terminal
  type, and the size of its window is the last one the client sent (each coordinate modulo
  \<open>2 ^ 16\<close>), whether that was before the shell started or after.
\<close>

theorem window_follows_client:
  assumes "length terminal + length rest < 2 ^ 32 - 8"
  shows "let s = requests h (send_pty terminal cols rows rest # map send_resize before @ (''shell'', payload) # map send_resize after) new_session;
      z = last ((cols, rows) # before @ after)
    in ptyFile s = Some (Some (ucast (fst z), ucast (snd z))) \<and> replies s = [True, True] \<and> phase s = Looping \<and>
      map (\<lambda>p. (argv p, prog_env p)) (programs s) =
        [([loginShell h, ''-l''], shellEnv h (if terminal = '''' then ''xterm-256color'' else terminal))]"
proof -
  let ?p = "\<lparr>term_name = terminal, pty_cols = cols, pty_rows = rows\<rparr>"
  let ?z = "last ((cols, rows) # before)"
  define s1 where "s1 = requests h [send_pty terminal cols rows rest] new_session"
  have s1: "s1 = Reply True (new_session\<lparr>ptyReq := Some ?p\<rparr>)"
    using parsePTYRequest_roundtrip [OF assms, of cols rows]
    by (simp add: s1_def send_pty_def requests_simps handle_request_def request_pty_def)
  define p2 where "p2 = ?p\<lparr>pty_cols := fst ?z, pty_rows := snd ?z\<rparr>"
  define s2 where "s2 = requests h (map send_resize before) s1"
  have s2: "s2 = s1\<lparr>ptyReq := Some p2\<rparr>"
    using resizes_before [of s1 ?p h before] by (simp add: s2_def p2_def s1 Reply_def new_session_def)
  define s3 where "s3 = handle_request h True ''shell'' payload s2"
  have s3: "s3 = Reply True (s2\<lparr>started := True, programs := [startShell h (Some p2)],
      ptyFile := Some (Some (ucast (fst ?z), ucast (snd ?z))), pipe := Piping\<rparr>)"
    by (simp add: s3_def handle_shell request_shell_def s2 s1 Reply_def new_session_def p2_def pty_winsize_def setWinsize_def)
  have "requests h (send_pty terminal cols rows rest # map send_resize before @ (''shell'', payload) # map send_resize after) new_session =
      requests h (map send_resize after) s3"
  proof -
    have "send_pty terminal cols rows rest # map send_resize before @ (''shell'', payload) # map send_resize after =
        [send_pty terminal cols rows rest] @ map send_resize before @ [(''shell'', payload)] @ map send_resize after"
      by simp
    then show ?thesis
      by (simp only: requests_simps s1_def s2_def s3_def)
  qed
  moreover have "requests h (map send_resize after) s3 =
      s3\<lparr>ptyFile := Some (if after = [] then Some (ucast (fst ?z), ucast (snd ?z)) else Some (setWinsize (fst (last after)) (snd (last after))))\<rparr>"
    by (rule resizes_after) (simp add: s3 Reply_def)
  moreover have "last ((cols, rows) # before @ after) = (if after = [] then ?z else last after)"
    by simp
  ultimately have eq: "requests h (send_pty terminal cols rows rest # map send_resize before @ (''shell'', payload) # map send_resize after) new_session =
      s3\<lparr>ptyFile := Some (Some (ucast (fst (last ((cols, rows) # before @ after))), ucast (snd (last ((cols, rows) # before @ after)))))\<rparr>"
    by (simp only: setWinsize_def split: if_split) simp
  have "termOrDefault (Some p2) = (if terminal = '''' then ''xterm-256color'' else terminal)"
    by (simp add: termOrDefault_def p2_def)
  then show ?thesis
    unfolding eq Let_def by (simp add: s3 s2 s1 Reply_def new_session_def startShell_def)
qed

lemma window_follows_client_witness:
  "ptyFile (requests sample_host [send_pty ''vt100'' 80 24 [], send_resize (132, 43), (''shell'', []), send_resize (65616, 24)] new_session) =
     Some (Some (80, 24))"
  using window_follows_client [of "''vt100''" "[]" sample_host 80 24 "[(132, 43)]" "[]" "[(65616, 24)]"] by (simp add: Let_def)

end
