(* ===== verification/WsConn.thy ===== *)
theory WsConn
  imports Prelude
begin

text \<open>
  \<^verbatim>\<open>internal/tunnel/wsconn.go\<close>: a WebSocket as a stream of bytes. The frames that arrive and how the
  reader of a frame cuts it into pieces are inputs: a reader keeps the contract of \<^verbatim>\<open>io.Reader\<close>, it
  yields a prefix of what is left of its frame and reports the end with the last bytes or after
  them.
\<close>

section \<open>Reading\<close>

text \<open>\<open>reader\<close> is what is left of the current frame, \<open>frames\<close> are the frames to come.\<close>

record ws_conn =
  reader :: "byte list option"
  frames :: "byte list list"

text \<open>
  How one call of the frame's reader ends: \<open>Eager\<close> reports the end of the frame with its last
  bytes, \<open>Lazy\<close> after them, and \<open>Broken\<close> is an error other than \<^verbatim>\<open>io.EOF\<close> (the connection broke in
  the middle of the frame), with the bytes read so far. The call gives at most \<open>k\<close> bytes.
\<close>

datatype read_style = Eager | Lazy | Broken

datatype read_status = ReadOk | ReadEOF | ReadBroken

definition frame_read :: "nat \<times> read_style \<Rightarrow> nat \<Rightarrow> byte list \<Rightarrow> byte list \<times> byte list \<times> read_status" where
  "frame_read choice len left =
     (let (k, style) = choice; n = min k len
      in (take n left, drop n left,
          if style = Broken then ReadBroken
          else if drop n left = [] \<and> (style = Eager \<or> left = []) then ReadEOF
          else ReadOk))"

text \<open>
  \<^verbatim>\<open>Read\<close> into a buffer of length \<open>len\<close>: the bytes and the error, that of \<^verbatim>\<open>NextReader\<close> when no
  frame comes any more or that of the frame's reader. The choices are those of the successive
  calls of a frame's reader.
\<close>

datatype ws_error = NextReaderFailed | ReaderFailed

function ws_Read ::
    "(nat \<Rightarrow> nat \<times> read_style) \<Rightarrow> nat \<Rightarrow> ws_conn \<Rightarrow> ws_conn \<times> byte list \<times> ws_error option" where
  "ws_Read choice len c =
     (case reader c of
        None \<Rightarrow>
          (case frames c of
             [] \<Rightarrow> (c, [], Some NextReaderFailed)
           | r # rs \<Rightarrow> ws_Read choice len (c\<lparr>reader := Some r, frames := rs\<rparr>))
      | Some left \<Rightarrow>
          (let (bs, left', status) = frame_read (choice 0) len left in
           if status = ReadEOF then
             (if 0 < length bs then (c\<lparr>reader := None\<rparr>, bs, None)
              else ws_Read (\<lambda>i. choice (Suc i)) len (c\<lparr>reader := None\<rparr>))
           else (c\<lparr>reader := Some left'\<rparr>, bs, if status = ReadBroken then Some ReaderFailed else None)))"
  by auto
termination
  by (relation "measure (\<lambda>(choice, len, c). 2 * length (frames c) + (case reader c of None \<Rightarrow> 0 | Some _ \<Rightarrow> 1))") auto

declare ws_Read.simps [simp del]

text \<open>\<^verbatim>\<open>Write\<close>: one frame; \<open>ok\<close> is whether \<^verbatim>\<open>WriteMessage\<close> succeeds.\<close>

definition ws_Write :: "bool \<Rightarrow> byte list \<Rightarrow> byte list list \<Rightarrow> byte list list \<times> int option" where
  "ws_Write ok p sent = (if \<not> ok then (sent, None) else (sent @ [p], Some (int (length p))))"

section \<open>The stream of bytes\<close>

text \<open>The abstraction: what is still to be read, whatever the frames are.\<close>

definition stream_of :: "ws_conn \<Rightarrow> byte list" where
  "stream_of c = (case reader c of None \<Rightarrow> [] | Some left \<Rightarrow> left) @ concat (frames c)"

text \<open>
  A reader that makes progress: it yields at least one byte when it has one and there is room,
  and does not break.
\<close>

definition progresses :: "(nat \<Rightarrow> nat \<times> read_style) \<Rightarrow> bool" where
  "progresses choice \<longleftrightarrow> (\<forall>i. 0 < fst (choice i) \<and> snd (choice i) \<noteq> Broken)"

lemma progresses_Suc: "progresses choice \<Longrightarrow> progresses (\<lambda>i. choice (Suc i))"
  by (simp add: progresses_def)

lemma frame_read_spec:
  assumes "frame_read choice len left = (bs, left', status)"
  shows "left = bs @ left'" "length bs \<le> len" "status = ReadEOF \<Longrightarrow> left' = []" "status = ReadOk \<Longrightarrow> left \<noteq> []"
    "0 < fst choice \<Longrightarrow> 0 < len \<Longrightarrow> bs = [] \<Longrightarrow> left = []" "status = ReadBroken \<longleftrightarrow> snd choice = Broken"
  using assms by (auto simp: frame_read_def Let_def split_beta split: if_splits)

text \<open>One call: what it returns, with an error or without, is the next part of the stream.\<close>

definition read_spec :: "(nat \<Rightarrow> nat \<times> read_style) \<Rightarrow> nat \<Rightarrow> byte list \<Rightarrow> byte list \<Rightarrow> byte list \<Rightarrow> ws_error option \<Rightarrow> bool" where
  "read_spec choice len before after bs err \<longleftrightarrow>
     before = bs @ after \<and> length bs \<le> len \<and>
     (err = Some NextReaderFailed \<longrightarrow> before = []) \<and>
     (progresses choice \<and> 0 < len \<longrightarrow> (err = None \<and> bs \<noteq> []) \<or> err = Some NextReaderFailed)"

lemma ws_Read_stream:
  "ws_Read choice len c = (c', bs, err) \<Longrightarrow> read_spec choice len (stream_of c) (stream_of c') bs err"
proof (induction choice len c arbitrary: c' bs err rule: ws_Read.induct)
  case (1 choice len c)
  show ?case
  proof (cases "reader c")
    case None
    note rd = None
    show ?thesis
    proof (cases "frames c")
      case Nil
      then show ?thesis
        using 1(3) rd by (subst (asm) ws_Read.simps) (auto simp: stream_of_def read_spec_def)
    next
      case (Cons f fs)
      have "ws_Read choice len (c\<lparr>reader := Some f, frames := fs\<rparr>) = (c', bs, err)"
        using 1(3) rd Cons by (subst (asm) ws_Read.simps) simp
      from 1(1) [OF rd Cons this] show ?thesis
        using rd Cons by (simp add: stream_of_def)
    qed
  next
    case (Some left)
    obtain b left' status where f: "frame_read (choice 0) len left = (b, left', status)"
      by (cases "frame_read (choice 0) len left")
    note fr = frame_read_spec [OF f]
    have ok: "progresses choice \<and> 0 < len \<Longrightarrow> status \<noteq> ReadBroken \<and> (b = [] \<longrightarrow> left = [])"
      using fr(5,6) by (auto simp: progresses_def)
    show ?thesis
    proof (cases "status = ReadEOF \<and> b = []")
      case last: True
      then have again: "ws_Read (\<lambda>i. choice (Suc i)) len (c\<lparr>reader := None\<rparr>) = (c', bs, err)"
        using 1(3) Some f by (subst (asm) ws_Read.simps) simp
      from 1(2) [OF Some f [symmetric] refl refl _ _ again] last
      have "read_spec (\<lambda>i. choice (Suc i)) len (stream_of (c\<lparr>reader := None\<rparr>)) (stream_of c') bs err"
        by simp
      moreover have "stream_of (c\<lparr>reader := None\<rparr>) = stream_of c"
        using last fr(1,3) Some by (simp add: stream_of_def)
      ultimately show ?thesis
        by (auto simp: read_spec_def progresses_Suc)
    next
      case False
      have "(c', bs, err) = (if status = ReadEOF then (c\<lparr>reader := None\<rparr>, b, None)
          else (c\<lparr>reader := Some left'\<rparr>, b, if status = ReadBroken then Some ReaderFailed else None))"
        using False Some f by (simp add: 1(3) [symmetric] ws_Read.simps [of choice len c])
      then show ?thesis
        using fr Some ok False by (cases status; cases "len = 0") (auto simp: read_spec_def stream_of_def)
    qed
  qed
qed

text \<open>
  Successive calls with buffers of given lengths, up to the first error. What comes with an
  error counts, as the callers of an \<^verbatim>\<open>io.Reader\<close> treat it.
\<close>

fun read_all :: "((nat \<Rightarrow> nat \<times> read_style) \<times> nat) list \<Rightarrow> ws_conn \<Rightarrow> ws_conn \<times> byte list" where
  "read_all [] c = (c, [])"
| "read_all ((choice, len) # calls) c =
     (case ws_Read choice len c of
        (c, bs, Some err) \<Rightarrow> (c, bs)
      | (c, bs, None) \<Rightarrow> (case read_all calls c of (c, rest) \<Rightarrow> (c, bs @ rest)))"

text \<open>
  C39. A connection over a WebSocket is a stream: whatever frames the bytes arrive in, empty ones
  included, however the frames' readers cut them into pieces, and whatever buffers the caller
  reads into, the bytes it gets are those that were sent, in order; what has not been returned is
  still there, also when the connection breaks in the middle of a frame. Every call returns, and with \<open>n\<close> calls that make progress it has got at least \<open>n\<close> bytes
  or all of them.
\<close>

theorem websocket_is_a_stream:
  assumes "read_all calls \<lparr>reader = None, frames = fs\<rparr> = (c, bs)"
  shows "concat fs = bs @ stream_of c \<and>
    (list_all (\<lambda>(choice, len). progresses choice \<and> 0 < len) calls \<longrightarrow> length calls \<le> length bs \<or> bs = concat fs)"
proof -
  have "stream_of c0 = bs @ stream_of c \<and>
    (list_all (\<lambda>(choice, len). progresses choice \<and> 0 < len) calls \<longrightarrow> length calls \<le> length bs \<or> bs = stream_of c0)"
    if "read_all calls c0 = (c, bs)" for c0 calls bs
    using that
  proof (induction calls arbitrary: c0 bs)
    case (Cons call calls)
    obtain choice len where call: "call = (choice, len)"
      by (cases call)
    obtain c1 b err where r: "ws_Read choice len c0 = (c1, b, err)"
      by (cases "ws_Read choice len c0")
    note step = ws_Read_stream [OF r, unfolded read_spec_def]
    show ?case
    proof (cases err)
      case (Some e)
      then have "c = c1" "bs = b"
        using Cons.prems by (simp_all add: call r)
      then show ?thesis
        using step Some by (auto simp: call)
    next
      case None
      obtain rest where rest: "read_all calls c1 = (c, rest)" "bs = b @ rest"
        using Cons.prems by (auto simp: call r None split: prod.splits)
      have "b \<noteq> [] \<Longrightarrow> Suc 0 \<le> length b"
        by (cases b) simp_all
      then show ?thesis
        using Cons.IH [OF rest(1)] step rest(2) None by (auto simp: call)
    qed
  qed simp
  moreover have "stream_of \<lparr>reader = None, frames = fs\<rparr> = concat fs"
    by (simp add: stream_of_def)
  ultimately show ?thesis
    using assms by metis
qed

lemma websocket_is_a_stream_witness:
  "snd (read_all [(\<lambda>_. (2, Eager), 8), (\<lambda>_. (9, Lazy), 2), (\<lambda>_. (9, Lazy), 2)] \<lparr>reader = None, frames = [[1, 2], [], [3, 4, 5]]\<rparr>) = [1, 2, 3, 4, 5]"
proof -
  let ?calls = "[(\<lambda>_::nat. (2::nat, Eager), 8::nat), (\<lambda>_. (9, Lazy), 2), (\<lambda>_. (9, Lazy), 2)]"
  obtain c bs where r: "read_all ?calls \<lparr>reader = None, frames = [[1, 2], [], [3, 4, 5]]\<rparr> = (c, bs)"
    by fastforce
  then have "length bs = 5"
    by (simp add: ws_Read.simps frame_read_def Let_def) auto
  moreover have "bs = take (length bs) (bs @ stream_of c)"
    by simp
  ultimately have "bs = take 5 (concat [[1, 2], [], [3, 4, 5]])"
    using websocket_is_a_stream [OF r] by metis
  then show ?thesis
    unfolding r by simp
qed

end
