(* ===== verification/SysInfo.thy ===== *)
theory SysInfo
  imports Strconv Complex_Main
begin

text \<open>
  \<^verbatim>\<open>internal/stats/sysinfo.go\<close>: the load that heartbeats report. Floating-point numbers are rational
  numbers here, so results are exact where the code rounds. The contents of \<^verbatim>\<open>/proc\<close> are inputs,
  \<^verbatim>\<open>/proc/meminfo\<close> as the lines of the scanner.
\<close>

text \<open>\<^verbatim>\<open>strconv.ParseFloat\<close> on plain decimal numbers, the only ones the kernel writes.\<close>

definition parse_decimal :: "string \<Rightarrow> rat option" where
  "parse_decimal s =
     (let ip = takeWhile (\<lambda>c. c \<noteq> CHR ''.'') s; fp = drop 1 (dropWhile (\<lambda>c. c \<noteq> CHR ''.'') s)
      in if list_all is_digit (ip @ fp) \<and> ip @ fp \<noteq> [] then Some (of_nat (dec_value ip) + of_nat (dec_value fp) / 10 ^ length fp)
         else None)"

record SystemLoad =
  CPUPercent :: rat
  MemoryPercent :: rat

definition getCPUUsage :: "nat \<Rightarrow> string option \<Rightarrow> rat" where
  "getCPUUsage numCPU loadavg =
     (case loadavg of
        None \<Rightarrow> 0
      | Some data \<Rightarrow>
          (let fields = Fields data in
           if length fields < 1 then 0
           else
             (case parse_decimal (fields ! 0) of
                None \<Rightarrow> 0
              | Some load1 \<Rightarrow>
                  (let percent = load1 / of_nat numCPU * 100 in if 100 < percent then 100 else percent))))"

definition mem_line :: "string \<Rightarrow> int \<times> int \<Rightarrow> int \<times> int" where
  "mem_line line m =
     (let (memTotal, memAvailable) = m; fields = Fields line in
      if length fields < 2 then m
      else
        (case Atoi (fields ! 1) of
           None \<Rightarrow> m
         | Some value \<Rightarrow>
             if fields ! 0 = ''MemTotal:'' then (value, memAvailable)
             else if fields ! 0 = ''MemAvailable:'' then (memTotal, value)
             else m))"

definition getMemoryUsage :: "string list option \<Rightarrow> rat" where
  "getMemoryUsage meminfo =
     (case meminfo of
        None \<Rightarrow> 0
      | Some lines \<Rightarrow>
          (let (memTotal, memAvailable) = fold mem_line lines (0, 0) in
           if memTotal = 0 then 0
           else (let used = i64 (memTotal - memAvailable) in of_int used / of_int memTotal * 100)))"

definition GetSystemLoad :: "nat \<Rightarrow> string option \<Rightarrow> string list option \<Rightarrow> SystemLoad" where
  "GetSystemLoad numCPU loadavg meminfo = \<lparr>CPUPercent = getCPUUsage numCPU loadavg, MemoryPercent = getMemoryUsage meminfo\<rparr>"

section \<open>The load is a percentage\<close>

lemma parse_decimal_nonneg: "parse_decimal s = Some r \<Longrightarrow> 0 \<le> r"
  by (auto simp: parse_decimal_def Let_def split: if_splits)

lemma getCPUUsage_bounds: "0 \<le> getCPUUsage n data \<and> getCPUUsage n data \<le> 100"
  using parse_decimal_nonneg
  by (auto simp: getCPUUsage_def Let_def split: option.splits intro!: mult_nonneg_nonneg divide_nonneg_nonneg)

text \<open>A line says that the entry \<open>key\<close> has the value \<open>v\<close>.\<close>

definition entry :: "string \<Rightarrow> int \<Rightarrow> string \<Rightarrow> bool" where
  "entry key v line \<longleftrightarrow> (\<exists>unit. Fields line = key # itoa v # unit)"

definition about :: "string \<Rightarrow> string \<Rightarrow> bool" where
  "about key line \<longleftrightarrow> 0 < length (Fields line) \<and> Fields line ! 0 = key"

text \<open>The table states one value for the entry.\<close>

definition states :: "string list \<Rightarrow> string \<Rightarrow> int \<Rightarrow> bool" where
  "states lines key v \<longleftrightarrow> is_i64 v \<and> list_ex (entry key v) lines \<and> list_all (\<lambda>l. about key l \<longrightarrow> entry key v l) lines"

lemma states_about: "states lines key v \<Longrightarrow> list_ex (about key) lines"
  by (auto simp: states_def list_ex_iff about_def entry_def) force

lemma mem_line_total:
  "is_i64 v \<Longrightarrow> about ''MemTotal:'' l \<longrightarrow> entry ''MemTotal:'' v l \<Longrightarrow>
     fst (mem_line l m) = (if about ''MemTotal:'' l then v else fst m)"
  by (auto simp: mem_line_def entry_def about_def Atoi_itoa Let_def split: prod.split option.split)

lemma mem_line_available:
  "is_i64 v \<Longrightarrow> about ''MemAvailable:'' l \<longrightarrow> entry ''MemAvailable:'' v l \<Longrightarrow>
     snd (mem_line l m) = (if about ''MemAvailable:'' l then v else snd m)"
  by (auto simp: mem_line_def entry_def about_def Atoi_itoa Let_def split: prod.split option.split)

lemma fold_mem_line:
  assumes "is_i64 t" "is_i64 a" "list_all (\<lambda>l. about ''MemTotal:'' l \<longrightarrow> entry ''MemTotal:'' t l) ls"
    "list_all (\<lambda>l. about ''MemAvailable:'' l \<longrightarrow> entry ''MemAvailable:'' a l) ls"
  shows "fold mem_line ls m = (if list_ex (about ''MemTotal:'') ls then t else fst m,
    if list_ex (about ''MemAvailable:'') ls then a else snd m)"
  using assms(3,4)
proof (induction ls arbitrary: m)
  case (Cons l ls)
  then show ?case
    using mem_line_total [OF assms(1), of l m] mem_line_available [OF assms(2), of l m] by simp
qed simp

text \<open>
  What a heartbeat reports are percentages: the processor's between 0 and 100 whatever
  \<^verbatim>\<open>/proc/loadavg\<close> holds; the memory's the share of the total that is not available, wherever the
  two entries stand in \<^verbatim>\<open>/proc/meminfo\<close> and whatever other entries there are.
\<close>

theorem load_is_a_percentage:
  assumes "states lines ''MemTotal:'' t" "states lines ''MemAvailable:'' a" "0 \<le> a" "a \<le> t" "0 < t"
  shows "let load = GetSystemLoad n loadavg (Some lines) in
    MemoryPercent load = 100 * (1 - of_int a / of_int t) \<and>
    0 \<le> MemoryPercent load \<and> MemoryPercent load \<le> 100 \<and> 0 \<le> CPUPercent load \<and> CPUPercent load \<le> 100"
proof -
  have "list_ex (about ''MemTotal:'') lines" "list_ex (about ''MemAvailable:'') lines"
    using states_about assms(1,2) by blast+
  then have "fold mem_line lines (0, 0) = (t, a)"
    using fold_mem_line [of t a lines "(0, 0)"] assms(1,2) by (simp add: states_def)
  moreover have "is_i64 (t - a)"
    using assms by (auto simp: states_def is_i64_def)
  ultimately have "getMemoryUsage (Some lines) = of_int (t - a) / of_int t * 100"
    using assms(5) by (simp add: getMemoryUsage_def i64_id)
  also have "\<dots> = 100 * (1 - of_int a / of_int t)"
    using assms(5) by (simp add: field_simps)
  finally have "getMemoryUsage (Some lines) = 100 * (1 - of_int a / of_int t)" .
  moreover have "0 \<le> (of_int a :: rat) / of_int t" "(of_int a :: rat) / of_int t \<le> 1"
    using assms by simp_all
  ultimately show ?thesis
    using getCPUUsage_bounds by (simp add: GetSystemLoad_def Let_def)
qed

lemma sample_fields:
  "Fields ''MemTotal: 8 kB'' = [''MemTotal:'', ''8'', ''kB'']" "Fields ''MemAvailable: 2 kB'' = [''MemAvailable:'', ''2'', ''kB'']"
  using Fields_word(2) [of "''MemTotal:''" "''8 kB''"] Fields_word(2) [of "''MemAvailable:''" "''2 kB''"]
    Fields_word(2) [of "''8''" "''kB''"] Fields_word(2) [of "''2''" "''kB''"] Fields_word(1) [of "''kB''"]
  by (simp_all add: solid_def)

lemma load_is_a_percentage_witness:
  "MemoryPercent (GetSystemLoad 4 (Some ''0.50 0.40'') (Some [''MemAvailable: 2 kB'', ''MemTotal: 8 kB''])) = 75"
proof -
  let ?lines = "[''MemAvailable: 2 kB'', ''MemTotal: 8 kB'']"
  have "itoa 8 = ''8''" "itoa 2 = ''2''"
    by code_simp+
  then have "states ?lines ''MemTotal:'' 8" "states ?lines ''MemAvailable:'' 2"
    by (simp_all add: states_def entry_def about_def sample_fields is_i64_def)
  from load_is_a_percentage [OF this, of 4 "Some ''0.50 0.40''"] show ?thesis
    by (simp add: Let_def)
qed

end
