(* ===== verification/TrafficMeter.thy ===== *)
theory TrafficMeter
  imports Prelude
begin

text \<open>
  \<^verbatim>\<open>internal/stats/meter.go\<close>: the meter turns sing-box's cumulative per-user counters
  into increments, across restarts of sing-box that reset the counters to zero.

  The reading \<open>current\<close> is Go's \<^verbatim>\<open>map[string]*UserStats\<close>, whose values may be nil; the
  last argument of \<open>Deltas\<close> is the order in which the runtime visits it. The second half
  of the theory is the ground truth the meter is checked against: a ledger of the traffic
  that really flowed, with sing-box counters that restart with or without the agent's help.
\<close>

section \<open>The meter\<close>

record UserStats =
  Upload :: int
  Download :: int

record Meter =
  meter_last :: "string \<rightharpoonup> UserStats"

definition zero_stats :: UserStats where
  "zero_stats = \<lparr>Upload = 0, Download = 0\<rparr>"

definition NewMeter :: Meter where
  "NewMeter = \<lparr>meter_last = Map.empty\<rparr>"

definition delta :: "int \<Rightarrow> int \<Rightarrow> int" where
  "delta cur prev = (if cur < prev then cur else i64 (cur - prev))"

text \<open>A missing map entry reads as the zero struct.\<close>

definition last_of :: "Meter \<Rightarrow> string \<Rightarrow> UserStats" where
  "last_of m uuid = (case meter_last m uuid of None \<Rightarrow> zero_stats | Some p \<Rightarrow> p)"

definition stats_delta :: "UserStats \<Rightarrow> UserStats \<Rightarrow> UserStats" where
  "stats_delta cur prev =
     \<lparr>Upload = delta (Upload cur) (Upload prev),
      Download = delta (Download cur) (Download prev)\<rparr>"

text \<open>One iteration of the loop in \<^verbatim>\<open>Deltas\<close>.\<close>

fun deltas_visit ::
    "(string \<rightharpoonup> UserStats option) \<Rightarrow> string \<Rightarrow> Meter \<times> (string \<rightharpoonup> UserStats) \<Rightarrow>
      Meter \<times> (string \<rightharpoonup> UserStats)" where
  "deltas_visit current uuid (m, out) =
     (case current uuid of
        Some (Some cur) \<Rightarrow>
          (let d = stats_delta cur (last_of m uuid);
               m' = m\<lparr>meter_last := (meter_last m)(uuid \<mapsto> cur)\<rparr>
           in (m', if 0 < Upload d \<or> 0 < Download d then out(uuid \<mapsto> d) else out))
      | _ \<Rightarrow> (m, out))"

definition Deltas ::
    "Meter \<Rightarrow> (string \<rightharpoonup> UserStats option) \<Rightarrow> string list \<Rightarrow> Meter \<times> (string \<rightharpoonup> UserStats)" where
  "Deltas m current ks = fold (deltas_visit current) ks (m, Map.empty)"

definition Reset :: "Meter \<Rightarrow> Meter" where
  "Reset m = m\<lparr>meter_last := Map.empty\<rparr>"

section \<open>What one call computes\<close>

text \<open>The visiting order does not matter: both results are given entry by entry.\<close>

definition reported :: "Meter \<Rightarrow> (string \<rightharpoonup> UserStats option) \<Rightarrow> string \<Rightarrow> UserStats option" where
  "reported m current uuid =
     (case current uuid of
        Some (Some cur) \<Rightarrow>
          (let d = stats_delta cur (last_of m uuid)
           in if 0 < Upload d \<or> 0 < Download d then Some d else None)
      | _ \<Rightarrow> None)"

definition next_last :: "Meter \<Rightarrow> (string \<rightharpoonup> UserStats option) \<Rightarrow> string \<Rightarrow> UserStats option" where
  "next_last m current uuid =
     (case current uuid of Some (Some cur) \<Rightarrow> Some cur | _ \<Rightarrow> meter_last m uuid)"

lemma fold_deltas_visit:
  assumes "distinct ks"
  shows "fold (deltas_visit current) ks (m, out) =
           (m\<lparr>meter_last := (\<lambda>u. if u \<in> set ks then next_last m current u else meter_last m u)\<rparr>,
            \<lambda>u. if u \<in> set ks then (case reported m current u of None \<Rightarrow> out u | Some d \<Rightarrow> Some d)
                else out u)"
  using assms
proof (induction ks arbitrary: m out)
  case Nil
  then show ?case by simp
next
  case (Cons k ks)
  obtain m' out' where s: "deltas_visit current k (m, out) = (m', out')"
    by (cases "deltas_visit current k (m, out)")
  have last': "meter_last m' u = (if u = k then next_last m current k else meter_last m u)"
    and out': "out' u = (if u = k
      then (case reported m current k of None \<Rightarrow> out k | Some d \<Rightarrow> Some d) else out u)" for u
    using s by (auto simp: next_last_def reported_def Let_def split: option.splits if_splits)
  have m': "m' = m\<lparr>meter_last := meter_last m'\<rparr>"
    using s by (auto simp: Let_def split: option.splits)
  have keep: "next_last m' current u = next_last m current u"
    "reported m' current u = reported m current u" if "u \<in> set ks" for u
    using that Cons.prems last'
    by (auto simp: next_last_def reported_def last_of_def split: option.splits)
  have "fold (deltas_visit current) (k # ks) (m, out) =
      fold (deltas_visit current) ks (m', out')"
    using s by simp
  also have "\<dots> = (m'\<lparr>meter_last := (\<lambda>u. if u \<in> set ks then next_last m' current u
        else meter_last m' u)\<rparr>,
      \<lambda>u. if u \<in> set ks then (case reported m' current u of None \<Rightarrow> out' u | Some d \<Rightarrow> Some d)
          else out' u)"
    using Cons by (intro Cons.IH) simp
  finally show ?case
    using Cons.prems m' by (auto simp: fun_eq_iff last' out' keep split: option.splits)
qed

lemma Deltas_eq:
  assumes "range_order current ks"
  shows "Deltas m current ks = (m\<lparr>meter_last := next_last m current\<rparr>, reported m current)"
proof -
  have "next_last m current u = meter_last m u" "reported m current u = None"
    if "u \<notin> set ks" for u
  proof -
    from that assms have "current u = None"
      by (auto simp: range_order_def)
    then show "next_last m current u = meter_last m u" "reported m current u = None"
      by (simp_all add: next_last_def reported_def)
  qed
  with assms show ?thesis
    by (auto simp: Deltas_def fold_deltas_visit range_order_def fun_eq_iff split: option.split)
qed

section \<open>The ledger: metered traffic against the traffic that flowed\<close>

text \<open>
  \<open>counters\<close> are sing-box's own counters, \<open>flowed\<close> the traffic that really passed since the
  agent started, \<open>accounted\<close> the sum of the increments \<^verbatim>\<open>Deltas\<close> has returned.
\<close>

record ledger =
  counters :: "string \<rightharpoonup> UserStats"
  meter :: Meter
  flowed :: "string \<Rightarrow> UserStats"
  accounted :: "string \<Rightarrow> UserStats"

definition init_ledger :: ledger where
  "init_ledger = \<lparr>counters = Map.empty, meter = NewMeter,
     flowed = (\<lambda>_. zero_stats), accounted = (\<lambda>_. zero_stats)\<rparr>"

definition counter_of :: "ledger \<Rightarrow> string \<Rightarrow> UserStats" where
  "counter_of s u = (case counters s u of None \<Rightarrow> zero_stats | Some c \<Rightarrow> c)"

definition add_stats :: "UserStats \<Rightarrow> UserStats \<Rightarrow> UserStats" where
  "add_stats a b = \<lparr>Upload = Upload a + Upload b, Download = Download a + Download b\<rparr>"

definition flow :: "string \<Rightarrow> UserStats \<Rightarrow> ledger \<Rightarrow> ledger" where
  "flow u n s = s\<lparr>counters := (counters s)(u \<mapsto> add_stats (counter_of s u) n),
     flowed := (flowed s)(u := add_stats (flowed s u) n)\<rparr>"

text \<open>sing-box ends, or ends and starts again: its counters are empty.\<close>

definition emptied :: "ledger \<Rightarrow> ledger" where
  "emptied s = s\<lparr>counters := Map.empty\<rparr>"

text \<open>The call of \<^verbatim>\<open>Deltas\<close> with a reading that was taken some time ago: add every returned increment.\<close>

definition apply_reading :: "string list \<Rightarrow> (string \<rightharpoonup> UserStats) \<Rightarrow> ledger \<Rightarrow> ledger" where
  "apply_reading ks r s =
     (let (m, out) = Deltas (meter s) (map_option Some \<circ> r) ks
      in s\<lparr>meter := m, accounted := (\<lambda>u. case out u of None \<Rightarrow> accounted s u
                                             | Some d \<Rightarrow> add_stats (accounted s u) d)\<rparr>)"

section \<open>The two goroutines that account\<close>

text \<open>
  \<^verbatim>\<open>Collect\<close> and \<^verbatim>\<open>Deltas\<close> are two steps, and two goroutines make them: the tick of the main loop
  (\<^verbatim>\<open>accountLocalTraffic(true)\<close>, which holds no lock) and the regeneration that has \<^verbatim>\<open>regenMu\<close>
  (\<^verbatim>\<open>accountLocalTraffic(false)\<close>, then writing the configuration, restarting sing-box and
  \<^verbatim>\<open>Reset\<close>). \<open>tick_reading\<close> is the reading the tick has taken and not yet given to \<^verbatim>\<open>Deltas\<close>,
  \<open>regen_at\<close> is how far the regeneration is.
\<close>

datatype regen_stage =
    NotRunning
  | BeforeReading
  | HasReading "string \<rightharpoonup> UserStats"
  | BeforeRestart
  | BeforeReset

record metering =
  books :: ledger
  tick_reading :: "(string \<rightharpoonup> UserStats) option"
  regen_at :: regen_stage

text \<open>
  The steps. Traffic flows at any time; sing-box may end at any time (a crash, or the \<^verbatim>\<open>Reload\<close> of a
  synchronisation, which does not reset the meter). \<open>r_down\<close> is the regeneration that finds sing-box
  not running, so without counters; \<open>r_unread\<close> the one that cannot read them; \<open>r_abort\<close> the one
  that cannot write the configuration and returns before \<^verbatim>\<open>Reset\<close> is deferred. With \<open>overlap\<close> the two
  goroutines interleave freely; without, neither reads while the other is at work.
\<close>

inductive metered :: "bool \<Rightarrow> metering \<Rightarrow> bool" for overlap where
  start: "metered overlap \<lparr>books = init_ledger, tick_reading = None, regen_at = NotRunning\<rparr>"
| flow: "metered overlap w \<Longrightarrow> 0 \<le> Upload n \<Longrightarrow> 0 \<le> Download n \<Longrightarrow>
     is_i64 (Upload (flowed (books w) u) + Upload n) \<Longrightarrow> is_i64 (Download (flowed (books w) u) + Download n) \<Longrightarrow>
     metered overlap (w\<lparr>books := flow u n (books w)\<rparr>)"
| crash: "metered overlap w \<Longrightarrow> metered overlap (w\<lparr>books := emptied (books w)\<rparr>)"
| t_read: "metered overlap w \<Longrightarrow> tick_reading w = None \<Longrightarrow> overlap \<or> regen_at w = NotRunning \<Longrightarrow>
     metered overlap (w\<lparr>tick_reading := Some (counters (books w))\<rparr>)"
| t_apply: "metered overlap w \<Longrightarrow> tick_reading w = Some r \<Longrightarrow> range_order r ks \<Longrightarrow>
     metered overlap (w\<lparr>books := apply_reading ks r (books w), tick_reading := None\<rparr>)"
| r_lock: "metered overlap w \<Longrightarrow> regen_at w = NotRunning \<Longrightarrow> overlap \<or> tick_reading w = None \<Longrightarrow>
     metered overlap (w\<lparr>regen_at := BeforeReading\<rparr>)"
| r_down: "metered overlap w \<Longrightarrow> regen_at w = BeforeReading \<Longrightarrow>
     metered overlap (w\<lparr>books := emptied (books w), regen_at := BeforeReset\<rparr>)"
| r_unread: "metered overlap w \<Longrightarrow> regen_at w = BeforeReading \<Longrightarrow> metered overlap (w\<lparr>regen_at := BeforeRestart\<rparr>)"
| r_read: "metered overlap w \<Longrightarrow> regen_at w = BeforeReading \<Longrightarrow>
     metered overlap (w\<lparr>regen_at := HasReading (counters (books w))\<rparr>)"
| r_apply: "metered overlap w \<Longrightarrow> regen_at w = HasReading r \<Longrightarrow> range_order r ks \<Longrightarrow>
     metered overlap (w\<lparr>books := apply_reading ks r (books w), regen_at := BeforeRestart\<rparr>)"
| r_abort: "metered overlap w \<Longrightarrow> regen_at w = BeforeRestart \<or> regen_at w = BeforeReset \<Longrightarrow>
     metered overlap (w\<lparr>regen_at := NotRunning\<rparr>)"
| r_restart: "metered overlap w \<Longrightarrow> regen_at w = BeforeRestart \<Longrightarrow>
     metered overlap (w\<lparr>books := emptied (books w), regen_at := BeforeReset\<rparr>)"
| r_reset: "metered overlap w \<Longrightarrow> regen_at w = BeforeReset \<Longrightarrow>
     metered overlap (w\<lparr>books := (books w)\<lparr>meter := Reset (meter (books w))\<rparr>, regen_at := NotRunning\<rparr>)"

section \<open>The invariant\<close>

lemma range_order_map_option [simp]:
  "range_order (map_option f \<circ> m) ks \<longleftrightarrow> range_order m ks"
  by (auto simp: range_order_def dom_def)

lemma last_of_next_last [simp]:
  "last_of (m\<lparr>meter_last := next_last m (map_option Some \<circ> c)\<rparr>) u =
     (case c u of None \<Rightarrow> last_of m u | Some x \<Rightarrow> x)"
  by (simp add: last_of_def next_last_def split: option.split)

text \<open>Per direction: counter, last reading, traffic that flowed, traffic that is accounted.\<close>

definition dir_ok :: "int \<Rightarrow> int \<Rightarrow> int \<Rightarrow> int \<Rightarrow> bool" where
  "dir_ok c p t a \<longleftrightarrow> 0 \<le> c \<and> 0 \<le> p \<and> 0 \<le> a \<and> c \<le> t \<and> is_i64 t \<and> a + delta c p \<le> t"

definition ledger_ok :: "ledger \<Rightarrow> string \<Rightarrow> bool" where
  "ledger_ok s u \<longleftrightarrow>
     dir_ok (Upload (counter_of s u)) (Upload (last_of (meter s) u)) (Upload (flowed s u)) (Upload (accounted s u)) \<and>
     dir_ok (Download (counter_of s u)) (Download (last_of (meter s) u)) (Download (flowed s u)) (Download (accounted s u))"

lemma delta_pos: "0 \<le> c \<Longrightarrow> 0 \<le> p \<Longrightarrow> is_i64 c \<Longrightarrow> 0 \<le> delta c p"
  and delta_self [simp]: "delta c c = 0"
  and delta_le: "0 \<le> c \<Longrightarrow> 0 \<le> p \<Longrightarrow> is_i64 c \<Longrightarrow> delta c p \<le> c"
  by (auto simp: delta_def i64_id is_i64_def)

lemma dir_ok_is_i64: "dir_ok c p t a \<Longrightarrow> is_i64 c"
  by (auto simp: dir_ok_def is_i64_def)

lemma dir_ok_delta_pos: "dir_ok c p t a \<Longrightarrow> 0 \<le> delta c p"
  using dir_ok_is_i64 [of c p t a] by (auto simp: dir_ok_def intro: delta_pos)

lemma dir_ok_flow: "dir_ok c p t a \<Longrightarrow> 0 \<le> n \<Longrightarrow> is_i64 (t + n) \<Longrightarrow> dir_ok (c + n) p (t + n) a"
  by (auto simp: dir_ok_def delta_def i64_id is_i64_def split: if_splits)

lemma dir_ok_crash: "dir_ok c p t a \<Longrightarrow> dir_ok 0 p t a"
  by (auto simp: dir_ok_def delta_def i64_id is_i64_def split: if_splits)

lemma dir_ok_account: "dir_ok c p t a \<Longrightarrow> dir_ok c c t (a + delta c p)"
  using delta_pos [of c p] dir_ok_is_i64 [of c p t a] by (auto simp: dir_ok_def)

lemma dir_ok_reset: "dir_ok c p t a \<Longrightarrow> a + c \<le> t \<Longrightarrow> dir_ok c 0 t a"
  using dir_ok_is_i64 [of c p t a] by (auto simp: dir_ok_def delta_def i64_id)

lemma ledger_ok_start: "ledger_ok init_ledger u"
  by (simp add: ledger_ok_def init_ledger_def counter_of_def last_of_def NewMeter_def zero_stats_def dir_ok_def is_i64_def)

lemma ledger_ok_flow:
  assumes "\<And>u. ledger_ok s u" "0 \<le> Upload n" "0 \<le> Download n"
    "is_i64 (Upload (flowed s v) + Upload n)" "is_i64 (Download (flowed s v) + Download n)"
  shows "ledger_ok (flow v n s) u"
  using assms(1) [of u] assms(2-)
  by (auto simp: ledger_ok_def flow_def counter_of_def add_stats_def dir_ok_flow)

lemma ledger_ok_crash: "ledger_ok s u \<Longrightarrow> ledger_ok (emptied s) u"
  by (auto simp: ledger_ok_def emptied_def counter_of_def zero_stats_def elim: dir_ok_crash)

text \<open>The order in which \<^verbatim>\<open>Deltas\<close> visits a reading does not matter.\<close>

definition applied :: "(string \<rightharpoonup> UserStats) \<Rightarrow> ledger \<Rightarrow> ledger" where
  "applied r s = s\<lparr>meter := (meter s)\<lparr>meter_last := next_last (meter s) (map_option Some \<circ> r)\<rparr>,
     accounted := (\<lambda>u. case reported (meter s) (map_option Some \<circ> r) u of
         None \<Rightarrow> accounted s u | Some d \<Rightarrow> add_stats (accounted s u) d)\<rparr>"

lemma apply_reading_eq: "range_order r ks \<Longrightarrow> apply_reading ks r s = applied r s"
  by (simp add: apply_reading_def applied_def Deltas_eq)

lemma applied_flow: "applied r (flow u n s) = flow u n (applied r s)"
  by (simp add: applied_def flow_def counter_of_def cong: option.case_cong)

lemma applied_emptied: "applied r (emptied s) = emptied (applied r s)"
  by (simp add: applied_def emptied_def cong: option.case_cong)

lemma applied_other [simp]: "counters (applied r s) = counters s" "flowed (applied r s) = flowed s"
  by (simp_all add: applied_def)

text \<open>Accounting for a reading that was just taken.\<close>

lemma ledger_ok_applied:
  assumes ok: "ledger_ok s u"
  shows "ledger_ok (applied (counters s) s) u \<and>
    Upload (accounted s u) \<le> Upload (accounted (applied (counters s) s) u) \<and>
    Download (accounted s u) \<le> Download (accounted (applied (counters s) s) u)"
proof (cases "counters s u")
  case None
  with ok show ?thesis
    by (simp add: applied_def ledger_ok_def counter_of_def reported_def)
next
  case (Some c)
  let ?p = "last_of (meter s) u"
  from ok Some have dirs:
    "dir_ok (Upload c) (Upload ?p) (Upload (flowed s u)) (Upload (accounted s u))"
    "dir_ok (Download c) (Download ?p) (Download (flowed s u)) (Download (accounted s u))"
    by (simp_all add: ledger_ok_def counter_of_def)
  note pos = dirs [THEN dir_ok_delta_pos] and acc = dirs [THEN dir_ok_account]
  show ?thesis
    using pos acc Some
    by (auto simp: applied_def ledger_ok_def counter_of_def reported_def stats_delta_def
        add_stats_def Let_def not_less)
qed

text \<open>The reading that is pending, when the goroutines do not overlap, and the books once it is applied.\<close>

definition pending :: "metering \<Rightarrow> (string \<rightharpoonup> UserStats) option" where
  "pending w = (case tick_reading w of Some r \<Rightarrow> Some r
     | None \<Rightarrow> (case regen_at w of HasReading r \<Rightarrow> Some r | _ \<Rightarrow> None))"

definition settled :: "metering \<Rightarrow> ledger" where
  "settled w = (case pending w of None \<Rightarrow> books w | Some r \<Rightarrow> applied r (books w))"

definition metering_ok :: "metering \<Rightarrow> string \<Rightarrow> bool" where
  "metering_ok w u \<longleftrightarrow> (tick_reading w = None \<or> regen_at w = NotRunning) \<and> ledger_ok (settled w) u \<and>
     Upload (accounted (books w) u) \<le> Upload (accounted (settled w) u) \<and>
     Download (accounted (books w) u) \<le> Download (accounted (settled w) u) \<and>
     (regen_at w = BeforeReset \<longrightarrow>
        Upload (accounted (books w) u) + Upload (counter_of (books w) u) \<le> Upload (flowed (books w) u) \<and>
        Download (accounted (books w) u) + Download (counter_of (books w) u) \<le> Download (flowed (books w) u))"

lemma pending_books: "pending (w\<lparr>books := b\<rparr>) = pending w"
  by (simp add: pending_def cong: option.case_cong)

lemma accounted_le_flowed:
  assumes "ledger_ok s u"
  shows "Upload (accounted s u) \<le> Upload (flowed s u)" "Download (accounted s u) \<le> Download (flowed s u)"
proof -
  have "a \<le> t" if "dir_ok c p t a" for c p t a
    using dir_ok_delta_pos [OF that] that by (simp add: dir_ok_def)
  then show "Upload (accounted s u) \<le> Upload (flowed s u)" "Download (accounted s u) \<le> Download (flowed s u)"
    using assms by (auto simp: ledger_ok_def)
qed

lemma metering_ok_flow:
  assumes "\<And>u. metering_ok w u" "0 \<le> Upload n" "0 \<le> Download n"
    "is_i64 (Upload (flowed (books w) v) + Upload n)" "is_i64 (Download (flowed (books w) v) + Download n)"
  shows "metering_ok (w\<lparr>books := flow v n (books w)\<rparr>) u"
proof -
  have s: "settled (w\<lparr>books := flow v n (books w)\<rparr>) = flow v n (settled w)"
    by (simp add: settled_def pending_books applied_flow split: option.split)
  have "flowed (settled w) = flowed (books w)"
    by (simp add: settled_def split: option.split)
  then have "ledger_ok (flow v n (settled w)) u"
    using assms by (intro ledger_ok_flow) (auto simp: metering_ok_def)
  moreover have "accounted (flow v n b) = accounted b" for b
    by (simp add: flow_def)
  ultimately show ?thesis
    using assms(1) [of u] by (auto simp: metering_ok_def s) (auto simp: flow_def counter_of_def add_stats_def)
qed

lemma metering_ok_crash:
  assumes "metering_ok w u"
  shows "metering_ok (w\<lparr>books := emptied (books w)\<rparr>) u"
proof -
  have s: "settled (w\<lparr>books := emptied (books w)\<rparr>) = emptied (settled w)"
    by (simp add: settled_def pending_books applied_emptied split: option.split)
  have "flowed (settled w) = flowed (books w)"
    by (simp add: settled_def split: option.split)
  then have "Upload (accounted (books w) u) \<le> Upload (flowed (books w) u)"
    "Download (accounted (books w) u) \<le> Download (flowed (books w) u)"
    using assms accounted_le_flowed [of "settled w" u] by (auto simp: metering_ok_def)
  then show ?thesis
    using assms ledger_ok_crash [of "settled w" u]
    by (auto simp: metering_ok_def s) (auto simp: emptied_def counter_of_def zero_stats_def)
qed

lemma metered_ok: "metered False w \<Longrightarrow> metering_ok w u"
proof (induction arbitrary: u rule: metered.induct)
  case start
  show ?case
    by (simp add: metering_ok_def settled_def pending_def ledger_ok_start)
next
  case (flow w n v)
  then show ?case by (intro metering_ok_flow)
next
  case (crash w)
  then show ?case by (intro metering_ok_crash)
next
  case (t_read w u)
  then have "settled w = books w"
    by (simp add: settled_def pending_def)
  then show ?case
    using t_read ledger_ok_applied [of "books w" u]
    by (simp add: metering_ok_def settled_def pending_def)
next
  case (t_apply w r ks u)
  show ?case
    using t_apply.hyps t_apply.IH [of u] by (auto simp: metering_ok_def settled_def pending_def apply_reading_eq split: regen_stage.splits)
next
  case (r_read w u)
  then have "settled w = books w"
    by (simp add: settled_def pending_def metering_ok_def)
  then show ?case
    using r_read ledger_ok_applied [of "books w" u]
    by (auto simp: metering_ok_def settled_def pending_def)
next
  case (r_apply w r ks u)
  have "pending w = Some r"
    using r_apply.IH [of u] r_apply.hyps by (auto simp: metering_ok_def pending_def)
  then show ?case
    using r_apply.IH [of u] r_apply.hyps
    by (auto simp: metering_ok_def settled_def pending_def apply_reading_eq)
next
  case (r_down w u)
  show ?case
    using r_down.hyps r_down.IH [of u] metering_ok_crash [of w u] accounted_le_flowed [of "settled w" u]
    by (auto simp: metering_ok_def settled_def pending_def emptied_def counter_of_def zero_stats_def)
next
  case (r_restart w u)
  show ?case
    using r_restart.hyps r_restart.IH [of u] metering_ok_crash [of w u] accounted_le_flowed [of "settled w" u]
    by (auto simp: metering_ok_def settled_def pending_def emptied_def counter_of_def zero_stats_def)
next
  case (r_reset w u)
  let ?s = "books w"
  have "last_of (Reset (meter ?s)) u = zero_stats"
    by (simp add: last_of_def Reset_def)
  then show ?case
    using r_reset.IH [of u] r_reset.hyps
    by (auto simp: metering_ok_def settled_def pending_def ledger_ok_def counter_of_def zero_stats_def intro: dir_ok_reset)
next
  case (r_lock w u)
  show ?case
    using r_lock.hyps r_lock.IH [of u] by (auto simp: metering_ok_def settled_def pending_def)
next
  case (r_unread w u)
  show ?case
    using r_unread.hyps r_unread.IH [of u] by (auto simp: metering_ok_def settled_def pending_def)
next
  case (r_abort w u)
  show ?case
    using r_abort.hyps r_abort.IH [of u] by (auto simp: metering_ok_def settled_def pending_def)
qed

text \<open>
  The tick reads 100, another byte flows, the regeneration reads 101 and accounts for it, and then
  the tick accounts for its 100: the meter takes the smaller reading for a restart.
\<close>

lemma overlap_overcounts:
  "\<exists>w. metered True w \<and> Upload (flowed (books w) u) < Upload (accounted (books w) u)"
proof -
  let ?f = "\<lambda>n s. flow u \<lparr>Upload = n, Download = 0\<rparr> s"
  let ?r = "\<lambda>n. [u \<mapsto> \<lparr>Upload = n, Download = 0\<rparr>]"
  define w0 where "w0 = \<lparr>books = ?f 100 init_ledger, tick_reading = None, regen_at = NotRunning\<rparr>"
  define w1 where "w1 = w0\<lparr>books := ?f 1 (?f 100 init_ledger), tick_reading := Some (?r 100)\<rparr>"
  define w2 where "w2 = w1\<lparr>regen_at := HasReading (?r 101)\<rparr>"
  define w3 where "w3 = w2\<lparr>books := apply_reading [u] (?r 101) (books w2), regen_at := BeforeRestart\<rparr>"
  define w4 where "w4 = w3\<lparr>books := apply_reading [u] (?r 100) (books w3), tick_reading := None\<rparr>"
  note defs = w0_def w1_def w2_def flow_def init_ledger_def counter_of_def add_stats_def zero_stats_def is_i64_def
  have "metered True w0"
    using metered.flow [OF metered.start, of "\<lparr>Upload = 100, Download = 0\<rparr>" u] by (simp add: defs)
  from metered.t_read [OF this] have "metered True (w0\<lparr>tick_reading := Some (?r 100)\<rparr>)"
    by (simp add: defs)
  from metered.flow [OF this, of "\<lparr>Upload = 1, Download = 0\<rparr>" u] have w1: "metered True w1"
    by (simp add: defs)
  from metered.r_lock [OF this] have "metered True (w1\<lparr>regen_at := BeforeReading\<rparr>)"
    by (simp add: defs)
  from metered.r_read [OF this] have w2: "metered True w2"
    by (simp add: defs)
  have ord: "range_order (?r n) [u]" for n
    by (simp add: range_order_def)
  from metered.r_apply [OF w2 _ ord, of 101] have w3: "metered True w3"
    by (simp add: w3_def) (simp add: w2_def)
  from metered.t_apply [OF w3 _ ord, of 100] have "metered True w4"
    by (simp add: w4_def) (simp add: defs w3_def)
  moreover have "Upload (flowed (books w4) u) = 101" "Upload (accounted (books w4) u) = 201"
    by (simp_all add: w4_def w3_def apply_reading_eq [OF ord] applied_def reported_def next_last_def last_of_def stats_delta_def
        delta_def NewMeter_def i64_id Let_def defs)
  ultimately show ?thesis
    by (intro exI [of _ w4]) simp
qed

section \<open>Property\<close>

text \<open>
  C13. The meter never counts traffic that did not flow, as long as the tick of the main loop and a
  regeneration do not account at the same time: traffic flows and sing-box crashes (each time
  its counters are silently emptied) at any moment, also between the reading of the counters
  and its accounting and between a restart and \<^verbatim>\<open>Reset\<close>, and the sum of the increments \<^verbatim>\<open>Deltas\<close>
  returns for a user is at most the user's traffic, per direction. The condition is needed,
  and the program does not enforce it, because the tick does not take \<^verbatim>\<open>regenMu\<close>: when both
  overlap, a run without any crash can count the same bytes twice.
\<close>

theorem meter_never_overcounts:
  assumes "metered False w"
  shows "Upload (accounted (books w) u) \<le> Upload (flowed (books w) u) \<and>
    Download (accounted (books w) u) \<le> Download (flowed (books w) u) \<and>
    (\<exists>w'. metered True w' \<and> Upload (flowed (books w') u) < Upload (accounted (books w') u))"
proof -
  have ok: "metering_ok w u"
    by (rule metered_ok [OF assms])
  moreover have "flowed (settled w) = flowed (books w)"
    by (simp add: settled_def split: option.split)
  ultimately show ?thesis
    using accounted_le_flowed [of "settled w" u] overlap_overcounts [of u] by (auto simp: metering_ok_def)
qed

text \<open>A run in which traffic flows between a reading and its accounting, and a crash happens there too.\<close>

definition example_run :: metering where
  "example_run =
     \<lparr>books = apply_reading [''u''] [''u'' \<mapsto> \<lparr>Upload = 9, Download = 2\<rparr>]
        (flow ''u'' \<lparr>Upload = 5, Download = 1\<rparr> (emptied (flow ''u'' \<lparr>Upload = 9, Download = 2\<rparr> init_ledger))),
      tick_reading = None, regen_at = NotRunning\<rparr>"

lemma example_run_metered: "metered False example_run"
proof -
  let ?w = "\<lambda>b t. \<lparr>books = b, tick_reading = t, regen_at = NotRunning\<rparr>"
  let ?b = "flow ''u'' \<lparr>Upload = 9, Download = 2\<rparr> init_ledger" and ?r = "[''u'' \<mapsto> \<lparr>Upload = 9, Download = 2\<rparr>]"
  note defs = flow_def init_ledger_def counter_of_def add_stats_def zero_stats_def is_i64_def emptied_def
  have "metered False (?w ?b None)"
    using metered.flow [OF metered.start, of "\<lparr>Upload = 9, Download = 2\<rparr>" "''u''"] by (simp add: defs)
  from metered.t_read [OF this] have "metered False (?w ?b (Some ?r))"
    by (simp add: defs)
  from metered.crash [OF this] have "metered False (?w (emptied ?b) (Some ?r))"
    by simp
  from metered.flow [OF this, of "\<lparr>Upload = 5, Download = 1\<rparr>" "''u''"]
  have "metered False (?w (flow ''u'' \<lparr>Upload = 5, Download = 1\<rparr> (emptied ?b)) (Some ?r))"
    by (simp add: defs)
  from metered.t_apply [OF this, of ?r "[''u'']"] show ?thesis
    by (simp add: example_run_def range_order_def)
qed

lemma meter_never_overcounts_witness:
  "Upload (accounted (books example_run) ''u'') \<le> Upload (flowed (books example_run) ''u'') \<and>
   Upload (flowed (books example_run) ''u'') = 14"
  using meter_never_overcounts [OF example_run_metered, of "''u''"]
  by (simp add: example_run_def apply_reading_eq [of "[''u'' \<mapsto> _]"] range_order_def flow_def emptied_def init_ledger_def
      zero_stats_def add_stats_def counter_of_def)

end
