(* ===== verification/StatsWire.thy ===== *)
theory StatsWire
  imports TrafficMeter
begin

unbundle bit_operations_syntax

text \<open>
  \<^verbatim>\<open>internal/stats/collector.go\<close>: the hand-written gRPC framing and protobuf codec with
  which the agent reads sing-box's counters, and the grouping of counters by user.

  Byte slices are \<open>byte list\<close>, \<^verbatim>\<open>uint64\<close> and \<^verbatim>\<open>uint32\<close> are words, and every
  \<^verbatim>\<open>error\<close> return is a value of \<open>wire_error\<close>. The HTTP/2 transport is not modelled.
\<close>

datatype wire_error =
    FrameTooShort nat
  | FrameCompressed
  | FrameTruncated nat nat
  | SlicePanic \<comment> \<open>the Go slice expression panics\<close>
  | BadKey
  | BadVarint
  | ShortFixed64
  | BadLength
  | ShortFixed32
  | BadWireType nat

section \<open>Varints\<close>

lemma drop7_less: "0x80 \<le> v \<Longrightarrow> unat (drop_bit 7 v) < unat v" for v :: u64
proof -
  assume "0x80 \<le> v"
  then have "128 \<le> unat v"
    by (simp add: word_le_nat_alt)
  then have "unat v div 2 ^ 7 < unat v"
    by simp
  then show "unat (drop_bit 7 v) < unat v"
    by (simp add: drop_bit_eq_div unat_div)
qed

function appendVarint :: "byte list \<Rightarrow> u64 \<Rightarrow> byte list" where
  "appendVarint b v =
     (if 0x80 \<le> v then appendVarint (b @ [ucast v OR 0x80]) (drop_bit 7 v)
      else b @ [ucast v])"
  by pat_completeness auto
termination
  by (relation "measure (\<lambda>(b, v). unat v)") (simp_all add: drop7_less)

declare appendVarint.simps [simp del]

text \<open>The loop of \<^verbatim>\<open>readVarint\<close>, from index \<open>i\<close> with the bits read so far in \<open>v\<close>.\<close>

function readVarint_from :: "byte list \<Rightarrow> nat \<Rightarrow> u64 \<Rightarrow> u64 \<times> nat" where
  "readVarint_from b i v =
     (if i < length b \<and> i < 10 then
        (let v' = v OR push_bit (7 * i) (ucast (b ! i AND 0x7f)) in
         if b ! i < 0x80 then (v', i + 1) else readVarint_from b (i + 1) v')
      else (0, 0))"
  by pat_completeness auto
termination by (relation "measure (\<lambda>(b, i, v). 10 - i)") auto

declare readVarint_from.simps [simp del]

definition readVarint :: "byte list \<Rightarrow> u64 \<times> nat" where
  "readVarint b = readVarint_from b 0 0"

section \<open>gRPC frames\<close>

definition grpcFrame :: "byte list \<Rightarrow> byte list" where
  "grpcFrame msg = 0 # put_be32 (of_nat (length msg)) @ msg"

fun grpcUnframe :: "byte list \<Rightarrow> wire_error + byte list" where
  "grpcUnframe [] = Inr []"
| "grpcUnframe (z # a # b # c # d # rest) =
     (if z \<noteq> 0 then Inl FrameCompressed
      else let n = unat (get_be32 a b c d) in
        if length rest < n then Inl (FrameTruncated n (length rest))
        else let hi = unat (5 + get_be32 a b c d) in
          if hi < 5 then Inl SlicePanic else Inr (take (hi - 5) rest))"
| "grpcUnframe short = Inl (FrameTooShort (length short))"

section \<open>Protobuf fields\<close>

text \<open>
  \<^verbatim>\<open>walkFields\<close> with its callback in state-passing form: \<open>fn field wire val data s\<close> returns
  the callback's error, if any, and the closure's state. The state survives an error, as the
  variables a Go closure writes to do. Lengths are compared as \<^verbatim>\<open>uint64\<close>.
\<close>

lemma readVarint_from_bounds:
  "readVarint_from b i v = (x, n) \<Longrightarrow> n \<le> length b \<and> n \<le> 10 \<and> (n \<noteq> 0 \<longrightarrow> i < n)"
proof (induction b i v rule: readVarint_from.induct)
  case (1 b i v)
  let ?v = "v OR push_bit (7 * i) (ucast (b ! i AND 0x7f))"
  show ?case
  proof (cases "i < length b \<and> i < 10 \<and> \<not> b ! i < 0x80")
    case True
    with "1.prems" have "readVarint_from b (i + 1) ?v = (x, n)"
      by (subst (asm) readVarint_from.simps) (simp add: Let_def)
    with "1.IH" [OF _ refl] True show ?thesis by fastforce
  next
    case False
    with "1.prems" show ?thesis
      by (subst (asm) readVarint_from.simps) (auto simp: Let_def split: if_splits)
  qed
qed

lemma readVarint_bounds: "readVarint b = (x, n) \<Longrightarrow> n \<le> length b \<and> n \<le> 10"
  unfolding readVarint_def by (drule readVarint_from_bounds) simp

type_synonym 's field_fn = "int \<Rightarrow> nat \<Rightarrow> u64 \<Rightarrow> byte list \<Rightarrow> 's \<Rightarrow> wire_error option \<times> 's"

function walkFields :: "'s field_fn \<Rightarrow> byte list \<Rightarrow> 's \<Rightarrow> wire_error option \<times> 's" where
  "walkFields fn b s =
     (if b = [] then (None, s)
      else case readVarint b of (key, n) \<Rightarrow>
        if n = 0 then (Some BadKey, s)
        else
          let b1 = drop n b; field = uint (drop_bit 3 key); wire = unat (key AND 7) in
          if wire = 0 then
            (case readVarint b1 of (v, n1) \<Rightarrow>
               if n1 = 0 then (Some BadVarint, s)
               else case fn field wire v [] s of
                 (Some e, s') \<Rightarrow> (Some e, s')
               | (None, s') \<Rightarrow> walkFields fn (drop n1 b1) s')
          else if wire = 1 then
            (if length b1 < 8 then (Some ShortFixed64, s) else walkFields fn (drop 8 b1) s)
          else if wire = 2 then
            (case readVarint b1 of (l, n1) \<Rightarrow>
               if n1 = 0 \<or> length b1 - n1 < unat l then (Some BadLength, s)
               else case fn field wire 0 (take (unat l) (drop n1 b1)) s of
                 (Some e, s') \<Rightarrow> (Some e, s')
               | (None, s') \<Rightarrow> walkFields fn (drop (n1 + unat l) b1) s')
          else if wire = 5 then
            (if length b1 < 4 then (Some ShortFixed32, s) else walkFields fn (drop 4 b1) s)
          else (Some (BadWireType wire), s))"
  by pat_completeness auto
termination
  by (relation "measure (\<lambda>(fn, b, s). length b)") (auto simp: length_greater_0_conv [symmetric] simp del: length_greater_0_conv)

declare walkFields.simps [simp del]

section \<open>QueryStats messages\<close>

record statEntry =
  stat_name :: string
  stat_value :: int

definition encodeQueryStatsRequest :: "string \<Rightarrow> bool \<Rightarrow> byte list" where
  "encodeQueryStatsRequest pattern reset =
     (let out = (if pattern \<noteq> [] then
                   appendVarint [0x0a] (of_nat (length pattern)) @ bytes_of_string pattern
                 else [])
      in if reset then out @ [0x10, 0x01] else out)"

text \<open>The inner callback of \<^verbatim>\<open>decodeQueryStatsResponse\<close>, which fills one entry \<^verbatim>\<open>e\<close>.\<close>

definition stat_field :: "statEntry field_fn" where
  "stat_field f w v d e =
     (None, if f = 1 \<and> w = 2 then e\<lparr>stat_name := string_of_bytes d\<rparr>
            else if f = 2 \<and> w = 0 then e\<lparr>stat_value := sint v\<rparr>
            else e)"

definition empty_entry :: statEntry where
  "empty_entry = \<lparr>stat_name = [], stat_value = 0\<rparr>"

text \<open>The outer callback, whose closure appends to \<^verbatim>\<open>out\<close>.\<close>

definition response_field :: "statEntry list field_fn" where
  "response_field field wire val data out =
     (if field \<noteq> 1 \<or> wire \<noteq> 2 then (None, out)
      else case walkFields stat_field data empty_entry of
        (Some e, _) \<Rightarrow> (Some e, out)
      | (None, entry) \<Rightarrow> (None, out @ [entry]))"

definition decodeQueryStatsResponse :: "byte list \<Rightarrow> wire_error option \<times> statEntry list" where
  "decodeQueryStatsResponse b = walkFields response_field b []"

section \<open>Grouping by user\<close>

text \<open>
  One iteration of the loop of \<^verbatim>\<open>parseUserStats\<close>. The Go map holds pointers; the entry is
  written through the pointer, which is a map update here.
\<close>

definition parse_stat :: "statEntry \<Rightarrow> (string \<rightharpoonup> UserStats) \<Rightarrow> (string \<rightharpoonup> UserStats)" where
  "parse_stat stat stats =
     (case Split (stat_name stat) ''>>>'' of
        [p0, p1, p2, p3] \<Rightarrow>
          if p0 \<noteq> ''user'' \<or> p2 \<noteq> ''traffic'' \<or> p1 = [] then stats
          else let us = (case stats p1 of None \<Rightarrow> zero_stats | Some us \<Rightarrow> us);
                   us' = (if p3 = ''uplink'' then us\<lparr>Upload := stat_value stat\<rparr>
                          else if p3 = ''downlink'' then us\<lparr>Download := stat_value stat\<rparr>
                          else us)
               in stats(p1 \<mapsto> us')
      | _ \<Rightarrow> stats)"

definition parseUserStats :: "statEntry list \<Rightarrow> (string \<rightharpoonup> UserStats)" where
  "parseUserStats entries = fold parse_stat entries Map.empty"

section \<open>One query\<close>

text \<open>
  The HTTP/2 round trip is the argument \<open>rpc\<close>: what comes back for a service path and a
  request body. \<open>resp_body\<close> is \<open>None\<close> when reading the body fails.
\<close>

record rpc_response =
  StatusCode :: int
  resp_body :: "byte list option"
  trailer_status :: string
  header_status :: string

datatype stats_error =
    RequestFailed
  | errUnimplemented
  | HttpStatus int
  | ReadFailed
  | GrpcStatus string
  | WireError wire_error

type_synonym transport = "string \<Rightarrow> byte list \<Rightarrow> rpc_response option"

definition queryStatsAt :: "transport \<Rightarrow> string \<Rightarrow> string \<Rightarrow> bool \<Rightarrow> stats_error + statEntry list" where
  "queryStatsAt rpc path pattern reset =
     (case rpc path (grpcFrame (encodeQueryStatsRequest pattern reset)) of
        None \<Rightarrow> Inl RequestFailed
      | Some resp \<Rightarrow>
          if StatusCode resp = 404 then Inl errUnimplemented
          else if StatusCode resp \<noteq> 200 then Inl (HttpStatus (StatusCode resp))
          else case resp_body resp of
            None \<Rightarrow> Inl ReadFailed
          | Some body \<Rightarrow>
              (let status = (if trailer_status resp = [] then header_status resp
                             else trailer_status resp)
               in if status = ''12'' then Inl errUnimplemented
                  else if status \<noteq> [] \<and> status \<noteq> ''0'' then Inl (GrpcStatus status)
                  else case grpcUnframe body of
                    Inl e \<Rightarrow> Inl (WireError e)
                  | Inr payload \<Rightarrow>
                      (case decodeQueryStatsResponse payload of
                         (Some e, _) \<Rightarrow> Inl (WireError e)
                       | (None, out) \<Rightarrow> Inr out)))"

definition queryStatsPaths :: "string list" where
  "queryStatsPaths =
     [''/experimental.v2rayapi.StatsService/QueryStats'',
      ''/v2ray.core.app.stats.command.StatsService/QueryStats'']"

text \<open>The loop over the service paths; \<open>lastErr\<close> is only read after the first round.\<close>

fun query_paths :: "transport \<Rightarrow> string \<Rightarrow> bool \<Rightarrow> stats_error \<Rightarrow> string list \<Rightarrow>
    stats_error + statEntry list" where
  "query_paths rpc pattern reset lastErr [] = Inl lastErr"
| "query_paths rpc pattern reset lastErr (path # paths) =
     (case queryStatsAt rpc path pattern reset of
        Inl errUnimplemented \<Rightarrow> query_paths rpc pattern reset errUnimplemented paths
      | r \<Rightarrow> r)"

definition queryStats :: "transport \<Rightarrow> string \<Rightarrow> bool \<Rightarrow> stats_error + statEntry list" where
  "queryStats rpc pattern reset = query_paths rpc pattern reset errUnimplemented queryStatsPaths"

definition Collect :: "transport \<Rightarrow> stats_error + (string \<rightharpoonup> UserStats)" where
  "Collect rpc =
     (case queryStats rpc ''user>>>'' False of
        Inl e \<Rightarrow> Inl e
      | Inr entries \<Rightarrow> Inr (parseUserStats entries))"

section \<open>Varint round trip\<close>

lemma mask7_eq: "(0x7f :: byte) = mask 7" "(0x7f :: u64) = mask 7"
  by (simp_all add: mask_eq_decr_exp)

lemma bit_0x80: "bit (0x80 :: byte) n \<longleftrightarrow> n = 7"
proof -
  have e: "(0x80 :: byte) = 2 ^ 7" by simp
  show ?thesis unfolding e bit_exp_iff by auto
qed

lemma continuation_byte:
  "ucast ((ucast v OR 0x80 :: byte) AND 0x7f) = (v AND 0x7f :: u64)"
  "\<not> (ucast v OR 0x80 :: byte) < 0x80"
proof -
  define k :: byte where "k = 0x80"
  have k: "bit k n \<longleftrightarrow> n = 7" for n
    unfolding k_def by (rule bit_0x80)
  have "ucast ((ucast v OR k) AND 0x7f) = (v AND 0x7f :: u64)"
    unfolding mask7_eq by (rule bit_word_eqI) (auto simp: bit_simps k)
  then show "ucast ((ucast v OR 0x80 :: byte) AND 0x7f) = (v AND 0x7f :: u64)"
    by (simp add: k_def)
  have "k = (ucast v OR k) AND k"
    by (rule bit_word_eqI) (auto simp: bit_simps k)
  also have "\<dots> \<le> ucast v OR k"
    by (rule word_and_le2)
  finally show "\<not> (ucast v OR 0x80 :: byte) < 0x80"
    by (simp add: k_def)
qed

lemma low_high_bits: "(v AND 0x7f) OR push_bit 7 (drop_bit 7 v) = v" for v :: u64
  unfolding mask7_eq
proof (rule bit_word_eqI)
  fix n
  assume "n < LENGTH(64)"
  then show "bit (v AND mask 7 OR push_bit 7 (drop_bit 7 v)) n = bit v n"
    by (cases "n < 7") (simp_all add: bit_simps)
qed

lemma last_byte:
  fixes v :: u64
  assumes "v < 0x80"
  shows "(ucast v :: byte) < 0x80" "ucast ((ucast v :: byte) AND 0x7f) = v"
proof -
  from assms have lt: "unat v < 128"
    by (simp add: word_less_nat_alt)
  then have "unat (ucast v :: byte) < 128"
    by (simp add: unsigned_ucast_eq take_bit_eq_mod)
  then show "(ucast v :: byte) < 0x80"
    by (simp add: word_less_nat_alt)
  from lt have "unat (take_bit 7 v) = unat v"
    by (simp add: take_bit_eq_mod unat_mod)
  then have "take_bit 7 v = v"
    by (rule word_unat_eq_iff [THEN iffD2])
  moreover have "ucast ((ucast v :: byte) AND 0x7f) = v AND mask 7"
    unfolding mask7_eq by (rule bit_word_eqI) (auto simp: bit_simps)
  ultimately show "ucast ((ucast v :: byte) AND 0x7f) = v"
    by (simp add: take_bit_eq_mask)
qed

definition varint :: "u64 \<Rightarrow> byte list" where
  "varint v = appendVarint [] v"

lemma appendVarint_append: "appendVarint b v = b @ varint v"
proof (induction v arbitrary: b rule: measure_induct_rule [of unat])
  case (less v)
  show ?case
  proof (cases "0x80 \<le> v")
    case True
    have IH: "appendVarint b' (drop_bit 7 v) = b' @ varint (drop_bit 7 v)" for b'
      by (rule less.IH [OF drop7_less [OF True]])
    have "appendVarint b' v = b' @ (ucast v OR 0x80) # varint (drop_bit 7 v)" for b'
      using True by (subst appendVarint.simps) (simp add: IH)
    then show ?thesis by (simp add: varint_def [of v])
  next
    case False
    then show ?thesis by (simp add: varint_def appendVarint.simps [of _ v])
  qed
qed

lemma varint_eq:
  "varint v = (if 0x80 \<le> v then (ucast v OR 0x80) # varint (drop_bit 7 v) else [ucast v])"
  unfolding varint_def [of v] by (subst appendVarint.simps) (simp add: appendVarint_append)

lemma readVarint_from_varint:
  assumes "i < 10" "unat v < 2 ^ (64 - 7 * i)"
    "i \<le> length b" "drop i b = varint v @ rest"
  shows "readVarint_from b i w = (w OR push_bit (7 * i) v, i + length (varint v))"
  using assms
proof (induction v arbitrary: i w rule: measure_induct_rule [of unat])
  case (less v)
  note room = less.prems(1,2)
  from less.prems(3,4) have i: "i < length b"
    by (cases "i = length b") (auto simp: varint_eq [of v] split: if_splits)
  show ?case
  proof (cases "0x80 \<le> v")
    case True
    from True less.prems(4) have b: "drop i b = (ucast v OR 0x80) # varint (drop_bit 7 v) @ rest"
      by (simp add: varint_eq [of v])
    then have bi: "b ! i = ucast v OR 0x80" and bs: "drop (i + 1) b = varint (drop_bit 7 v) @ rest"
      using i by (simp_all add: Cons_nth_drop_Suc [symmetric])
    have "128 \<le> unat v" using True by (simp add: word_le_nat_alt)
    then have "i < 9"
      using room by (cases "i = 9") auto
    moreover have "unat (drop_bit 7 v) < 2 ^ (64 - 7 * (i + 1))"
    proof -
      from \<open>i < 9\<close> have "64 - 7 * i = (64 - 7 * (i + 1)) + 7" by simp
      with room have "unat v < 2 ^ (64 - 7 * (i + 1)) * 2 ^ 7"
        by (metis power_add)
      then have "unat v div 2 ^ 7 < 2 ^ (64 - 7 * (i + 1))"
        by (rule less_mult_imp_div_less)
      then show ?thesis by (simp add: drop_bit_eq_div unat_div)
    qed
    ultimately have IH: "readVarint_from b (i + 1) w' =
        (w' OR push_bit (7 * (i + 1)) (drop_bit 7 v), i + 1 + length (varint (drop_bit 7 v)))" for w'
      using less.IH [OF drop7_less [OF True], of "i + 1"] i bs by simp
    have "push_bit (7 * i) (v AND 0x7f) OR push_bit (7 * (i + 1)) (drop_bit 7 v) = push_bit (7 * i) v"
      using arg_cong [OF low_high_bits [of v], of "push_bit (7 * i)"]
      by (simp only: push_bit_or push_bit_push_bit distrib_left mult_1_right)
    then have bits: "(w OR push_bit (7 * i) (v AND 0x7f)) OR push_bit (7 * (i + 1)) (drop_bit 7 v)
        = w OR push_bit (7 * i) v"
      by (simp only: or.assoc)
    have "readVarint_from b i w = readVarint_from b (i + 1) (w OR push_bit (7 * i) (v AND 0x7f))"
      using room i bi by (subst readVarint_from.simps) (simp add: continuation_byte Let_def)
    also have "\<dots> = (w OR push_bit (7 * i) v, i + 1 + length (varint (drop_bit 7 v)))"
      by (simp only: IH bits)
    finally show ?thesis
      using True by (simp add: varint_eq [of v])
  next
    case False
    with less.prems(4) i have "b ! i = ucast v"
      by (simp add: varint_eq [of v] Cons_nth_drop_Suc [symmetric])
    with False room i show ?thesis
      using last_byte [of v] by (subst readVarint_from.simps) (simp add: varint_eq [of v] Let_def)
  qed
qed

lemma readVarint_varint: "readVarint (varint v @ rest) = (v, length (varint v))"
  using readVarint_from_varint [of 0 v "varint v @ rest" rest 0] unsigned_less [of v, where 'a = nat]
  by (simp add: readVarint_def)

definition dec_varint :: "byte list \<Rightarrow> (u64 \<times> byte list) option" where
  "dec_varint b = (case readVarint b of (v, n) \<Rightarrow> if n = 0 then None else Some (v, drop n b))"

lemma length_varint_pos [simp]: "0 < length (varint v)"
  by (simp add: varint_eq [of v])

lemma varint_not_Nil [simp]: "varint v \<noteq> []"
  using length_varint_pos [of v] by auto

interpretation varint_codec: delimited_codec varint dec_varint "\<lambda>_. True"
proof unfold_locales
  show "dec_varint (varint x @ rest) = Some (x, rest)" for x rest
    by (simp add: dec_varint_def readVarint_varint)
  show "dec_varint [] = None"
    by (simp add: dec_varint_def readVarint_def readVarint_from.simps)
qed

section \<open>Messages as protobuf writes them\<close>

text \<open>
  The wire format of protobuf, as its specification has it: the ground truth the decoder
  is checked against. A message is a list of fields; \<open>run_fields\<close> is what a reader that
  calls \<open>fn\<close> on the varint and length-delimited fields must do with it.
\<close>

datatype pfield =
    PVarint u64 u64
  | PFixed64 u64 "byte list"
  | PBytes u64 "byte list"
  | PFixed32 u64 "byte list"

definition field_key :: "u64 \<Rightarrow> u64 \<Rightarrow> byte list" where
  "field_key f w = varint (push_bit 3 f OR w)"

fun encode_field :: "pfield \<Rightarrow> byte list" where
  "encode_field (PVarint f v) = field_key f 0 @ varint v"
| "encode_field (PFixed64 f d) = field_key f 1 @ d"
| "encode_field (PBytes f d) = field_key f 2 @ varint (of_nat (length d)) @ d"
| "encode_field (PFixed32 f d) = field_key f 5 @ d"

fun valid_field :: "pfield \<Rightarrow> bool" where
  "valid_field (PVarint f v) \<longleftrightarrow> unat f < 2 ^ 61"
| "valid_field (PFixed64 f d) \<longleftrightarrow> unat f < 2 ^ 61 \<and> length d = 8"
| "valid_field (PBytes f d) \<longleftrightarrow> unat f < 2 ^ 61 \<and> length d < 2 ^ 64"
| "valid_field (PFixed32 f d) \<longleftrightarrow> unat f < 2 ^ 61 \<and> length d = 4"

definition encode_fields :: "pfield list \<Rightarrow> byte list" where
  "encode_fields fs = concat (map encode_field fs)"

definition then_fields :: "wire_error option \<times> 's \<Rightarrow> ('s \<Rightarrow> wire_error option \<times> 's) \<Rightarrow>
    wire_error option \<times> 's" where
  "then_fields r k = (case r of (Some e, s) \<Rightarrow> (Some e, s) | (None, s) \<Rightarrow> k s)"

fun run_fields :: "'s field_fn \<Rightarrow> pfield list \<Rightarrow> 's \<Rightarrow> wire_error option \<times> 's" where
  "run_fields fn [] s = (None, s)"
| "run_fields fn (PVarint f v # fs) s = then_fields (fn (uint f) 0 v [] s) (run_fields fn fs)"
| "run_fields fn (PBytes f d # fs) s = then_fields (fn (uint f) 2 0 d s) (run_fields fn fs)"
| "run_fields fn (_ # fs) s = run_fields fn fs s"

lemma key_bits:
  fixes f w :: u64
  assumes "unat f < 2 ^ 61" "w < 8"
  shows "drop_bit 3 (push_bit 3 f OR w) = f" "(push_bit 3 f OR w) AND 7 = w"
proof -
  have seven: "(7 :: u64) = mask 3"
    by (simp add: mask_eq_decr_exp)
  from assms have w: "take_bit 3 w = w"
    by (simp add: take_bit_eq_mod word_unat_eq_iff unat_mod word_less_nat_alt)
  then have bw: "bit w n \<Longrightarrow> n < 3" for n
    by (metis bit_take_bit_iff)
  from assms have f: "take_bit 61 f = f"
    by (simp add: take_bit_eq_mod word_unat_eq_iff unat_mod)
  then have bf: "bit f n \<Longrightarrow> n < 61" for n
    by (metis bit_take_bit_iff)
  show "drop_bit 3 (push_bit 3 f OR w) = f"
    by (rule bit_word_eqI) (auto simp: bit_simps dest: bw bf)
  show "(push_bit 3 f OR w) AND 7 = w"
    unfolding seven by (rule bit_word_eqI) (auto simp: bit_simps dest: bw)
qed

lemma walkFields_Nil [simp]: "walkFields fn [] s = (None, s)"
  by (simp add: walkFields.simps)

lemma readVarint_field_key [simp]:
  "readVarint (field_key f w @ b) = (push_bit 3 f OR w, length (field_key f w))"
  by (simp add: field_key_def readVarint_varint)

lemma field_key_not_Nil [simp]: "field_key f w \<noteq> []" "length (field_key f w) \<noteq> 0"
  by (simp_all add: field_key_def)

lemma walkFields_field:
  assumes "valid_field f"
  shows "walkFields fn (encode_field f @ b) s =
    (case f of
       PVarint n v \<Rightarrow> then_fields (fn (uint n) 0 v [] s) (walkFields fn b)
     | PBytes n d \<Rightarrow> then_fields (fn (uint n) 2 0 d s) (walkFields fn b)
     | _ \<Rightarrow> walkFields fn b s)"
proof (cases f)
  case (PVarint n v)
  with assms key_bits [of n 0] show ?thesis
    by (subst walkFields.simps) (simp add: Let_def readVarint_varint then_fields_def split: prod.split option.split)
next
  case (PFixed64 n d)
  with assms key_bits [of n 1] show ?thesis
    by (subst walkFields.simps) (simp add: Let_def)
next
  case (PBytes n d)
  with assms key_bits [of n 2] show ?thesis
    by (subst walkFields.simps)
      (simp add: Let_def readVarint_varint then_fields_def unat_of_nat
        split: prod.split option.split)
next
  case (PFixed32 n d)
  with assms key_bits [of n 5] show ?thesis
    by (subst walkFields.simps) (simp add: Let_def)
qed

lemma walkFields_encode:
  "list_all valid_field fs \<Longrightarrow> walkFields fn (encode_fields fs) s = run_fields fn fs s"
proof (induction fs arbitrary: s)
  case Nil
  then show ?case by (simp add: encode_fields_def)
next
  case (Cons f fs)
  then have IH: "walkFields fn (encode_fields fs) = run_fields fn fs"
    by auto
  from Cons.prems show ?case
    by (cases f) (simp_all add: encode_fields_def [of "_ # _"] encode_fields_def [symmetric]
        walkFields_field IH del: encode_field.simps)
qed

section \<open>What sing-box sends\<close>

text \<open>
  sing-box's counters and its reply: one \<^verbatim>\<open>Stat\<close> message per counter, default values
  omitted as proto3 does, in whatever order sing-box lists them.
\<close>

definition stat_message :: "statEntry \<Rightarrow> pfield list" where
  "stat_message e =
     (if stat_name e \<noteq> [] then [PBytes 1 (bytes_of_string (stat_name e))] else []) @
     (if stat_value e \<noteq> 0 then [PVarint 2 (word_of_int (stat_value e))] else [])"

definition response_message :: "statEntry list \<Rightarrow> pfield list" where
  "response_message es = map (\<lambda>e. PBytes 1 (encode_fields (stat_message e))) es"

definition sendable :: "statEntry \<Rightarrow> bool" where
  "sendable e \<longleftrightarrow> is_i64 (stat_value e) \<and> length (stat_name e) < 2 ^ 64 \<and>
     length (encode_fields (stat_message e)) < 2 ^ 64"

lemma sint_word_of_int: "is_i64 v \<Longrightarrow> sint (word_of_int v :: u64) = v"
  using i64_id [of v] by (simp add: i64_def signed_of_int)

lemma run_stat_message:
  "sendable e \<Longrightarrow> run_fields stat_field (stat_message e) empty_entry = (None, e)"
  by (auto simp: stat_message_def stat_field_def then_fields_def empty_entry_def sendable_def
      sint_word_of_int)

lemma valid_stat_message: "sendable e \<Longrightarrow> list_all valid_field (stat_message e)"
  by (auto simp: stat_message_def sendable_def)

lemma run_response_message:
  "list_all sendable es \<Longrightarrow> run_fields response_field (response_message es) out = (None, out @ es)"
proof (induction es arbitrary: out)
  case (Cons e es)
  then have "walkFields stat_field (encode_fields (stat_message e)) empty_entry = (None, e)"
    by (simp add: walkFields_encode valid_stat_message run_stat_message)
  with Cons show ?case
    by (simp add: response_message_def response_field_def then_fields_def)
qed (simp add: response_message_def)

lemma decode_response_message:
  assumes "list_all sendable es"
  shows "decodeQueryStatsResponse (encode_fields (response_message es)) = (None, es)"
proof -
  have "list_all valid_field (response_message es)"
    using assms by (induction es) (auto simp: response_message_def sendable_def)
  with assms show ?thesis
    by (simp add: decodeQueryStatsResponse_def walkFields_encode run_response_message)
qed

lemma grpcUnframe_grpcFrame:
  assumes "length msg + 5 < 2 ^ 32"
  shows "grpcUnframe (grpcFrame msg) = Inr msg"
proof -
  have len: "unat (of_nat (length msg) :: u32) = length msg"
    using assms by (simp add: unat_of_nat)
  have "unat (5 + of_nat (length msg) :: u32) = 5 + length msg"
    using assms unat_of_nat [of "5 + length msg", where 'a = 32] by simp
  then show ?thesis
    by (simp add: grpcFrame_def put_be32_def get_put_be32 len Let_def)
qed

section \<open>Grouping: the entry of one user\<close>

definition counts :: "string \<Rightarrow> string \<Rightarrow> statEntry \<Rightarrow> bool" where
  "counts u d e \<longleftrightarrow> Split (stat_name e) ''>>>'' = [''user'', u, ''traffic'', d] \<and> u \<noteq> []"

definition latest :: "string \<Rightarrow> string \<Rightarrow> int \<Rightarrow> statEntry list \<Rightarrow> int" where
  "latest u d x es = fold (\<lambda>e acc. if counts u d e then stat_value e else acc) es x"

lemma parse_stat_user:
  "parse_stat e m u =
     (if \<exists>d. counts u d e
      then (let us = (case m u of None \<Rightarrow> zero_stats | Some us \<Rightarrow> us) in
            Some \<lparr>Upload = latest u ''uplink'' (Upload us) [e],
                  Download = latest u ''downlink'' (Download us) [e]\<rparr>)
      else m u)"
  by (auto simp: parse_stat_def counts_def latest_def Let_def split: list.split)

lemma fold_parse_stat:
  "fold parse_stat es m u =
     (if (\<exists>e \<in> set es. \<exists>d. counts u d e)
      then (let us = (case m u of None \<Rightarrow> zero_stats | Some us \<Rightarrow> us) in
            Some \<lparr>Upload = latest u ''uplink'' (Upload us) es,
                  Download = latest u ''downlink'' (Download us) es\<rparr>)
      else m u)"
proof (induction es arbitrary: m)
  case Nil
  then show ?case by simp
next
  case (Cons e es)
  have skip: "latest u d x es = x" if "\<not> (\<exists>e \<in> set es. \<exists>d. counts u d e)" for d x
    using that by (induction es) (auto simp: latest_def)
  have skip1: "latest u d x [e] = x" if "\<not> (\<exists>d. counts u d e)" for d x
    using that by (auto simp: latest_def)
  have split: "latest u d x (e # es) = latest u d (latest u d x [e]) es" for d x
    by (simp add: latest_def)
  have "fold parse_stat (e # es) m u = fold parse_stat es (parse_stat e m) u"
    by simp
  then show ?case
    unfolding Cons.IH parse_stat_user [of e m u]
    by (auto simp: Let_def split skip skip1)
qed

lemma latest_const:
  assumes "\<And>e. e \<in> set es \<Longrightarrow> counts u d e \<Longrightarrow> stat_value e = x" "\<exists>e \<in> set es. counts u d e"
  shows "latest u d y es = x"
proof -
  have "latest u d y es = x \<or> (latest u d y es = y \<and> \<not> (\<exists>e \<in> set es. counts u d e))"
    using assms(1) by (induction es arbitrary: y) (auto simp: latest_def)
  with assms(2) show ?thesis by blast
qed

definition counter_name :: "string \<Rightarrow> string \<Rightarrow> string" where
  "counter_name u d = ''user>>>'' @ u @ ''>>>traffic>>>'' @ d"

definition counter_entries :: "(string \<times> UserStats) list \<Rightarrow> statEntry list" where
  "counter_entries us = concat (map (\<lambda>(u, st).
     [\<lparr>stat_name = counter_name u ''uplink'', stat_value = Upload st\<rparr>,
      \<lparr>stat_name = counter_name u ''downlink'', stat_value = Download st\<rparr>]) us)"

definition plain_id :: "string \<Rightarrow> bool" where
  "plain_id u \<longleftrightarrow> u \<noteq> [] \<and> CHR ''>'' \<notin> set u"

lemma Split_counter_name:
  assumes "plain_id u" "CHR ''>'' \<notin> set d"
  shows "Split (counter_name u d) ''>>>'' = [''user'', u, ''traffic'', d]"
proof -
  note part = split_from_part [where c = "CHR ''>''" and sep' = "''>>''" and sep = "''>>>''" and cur = "[]"]
  have "Split (counter_name u d) ''>>>'' = split_from ''>>>'' [] (''user'' @ ''>>>'' @ (u @ ''>>>'' @ (''traffic'' @ ''>>>'' @ d)))"
    by (simp add: Split_def counter_name_def)
  also have "\<dots> = ''user'' # u # ''traffic'' # split_from ''>>>'' [] d"
    using assms by (subst part, simp, simp, subst part, simp add: plain_id_def, simp, subst part, simp_all)
  also have "split_from ''>>>'' [] d = [d]"
    using assms by (subst split_from_no_sep [where c = "CHR ''>''"]) simp_all
  finally show ?thesis .
qed

lemma counts_counter:
  assumes "plain_id v" "CHR ''>'' \<notin> set d'"
  shows "counts u d \<lparr>stat_name = counter_name v d', stat_value = x\<rparr> \<longleftrightarrow> u = v \<and> d = d'"
  using assms by (auto simp: counts_def Split_counter_name plain_id_def)

lemma counter_entries_cases:
  assumes "e \<in> set (counter_entries us)"
  obtains v st where "(v, st) \<in> set us" "e = \<lparr>stat_name = counter_name v ''uplink'', stat_value = Upload st\<rparr>"
  | v st where "(v, st) \<in> set us" "e = \<lparr>stat_name = counter_name v ''downlink'', stat_value = Download st\<rparr>"
  using assms by (force simp: counter_entries_def)

lemma counts_counter_entries:
  assumes ids: "\<forall>u \<in> fst ` set us. plain_id u" and e: "e \<in> set (counter_entries us)"
    and c: "counts u d e"
  shows "\<exists>st. (u, st) \<in> set us \<and>
    (d = ''uplink'' \<and> stat_value e = Upload st \<or> d = ''downlink'' \<and> stat_value e = Download st)"
  using e
proof (cases rule: counter_entries_cases)
  case (1 v st)
  then have "plain_id v" using ids by force
  with 1 c show ?thesis by (auto simp: counts_counter)
next
  case (2 v st)
  then have "plain_id v" using ids by force
  with 2 c show ?thesis by (auto simp: counts_counter)
qed

lemma parse_counter_entries:
  assumes dist: "distinct (map fst us)" and ids: "\<forall>u \<in> fst ` set us. plain_id u"
    and es: "set es = set (counter_entries us)"
  shows "parseUserStats es = map_of us"
proof (rule ext)
  fix u
  note counted = counts_counter_entries [OF ids]
  show "parseUserStats es u = map_of us u"
  proof (cases "map_of us u")
    case None
    then have "\<not> counts u d e" if "e \<in> set es" for e d
      using that counted [of e u d] by (force simp: es map_of_eq_None_iff)
    with None show ?thesis
      by (auto simp: parseUserStats_def fold_parse_stat)
  next
    case (Some st)
    then have st: "(u, st) \<in> set us"
      by (rule map_of_SomeD)
    then have pid: "plain_id u" using ids by force
    have only: "st' = st" if "(u, st') \<in> set us" for st'
      using dist that st by (rule eq_key_imp_eq_value)
    let ?up = "\<lparr>stat_name = counter_name u ''uplink'', stat_value = Upload st\<rparr>"
    let ?down = "\<lparr>stat_name = counter_name u ''downlink'', stat_value = Download st\<rparr>"
    have mem: "?up \<in> set es" "?down \<in> set es"
      using st by (force simp: es counter_entries_def)+
    have c: "counts u ''uplink'' ?up" "counts u ''downlink'' ?down"
      using pid by (simp_all add: counts_counter)
    have "latest u ''uplink'' y es = Upload st" for y
      using counted only mem(1) c(1) es by (intro latest_const) fastforce+
    moreover have "latest u ''downlink'' y es = Download st" for y
      using counted only mem(2) c(2) es by (intro latest_const) fastforce+
    moreover have "\<exists>e \<in> set es. \<exists>d. counts u d e"
      using mem(1) c(1) by blast
    ultimately show ?thesis
      using Some by (simp add: parseUserStats_def fold_parse_stat)
  qed
qed

section \<open>Properties\<close>

text \<open>
  Every 64-bit value survives the agent's own varint writer and reader, whatever bytes
  follow it, and the reader reports exactly the bytes the writer produced.
\<close>

theorem varint_roundtrip:
  "readVarint (appendVarint [] v @ rest) = (v, length (appendVarint [] v))"
  using readVarint_varint [of v rest] by (simp add: varint_def)

lemma Collect_counters:
  assumes "distinct (map fst us)" "\<forall>u \<in> fst ` set us. plain_id u"
    and "set es = set (counter_entries us)" "list_all sendable es"
    and fits: "length (encode_fields (response_message es)) + 5 < 2 ^ 32"
    and reply: "reply = \<lparr>StatusCode = 200, resp_body = Some (grpcFrame (encode_fields (response_message es))),
      trailer_status = ''0'', header_status = h\<rparr>"
    and rpc: "let req = grpcFrame (encodeQueryStatsRequest ''user>>>'' False) in
      rpc (queryStatsPaths ! 0) req = Some reply \<or>
      (\<exists>r. rpc (queryStatsPaths ! 0) req = Some r \<and> StatusCode r = 404) \<and>
        rpc (queryStatsPaths ! 1) req = Some reply"
  shows "Collect rpc = Inr (map_of us)"
proof -
  have answer: "queryStatsAt rpc path ''user>>>'' False = Inr es"
    if "rpc path (grpcFrame (encodeQueryStatsRequest ''user>>>'' False)) = Some reply" for path
    using that fits assms(4)
    by (simp add: queryStatsAt_def reply grpcUnframe_grpcFrame decode_response_message)
  have unknown: "queryStatsAt rpc path ''user>>>'' False = Inl errUnimplemented"
    if "rpc path (grpcFrame (encodeQueryStatsRequest ''user>>>'' False)) = Some r" "StatusCode r = 404" for path r
    using that by (simp add: queryStatsAt_def)
  have "queryStats rpc ''user>>>'' False = Inr es"
    using rpc by (auto simp: queryStats_def queryStatsPaths_def Let_def dest!: answer dest: unknown)
  then show ?thesis
    using assms(1-3) by (simp add: Collect_def parse_counter_entries)
qed

text \<open>
  C23. End to end, what the agent reads is what sing-box counted. Take any set of users with
  distinct ids that contain no \<^verbatim>\<open>>\<close>, and let the stats service answer (with HTTP 200 and
  gRPC status 0) the protobuf message that lists an uplink and a downlink counter per user,
  in any order, in one gRPC frame. Then \<^verbatim>\<open>Collect\<close> returns exactly those counters, also when
  the first service path is unknown to the server and the second one answers.
\<close>

theorem Collect_reads_counters:
  assumes "distinct (map fst us)" "\<forall>u \<in> fst ` set us. plain_id u"
    and "set es = set (counter_entries us)" "list_all sendable es"
    and fits: "length (encode_fields (response_message es)) + 5 < 2 ^ 32"
    and reply: "reply = \<lparr>StatusCode = 200, resp_body = Some (grpcFrame (encode_fields (response_message es))),
      trailer_status = ''0'', header_status = h\<rparr>"
    and rpc: "let req = grpcFrame (encodeQueryStatsRequest ''user>>>'' False) in
      rpc (queryStatsPaths ! 0) req = Some reply \<or>
      (\<exists>r. rpc (queryStatsPaths ! 0) req = Some r \<and> StatusCode r = 404) \<and>
        rpc (queryStatsPaths ! 1) req = Some reply"
  shows "Collect rpc = Inr (map_of us)"
  by (rule Collect_counters [OF assms])

definition example_rpc :: transport where
  "example_rpc path req =
     (if path = queryStatsPaths ! 0 then
        Some \<lparr>StatusCode = 404, resp_body = None, trailer_status = [], header_status = []\<rparr>
      else Some \<lparr>StatusCode = 200, resp_body = Some (grpcFrame (encode_fields (response_message
               (rev (counter_entries [(''u1'', \<lparr>Upload = 300, Download = 0\<rparr>)]))))),
             trailer_status = ''0'', header_status = []\<rparr>)"

lemma example_Collect:
  "Collect example_rpc = Inr [''u1'' \<mapsto> \<lparr>Upload = 300, Download = 0\<rparr>]"
proof -
  let ?us = "[(''u1'', \<lparr>Upload = 300, Download = 0\<rparr>)]"
  let ?es = "rev (counter_entries ?us)"
  have small: "length (encode_fields (response_message ?es)) + 5 < 2 ^ 32" "list_all sendable ?es"
    by (simp_all add: counter_entries_def counter_name_def response_message_def stat_message_def
        encode_fields_def field_key_def varint_eq sendable_def is_i64_def)
  have "Collect example_rpc = Inr (map_of ?us)"
    by (rule Collect_counters [where es = ?es and h = "[]", OF _ _ _ small(2,1) refl])
      (auto simp: plain_id_def example_rpc_def queryStatsPaths_def Let_def)
  then show ?thesis by simp
qed

theorem Collect_reads_counters_witness:
  "Collect example_rpc = Inr [''u1'' \<mapsto> \<lparr>Upload = 300, Download = 0\<rparr>]"
proof -
  let ?us = "[(''u1'', \<lparr>Upload = 300, Download = 0\<rparr>)]"
  let ?es = "rev (counter_entries ?us)"
  have small: "length (encode_fields (response_message ?es)) + 5 < 2 ^ 32" "list_all sendable ?es"
    by (simp_all add: counter_entries_def counter_name_def response_message_def stat_message_def
        encode_fields_def field_key_def varint_eq sendable_def is_i64_def)
  have "Collect example_rpc = Inr (map_of ?us)"
    by (rule Collect_reads_counters [where es = ?es and h = "[]", OF _ _ _ small(2,1) refl])
      (auto simp: plain_id_def example_rpc_def queryStatsPaths_def Let_def)
  then show ?thesis by simp
qed

end
