(* ===== verification/MachineId.thy ===== *)
theory MachineId
  imports Encoding "HOL-Library.Char_ord" "HOL-Library.List_Lexorder" "HOL-Library.Multiset"
begin

text \<open>
  \<^verbatim>\<open>internal/enroll/machineid.go\<close>: the fingerprint of the machine, by which the backend tells a
  reinstallation from a new machine. The files, the network interfaces and the random bytes are
  inputs; the file with the random fingerprint is the state.
\<close>

section \<open>The sources\<close>

record net_interface =
  if_Name :: string
  if_Loopback :: bool
  if_MAC :: string

text \<open>A file is \<open>None\<close> when it cannot be read; \<open>interfaces\<close> when they cannot be listed.\<close>

record machine =
  etc_machine_id :: "string option"
  product_uuid :: "string option"
  interfaces :: "net_interface list option"

definition readTrimmed :: "string option \<Rightarrow> string" where
  "readTrimmed file = (case file of None \<Rightarrow> '''' | Some b \<Rightarrow> TrimSpace b)"

definition to_lower :: "char \<Rightarrow> char" where
  "to_lower c = (if 65 \<le> (of_char c :: nat) \<and> (of_char c :: nat) \<le> 90 then char_of ((of_char c :: nat) + 32) else c)"

definition skipped_interface :: "net_interface \<Rightarrow> bool" where
  "skipped_interface i \<longleftrightarrow> if_Loopback i \<or> HasPrefix (if_Name i) ''docker'' \<or> HasPrefix (if_Name i) ''veth'' \<or>
     HasPrefix (if_Name i) ''br-'' \<or> HasPrefix (if_Name i) ''virbr''"

fun first_mac :: "net_interface list \<Rightarrow> string" where
  "first_mac [] = ''''"
| "first_mac (i # is) =
     (if skipped_interface i then first_mac is
      else if if_MAC i \<noteq> '''' then map to_lower (if_MAC i)
      else first_mac is)"

definition firstPhysicalMAC :: "machine \<Rightarrow> string" where
  "firstPhysicalMAC m = (case interfaces m of None \<Rightarrow> '''' | Some is \<Rightarrow> first_mac (sort_key if_Name is))"

section \<open>The fingerprint\<close>

text \<open>How a write of the file ends; a failed one may leave anything.\<close>

datatype id_write = IdMkdirFails | IdWriteFails "string option" | IdWritten

datatype id_error = NoRandom | NoDataDir | NotPersisted

definition persistedRandomID :: "byte list option \<Rightarrow> id_write \<Rightarrow> string option \<Rightarrow> string option \<times> (id_error + string)" where
  "persistedRandomID rand w file =
     (let existing = readTrimmed file in
      if length existing = 64 then (file, Inr existing)
      else
        (case rand of
           None \<Rightarrow> (file, Inl NoRandom)
         | Some buf \<Rightarrow>
             (let i = hex_encode buf in
              case w of
                IdMkdirFails \<Rightarrow> (file, Inl NoDataDir)
              | IdWriteFails left \<Rightarrow> (left, Inl NotPersisted)
              | IdWritten \<Rightarrow> (Some i, Inr i))))"

definition MachineID :: "byte list option \<Rightarrow> id_write \<Rightarrow> machine \<Rightarrow> string option \<Rightarrow> string option \<times> (id_error + string)" where
  "MachineID rand w m file =
     (let mid = readTrimmed (etc_machine_id m); uuid = readTrimmed (product_uuid m);
          uuid = (if uuid = '''' then firstPhysicalMAC m else uuid)
      in if mid = '''' \<and> uuid = '''' then persistedRandomID rand w file
         else (file, Inr (hex_encode (sha256 (bytes_of_string (mid @ ''|'' @ uuid))))))"

section \<open>The fingerprint stays\<close>

lemma persistedRandomID_stable:
  assumes "\<And>buf. rand = Some buf \<Longrightarrow> length buf = 32" "persistedRandomID rand w file = (file', Inr i)"
  shows "persistedRandomID rand' w' file' = (file', Inr i) \<and> length i = 64"
  using assms by (auto simp: persistedRandomID_def readTrimmed_def TrimSpace_hex_encode Let_def
      split: if_splits option.splits id_write.splits)

text \<open>
  The fingerprint of a machine is stable: once it has been determined, later starts on the same
  machine find the same 64 characters, whatever the random generator yields then, and leave the
  file alone. Where the machine has an identity of its own, the fingerprint does not depend on
  the data directory, so a reinstallation into an empty one is recognised.
\<close>

theorem machine_id_is_stable:
  assumes "\<And>buf. rand = Some buf \<Longrightarrow> length buf = 32" "MachineID rand w m file = (file', Inr i)"
  shows "MachineID rand' w' m file' = (file', Inr i) \<and> length i = 64 \<and>
    (readTrimmed (etc_machine_id m) \<noteq> '''' \<or> readTrimmed (product_uuid m) \<noteq> '''' \<or> firstPhysicalMAC m \<noteq> '''' \<longrightarrow>
      file' = file \<and> snd (MachineID rand' w' m None) = Inr i)"
proof (cases "readTrimmed (etc_machine_id m) = '''' \<and>
    (if readTrimmed (product_uuid m) = '''' then firstPhysicalMAC m else readTrimmed (product_uuid m)) = ''''")
  case True
  then have "persistedRandomID rand w file = (file', Inr i)"
    using assms(2) by (simp add: MachineID_def Let_def)
  from persistedRandomID_stable [OF assms(1) this] show ?thesis
    using True by (auto simp: MachineID_def Let_def split: if_splits)
next
  case False
  then show ?thesis
    using assms(2) by (auto simp: MachineID_def Let_def split: if_splits)
qed

definition sample_machine :: machine where
  "sample_machine = \<lparr>etc_machine_id = None, product_uuid = Some '''', interfaces = None\<rparr>"

lemma machine_id_is_stable_witness:
  "MachineID None IdMkdirFails sample_machine (Some (hex_encode (replicate 32 5))) =
     (Some (hex_encode (replicate 32 5)), Inr (hex_encode (replicate 32 5)))"
proof -
  have "TrimSpace '''' = ''''"
    by (simp add: TrimSpace_def strip_none white_spaces_def HasPrefix_def)
  then have "MachineID (Some (replicate 32 5)) IdWritten sample_machine None =
      (Some (hex_encode (replicate 32 5)), Inr (hex_encode (replicate 32 5)))"
    by (simp add: MachineID_def sample_machine_def readTrimmed_def firstPhysicalMAC_def persistedRandomID_def Let_def)
  from machine_id_is_stable [OF _ this, of None IdMkdirFails] show ?thesis
    by simp
qed

section \<open>Which network interface counts\<close>

lemma first_mac_filter: "first_mac (filter (\<lambda>i. \<not> skipped_interface i) is) = first_mac is"
  by (induction "is") simp_all

text \<open>Virtual interfaces that come and go, and the order of the list, do not matter.\<close>

lemma firstPhysicalMAC_physical:
  assumes "distinct (map if_Name is)" "mset (filter (\<lambda>i. \<not> skipped_interface i) is) = mset (filter (\<lambda>i. \<not> skipped_interface i) js)"
  shows "firstPhysicalMAC (m\<lparr>interfaces := Some is\<rparr>) = firstPhysicalMAC (m\<lparr>interfaces := Some js\<rparr>)"
proof -
  let ?real = "filter (\<lambda>i. \<not> skipped_interface i)"
  have "inj_on if_Name (set (?real is))"
    using assms(1) by (auto simp: distinct_map inj_on_def)
  then have "sort_key if_Name (?real is) = sort_key if_Name (?real js)"
    using assms(2) by (metis mset_sort set_mset_mset set_sort sort_key_inj_key_eq sorted_sort_key)
  then have "first_mac (sort_key if_Name is) = first_mac (sort_key if_Name js)"
    using first_mac_filter by (metis filter_sort)
  then show ?thesis
    by (simp add: firstPhysicalMAC_def)
qed

section \<open>Any history of starts\<close>

definition id_boot where
  "id_boot m e file = (case e of (rand, w) \<Rightarrow> MachineID rand w m file)"

definition id_sane :: "byte list option \<times> id_write \<Rightarrow> bool" where
  "id_sane e \<longleftrightarrow> (\<forall>buf. fst e = Some buf \<longrightarrow> length buf = 32)"

interpretation machine_id: made_once "id_boot m" "\<lambda>i. i" id_sane
proof (unfold_locales, goal_cases)
  case (1 e e' f f' v)
  then show ?case
    using machine_id_is_stable [of "fst e" "snd e" m f f' v "fst e'" "snd e'"]
    by (cases e; cases e') (auto simp: id_boot_def id_sane_def)
qed

end
