(* ===== verification/PublicIP.thy ===== *)
theory PublicIP
  imports NetIP Urls
begin

text \<open>
  \<^verbatim>\<open>internal/enroll/publicip.go\<close>: finding out the machine's public addresses by asking several
  services in turn. What each service answers is an input.
\<close>

section \<open>Detection\<close>

definition IsPublicIPv6 :: "string \<Rightarrow> bool" where
  "IsPublicIPv6 s =
     (case ParseIP (Trim s ''[]'') of
        None \<Rightarrow> False
      | Some ip \<Rightarrow> if To4 ip \<noteq> None \<or> \<not> IsGlobalUnicast ip then False else ip ! 0 AND 0xFE \<noteq> 0xFC)"

text \<open>\<open>NoAnswer\<close> covers every error up to reading the body; \<^verbatim>\<open>IP.String\<close> of a nil address is \<^verbatim>\<open><nil>\<close>.\<close>

datatype ip_answer = NoAnswer | IpAnswer int string

definition String_or_nil :: "byte list option \<Rightarrow> string" where
  "String_or_nil parsed = (case parsed of None \<Rightarrow> ''<nil>'' | Some ip \<Rightarrow> IP_String ip)"

definition fetchIP :: "ip_answer \<Rightarrow> bool \<Rightarrow> string" where
  "fetchIP answer wantV6 =
     (case answer of
        NoAnswer \<Rightarrow> ''''
      | IpAnswer code body \<Rightarrow>
          if code \<noteq> 200 then ''''
          else
            (let ip = TrimSpace (take 64 body); parsed = ParseIP ip
             in if wantV6 then (if \<not> IsPublicIPv6 ip then '''' else String_or_nil parsed)
                else (case parsed of
                        None \<Rightarrow> ''''
                      | Some a \<Rightarrow> if To4 a = None then '''' else IP_String a)))"

fun first_answer :: "bool \<Rightarrow> ip_answer list \<Rightarrow> string" where
  "first_answer wantV6 [] = ''''"
| "first_answer wantV6 (a # as) = (let ip = fetchIP a wantV6 in if ip \<noteq> '''' then ip else first_answer wantV6 as)"

text \<open>The answers of the endpoints, in their order.\<close>

definition DetectPublicIP :: "ip_answer list \<Rightarrow> string" where
  "DetectPublicIP answers = first_answer False answers"

definition DetectPublicIPv6 :: "ip_answer list \<Rightarrow> string" where
  "DetectPublicIPv6 answers = first_answer True answers"

section \<open>What is detected\<close>

lemma first_answer_cases:
  "first_answer v6 as = '''' \<or> (\<exists>a \<in> set as. first_answer v6 as = fetchIP a v6)"
  by (induction as) (auto simp: Let_def)

lemma Trim_none: "set s \<inter> set cutset = {} \<Longrightarrow> Trim s cutset = s"
proof -
  assume s: "set s \<inter> set cutset = {}"
  have "dropWhile (\<lambda>c. c \<in> set cutset) xs = xs" if "set xs \<inter> set cutset = {}" for xs
    using that by (cases xs) auto
  then show ?thesis
    using s by (simp add: Trim_def)
qed

lemma IP_String_no_brackets:
  assumes "length ip = 16"
  shows "set (IP_String ip) \<inter> set ''[]'' = {}"
proof -
  have c: "hex_val (CHR ''['') = None" "hex_val (CHR '']'') = None" "\<not> is_digit (CHR ''['')" "\<not> is_digit (CHR '']'')"
    by (simp_all add: hex_val_def is_digit_def)
  show ?thesis
  proof (cases "To4 ip")
    case None
    then show ?thesis
      using show_ipv6_chars(2) [OF assms] c by (fastforce simp: IP_String_def)
  next
    case (Some f)
    then show ?thesis
      using digits_no [OF c(3)] digits_no [OF c(4)] by (auto simp: IP_String_def show_ipv4_def)
  qed
qed

text \<open>The body of an answer is not an address in brackets.\<close>

definition plain_answer :: "ip_answer \<Rightarrow> bool" where
  "plain_answer a \<longleftrightarrow> (case a of NoAnswer \<Rightarrow> True
     | IpAnswer code body \<Rightarrow> Trim (TrimSpace (take 64 body)) ''[]'' = TrimSpace (take 64 body))"

text \<open>The addresses the services report: an answer with status 200 that parses.\<close>

definition service_reported :: "ip_answer list \<Rightarrow> byte list \<Rightarrow> bool" where
  "service_reported answers ip \<longleftrightarrow>
     (\<exists>body. IpAnswer 200 body \<in> set answers \<and> ParseIP (TrimSpace (take 64 body)) = Some ip)"

lemma IP_String_not_Nil: "length ip = 16 \<Longrightarrow> IP_String ip \<noteq> []"
  using ParseIP_String [of ip] by (auto simp: ParseIP_def)

lemma first_answer_empty: "first_answer v6 as = '''' \<longleftrightarrow> (\<forall>a \<in> set as. fetchIP a v6 = '''')"
  by (induction as) (auto simp: Let_def)

lemma fetchIP_v6:
  assumes "plain_answer a" "fetchIP a True \<noteq> ''''"
  shows "\<exists>body ip. a = IpAnswer 200 body \<and> ParseIP (TrimSpace (take 64 body)) = Some ip \<and> fetchIP a True = IP_String ip \<and>
    IsPublicIPv6 (IP_String ip)"
proof -
  obtain code body where a: "a = IpAnswer code body"
    using assms(2) by (cases a) (auto simp: fetchIP_def)
  let ?t = "TrimSpace (take 64 body)"
  have t: "Trim ?t ''[]'' = ?t" "IsPublicIPv6 ?t" "fetchIP a True = String_or_nil (ParseIP ?t)" "code = 200"
    using assms by (auto simp: a fetchIP_def plain_answer_def Let_def split: if_splits)
  then obtain ip where ip: "ParseIP ?t = Some ip"
    by (auto simp: IsPublicIPv6_def split: option.splits)
  note len = length_ParseIP [OF ip]
  have "IsPublicIPv6 (IP_String ip)"
    using t(1,2) ip ParseIP_String [OF len] Trim_none [OF IP_String_no_brackets [OF len]] by (simp add: IsPublicIPv6_def)
  then show ?thesis
    using t(3,4) ip a by (auto simp: String_or_nil_def)
qed

lemma fetchIP_v4:
  assumes "fetchIP a False \<noteq> ''''"
  shows "\<exists>body ip f. a = IpAnswer 200 body \<and> ParseIP (TrimSpace (take 64 body)) = Some ip \<and> To4 ip = Some f \<and>
    fetchIP a False = show_ipv4 f \<and> ParseIP (fetchIP a False) = Some ip"
proof -
  obtain code body where a: "a = IpAnswer code body"
    using assms by (cases a) (auto simp: fetchIP_def)
  let ?t = "TrimSpace (take 64 body)"
  obtain ip f where ip: "ParseIP ?t = Some ip" "To4 ip = Some f" "fetchIP a False = IP_String ip" "code = 200"
    using assms by (auto simp: a fetchIP_def Let_def split: if_splits option.splits)
  then show ?thesis
    using a ParseIP_String [OF length_ParseIP [OF ip(1)]] by (auto simp: IP_String_def)
qed

lemma DetectPublicIPv6_public:
  assumes "list_all plain_answer answers" "DetectPublicIPv6 answers \<noteq> ''''"
  shows "\<exists>ip. service_reported answers ip \<and> DetectPublicIPv6 answers = IP_String ip \<and> IsPublicIPv6 (DetectPublicIPv6 answers)"
proof -
  obtain a where a: "a \<in> set answers" "DetectPublicIPv6 answers = fetchIP a True"
    using first_answer_cases [of True answers] assms(2) by (auto simp: DetectPublicIPv6_def)
  then show ?thesis
    using fetchIP_v6 [of a] assms by (auto simp: list_all_iff service_reported_def)
qed

lemma DetectPublicIP_v4:
  assumes "DetectPublicIP answers \<noteq> ''''"
  shows "\<exists>ip f. service_reported answers ip \<and> To4 ip = Some f \<and> DetectPublicIP answers = show_ipv4 f \<and>
    ParseIP (DetectPublicIP answers) = Some ip"
proof -
  obtain a where "a \<in> set answers" "DetectPublicIP answers = fetchIP a False"
    using first_answer_cases [of False answers] assms by (auto simp: DetectPublicIP_def)
  then show ?thesis
    using fetchIP_v4 [of a] assms unfolding service_reported_def by auto
qed

text \<open>An address that one of the services reports is not missed.\<close>

lemma DetectPublicIP_found:
  assumes "service_reported answers ip" "To4 ip \<noteq> None"
  shows "DetectPublicIP answers \<noteq> ''''"
proof -
  obtain body where b: "IpAnswer 200 body \<in> set answers" "ParseIP (TrimSpace (take 64 body)) = Some ip"
    using assms(1) by (auto simp: service_reported_def)
  have "fetchIP (IpAnswer 200 body) False \<noteq> ''''"
    using b(2) assms(2) IP_String_not_Nil [OF length_ParseIP [OF b(2)]] by (simp add: fetchIP_def)
  then show ?thesis
    using b(1) by (auto simp: DetectPublicIP_def first_answer_empty)
qed

text \<open>
  An IPv6 answer in brackets is accepted but reported as \<^verbatim>\<open><nil>\<close>: the check trims brackets, the
  parsing that follows does not.
\<close>

lemma sample_ipv6: "IsPublicIPv6 ''[2001::1]''" "ParseIP ''[2001::1]'' = None"
  by code_simp+

lemma bracketed_answer_is_nil: "fetchIP (IpAnswer 200 ''[2001::1]'') True = ''<nil>''"
proof -
  have t: "TrimSpace ''[2001::1]'' = ''[2001::1]''"
    by (rule TrimSpace_solid) (simp_all add: solid_def)
  show ?thesis
    by (simp add: fetchIP_def t String_or_nil_def sample_ipv6)
qed

lemma sample_detected:
  "DetectPublicIP [NoAnswer, IpAnswer 200 ''192.0.2.7''] = ''192.0.2.7''"
  "DetectPublicIPv6 [IpAnswer 503 '''', IpAnswer 200 ''2001::1''] \<noteq> ''''"
  "list_all plain_answer [IpAnswer 503 '''', IpAnswer 200 ''2001::1'']"
proof -
  let ?as = "[IpAnswer 503 '''', IpAnswer 200 ''2001::1'']"
  have "TrimSpace ''192.0.2.7'' = ''192.0.2.7''"
    by (rule TrimSpace_solid) (simp_all add: solid_def)
  moreover have "ParseIP ''192.0.2.7'' = Some (v4_mapped [192, 0, 2, 7])" "IP_String (v4_mapped [192, 0, 2, 7]) = ''192.0.2.7''"
    by code_simp+
  moreover have "To4 (v4_mapped [192, 0, 2, 7]) \<noteq> None"
    by (simp add: To4_def v4_mapped_def)
  ultimately have v4: "DetectPublicIP [NoAnswer, IpAnswer 200 ''192.0.2.7''] = ''192.0.2.7''"
    by (simp add: DetectPublicIP_def fetchIP_def)
  have "TrimSpace ''2001::1'' = ''2001::1''" "TrimSpace '''' = ''''"
    by (rule TrimSpace_solid; simp add: solid_def) (simp add: TrimSpace_def strip_none white_spaces_def HasPrefix_def)
  moreover have "take 64 ''2001::1'' = ''2001::1''"
    by simp
  moreover have "Trim ''2001::1'' ''[]'' = ''2001::1''"
    by (rule Trim_none) simp
  ultimately have plain: "list_all plain_answer ?as" and t: "TrimSpace (take 64 ''2001::1'') = ''2001::1''"
    by (simp_all add: plain_answer_def Trim_def)
  have t: "TrimSpace (take 64 ''2001::1'') = ''2001::1''" "IsPublicIPv6 ''2001::1''"
    using t sample_ipv6(1) by (simp_all add: IsPublicIPv6_def Trim_def)
  obtain ip where ip: "ParseIP ''2001::1'' = Some ip"
    using t(2) by (cases "ParseIP ''2001::1''") (simp_all add: IsPublicIPv6_def Trim_none)
  then have "DetectPublicIPv6 ?as = IP_String ip"
    using t IP_String_not_Nil [OF length_ParseIP [OF ip]]
    by (simp add: DetectPublicIPv6_def fetchIP_def String_or_nil_def del: take_Cons_numeral)
  then show "DetectPublicIP [NoAnswer, IpAnswer 200 ''192.0.2.7''] = ''192.0.2.7''" "DetectPublicIPv6 ?as \<noteq> ''''"
    "list_all plain_answer ?as"
    using plain v4 IP_String_not_Nil [OF length_ParseIP [OF ip]] by simp_all
qed

end
