(* ===== verification/SelfCert.thy ===== *)
theory SelfCert
  imports Prelude
begin

text \<open>
  \<^verbatim>\<open>internal/config/selfcert.go\<close>: the self-signed certificate of the TLS protocols. Making a key
  pair and a certificate belongs to the standard library; its outcome, and how the two writes
  end, are inputs. The directory holds the two files.
\<close>

section \<open>The two files\<close>

record cert_dir =
  self_crt :: "string option"
  self_key :: "string option"

text \<open>A write that fails leaves something (\<open>None\<close>: no file).\<close>

datatype pem_write = PemWritten | PemFails "string option"

record cert_env =
  cert_mkdir :: bool
  new_pair :: "(string \<times> string) option"
  crt_write :: pem_write
  key_write :: pem_write

datatype cert_error = CertMkdir | CertMake | CertWrite | KeyWrite

text \<open>\<open>new_pair\<close> is the certificate and its key in PEM, \<open>None\<close> when one of the five steps to it fails.\<close>

definition EnsureSelfSignedCert ::
    "cert_env \<Rightarrow> string \<Rightarrow> cert_dir \<Rightarrow> cert_dir \<times> (cert_error + string \<times> string)" where
  "EnsureSelfSignedCert env dir d =
     (let paths = (dir @ ''/self.crt'', dir @ ''/self.key'') in
      if self_crt d \<noteq> None \<and> self_key d \<noteq> None then (d, Inr paths)
      else if \<not> cert_mkdir env then (d, Inl CertMkdir)
      else
        (case new_pair env of
           None \<Rightarrow> (d, Inl CertMake)
         | Some (certPEM, keyPEM) \<Rightarrow>
             (case crt_write env of
                PemFails left \<Rightarrow> (d\<lparr>self_crt := left\<rparr>, Inl CertWrite)
              | PemWritten \<Rightarrow>
                  (let d = d\<lparr>self_crt := Some certPEM\<rparr> in
                   case key_write env of
                     PemFails left \<Rightarrow> (d\<lparr>self_key := left\<rparr>, Inl KeyWrite)
                   | PemWritten \<Rightarrow> (d\<lparr>self_key := Some keyPEM\<rparr>, Inr paths)))))"

section \<open>The certificate stays the same\<close>

text \<open>The two files belong together; \<open>pair\<close> says whether a certificate and a key do.\<close>

definition matching :: "(string \<Rightarrow> string \<Rightarrow> bool) \<Rightarrow> cert_dir \<Rightarrow> bool" where
  "matching pair d \<longleftrightarrow> (case (self_crt d, self_key d) of (Some c, Some k) \<Rightarrow> pair c k | _ \<Rightarrow> True)"

text \<open>
  The certificate of a node is made once: after a call that succeeded, both files are there and
  every later call reuses them, whatever the generator would yield then. If the files belonged
  together before, or one was missing, they belong together afterwards, and while no write fails
  the call itself fails only for want of a directory or of a key pair.
\<close>

theorem certificate_is_stable:
  assumes "\<And>c k. new_pair env = Some (c, k) \<Longrightarrow> pair c k" "matching pair d"
    and "EnsureSelfSignedCert env dir d = (d', r)" "crt_write env = PemWritten" "key_write env = PemWritten"
  shows "matching pair d' \<and>
    (case r of
       Inr paths \<Rightarrow> self_crt d' \<noteq> None \<and> self_key d' \<noteq> None \<and> EnsureSelfSignedCert env' dir d' = (d', Inr paths)
     | Inl err \<Rightarrow> d' = d \<and> (\<not> cert_mkdir env \<or> new_pair env = None))"
  using assms by (auto simp: EnsureSelfSignedCert_def matching_def Let_def split: if_splits option.splits prod.splits)

lemma certificate_is_stable_witness:
  "let env = \<lparr>cert_mkdir = True, new_pair = Some (''crt'', ''key''), crt_write = PemWritten, key_write = PemWritten\<rparr>;
       d = fst (EnsureSelfSignedCert env ''data'' \<lparr>self_crt = None, self_key = None\<rparr>)
   in EnsureSelfSignedCert (env\<lparr>new_pair := Some (''c2'', ''k2'')\<rparr>) ''data'' d = (d, Inr (''data/self.crt'', ''data/self.key''))"
  using certificate_is_stable [of "\<lparr>cert_mkdir = True, new_pair = Some (''crt'', ''key''), crt_write = PemWritten, key_write = PemWritten\<rparr>"
      "\<lambda>_ _. True" "\<lparr>self_crt = None, self_key = None\<rparr>" "''data''" "\<lparr>self_crt = Some ''crt'', self_key = Some ''key''\<rparr>"
      "Inr (''data/self.crt'', ''data/self.key'')"]
  by (simp add: EnsureSelfSignedCert_def matching_def Let_def)

text \<open>
  The files are written in place and only their existence is tested: what a failed write of the
  key leaves behind is taken for the key from then on.
\<close>

lemma partial_key_is_reused:
  "\<exists>env d d'. self_crt d = None \<and> self_key d = None \<and> EnsureSelfSignedCert env dir d = (d', Inl KeyWrite) \<and>
     self_key d' = Some '''' \<and> (\<forall>env'. EnsureSelfSignedCert env' dir d' = (d', Inr (dir @ ''/self.crt'', dir @ ''/self.key'')))"
  by (intro exI [of _ "\<lparr>cert_mkdir = True, new_pair = Some (''crt'', ''key''), crt_write = PemWritten, key_write = PemFails (Some '''')\<rparr>"]
      exI [of _ "\<lparr>self_crt = None, self_key = None\<rparr>"] exI [of _ "\<lparr>self_crt = Some ''crt'', self_key = Some ''''\<rparr>"])
    (simp add: EnsureSelfSignedCert_def Let_def)

section \<open>Any history of starts\<close>

text \<open>The result is the pair of files that is then used.\<close>

definition cert_boot where
  "cert_boot dir env d =
     (case EnsureSelfSignedCert env dir d of
        (d', Inl err) \<Rightarrow> (d', Inl err)
      | (d', Inr paths) \<Rightarrow> (d', Inr (self_crt d', self_key d')))"

interpretation certificate: made_once "cert_boot dir" "\<lambda>c. c" "\<lambda>_. True"
  by unfold_locales
    (auto simp: cert_boot_def EnsureSelfSignedCert_def Let_def split: if_splits option.splits prod.splits sum.splits pem_write.splits)

end
