(* ===== verification/Tunnel.thy ===== *)
theory Tunnel
  imports Urls
begin

text \<open>
  \<^verbatim>\<open>internal/tunnel/client.go\<close>: the agent's side of the reverse tunnels. A manager keeps one
  entry per session; a connection is a number, and its entry is the function that cancels it.
  The state space of \<open>tstep\<close> has the goroutines too: the calls of \<^verbatim>\<open>Open\<close> between their two
  critical sections and the goroutines that serve a connection.
\<close>

section \<open>The manager\<close>

record Manager =
  t_nodeID :: string
  t_nodeSecret :: string
  active :: "string \<rightharpoonup> nat"
  maxOpen :: int

definition NewManager :: "string \<Rightarrow> string \<Rightarrow> int \<Rightarrow> Manager" where
  "NewManager nodeID nodeSecret n =
     \<lparr>t_nodeID = nodeID, t_nodeSecret = nodeSecret, active = Map.empty, maxOpen = (if n \<le> 0 then 3 else n)\<rparr>"

datatype open_error = SessionExists string | TooMany int | DialFailed string

text \<open>The first critical section of \<^verbatim>\<open>Open\<close>, and the second.\<close>

definition open_check :: "string \<Rightarrow> Manager \<Rightarrow> open_error option" where
  "open_check sid m =
     (if sid \<in> dom (active m) then Some (SessionExists sid)
      else if maxOpen m \<le> int (card (dom (active m))) then Some (TooMany (maxOpen m))
      else None)"

definition open_insert :: "string \<Rightarrow> nat \<Rightarrow> Manager \<Rightarrow> Manager" where
  "open_insert sid conn m = m\<lparr>active := (active m)(sid \<mapsto> conn)\<rparr>"

text \<open>\<^verbatim>\<open>Open\<close> when nothing runs between them; \<open>dialed\<close> is what \<^verbatim>\<open>dial\<close> answers.\<close>

definition Open :: "(string + nat) \<Rightarrow> string \<Rightarrow> Manager \<Rightarrow> Manager \<times> open_error option" where
  "Open dialed sid m =
     (case open_check sid m of
        Some err \<Rightarrow> (m, Some err)
      | None \<Rightarrow>
          (case dialed of
             Inl err \<Rightarrow> (m, Some (DialFailed err))
           | Inr conn \<Rightarrow> (open_insert sid conn m, None)))"

text \<open>The end of \<^verbatim>\<open>serve\<close>.\<close>

definition serve_end :: "string \<Rightarrow> Manager \<Rightarrow> Manager" where
  "serve_end sid m = m\<lparr>active := (active m)(sid := None)\<rparr>"

text \<open>The connections \<^verbatim>\<open>CloseAll\<close> cancels.\<close>

definition CloseAll :: "Manager \<Rightarrow> nat set" where
  "CloseAll m = ran (active m)"

definition ActiveCount :: "Manager \<Rightarrow> nat" where
  "ActiveCount m = card (dom (active m))"

definition shortID :: "string \<Rightarrow> string" where
  "shortID s = (if 8 < length s then take 8 s else s)"

section \<open>The address that is dialled\<close>

text \<open>
  \<^verbatim>\<open>u.Query()\<close> on the query of the URL: malformed pairs are dropped. \<^verbatim>\<open>url.Values\<close> is the list
  of its pairs; \<^verbatim>\<open>Set\<close> replaces all values of a key.
\<close>

definition url_Query :: "string \<Rightarrow> (string \<times> string) list" where
  "url_Query raw = List.map_filter parse_pair (filter (\<lambda>p. p \<noteq> [] \<and> CHR '';'' \<notin> set p) (Split raw ''&''))"

definition values_Set :: "string \<Rightarrow> string \<Rightarrow> (string \<times> string) list \<Rightarrow> (string \<times> string) list" where
  "values_Set k v vs = filter (\<lambda>p. fst p \<noteq> k) vs @ [(k, v)]"

definition dial_query :: "Manager \<Rightarrow> string \<Rightarrow> string" where
  "dial_query m raw = Encode (values_Set ''node_id'' (t_nodeID m) (url_Query raw))"

definition dial_authorization :: "Manager \<Rightarrow> string" where
  "dial_authorization m = ''Bearer '' @ t_nodeSecret m"

lemma url_Query_Encode: "vs \<noteq> [] \<Longrightarrow> url_Query (Encode vs) = sort_key fst vs"
proof -
  assume "vs \<noteq> []"
  have "CHR '';'' \<notin> set (QueryEscape s)" for s
    by (rule not_in_escape) (simp_all add: shouldEscape_def is_alnum_def)
  then have "filter (\<lambda>p. p \<noteq> [] \<and> CHR '';'' \<notin> set p) (map encode_pair ps) = map encode_pair ps" for ps
    by (auto simp: filter_id_conv)
  then show ?thesis
    unfolding url_Query_def Split_Encode [OF \<open>vs \<noteq> []\<close>] by (simp only: parse_pairs_encoded)
qed

text \<open>
  The backend can tell which node dials: whatever the query of the tunnel's URL is, and
  whatever \<^verbatim>\<open>node_id\<close> it already has, the query that is sent decodes to exactly one \<^verbatim>\<open>node_id\<close>,
  the node's own, next to the other pairs unchanged.
\<close>

theorem dial_identifies_the_node:
  "filter (\<lambda>p. fst p = ''node_id'') (url_Query (dial_query m raw)) = [(''node_id'', t_nodeID m)] \<and>
   filter (\<lambda>p. fst p \<noteq> ''node_id'') (url_Query (dial_query m raw)) =
     sort_key fst (filter (\<lambda>p. fst p \<noteq> ''node_id'') (url_Query raw))"
proof -
  let ?vs = "values_Set ''node_id'' (t_nodeID m) (url_Query raw)"
  have "url_Query (dial_query m raw) = sort_key fst ?vs"
    unfolding dial_query_def by (rule url_Query_Encode) (simp add: values_Set_def)
  moreover have "filter (\<lambda>p. fst p = k) (sort_key fst ps) = filter (\<lambda>p. fst p = k) ps" for k :: string and ps :: "(string \<times> string) list"
    using sort_key_stable [of fst k ps] by (simp add: eq_commute)
  moreover have "filter P (sort_key f xs) = sort_key f (filter P xs)" for P and f :: "string \<times> string \<Rightarrow> string" and xs
    by (rule filter_sort)
  ultimately show ?thesis
    by (simp add: values_Set_def filter_empty_conv)
qed

section \<open>Interleavings\<close>

text \<open>
  \<open>dialing\<close> are the calls of \<^verbatim>\<open>Open\<close> that are dialling, \<open>serving\<close> the goroutines that serve a
  connection. A goroutine may end at any time: the client leaves, or its context is cancelled.
\<close>

record tunnels =
  tm :: Manager
  dialing :: "string list"
  serving :: "(string \<times> nat) list"
  cancelled :: "nat set"
  next_conn :: nat

datatype tlabel = TBegin string | TRefused string | TDialed string | TDialFailed string | TEnd string | TCloseAll

text \<open>
  At most \<open>c\<close> calls of \<^verbatim>\<open>Open\<close> run at the same time. In the agent \<open>c\<close> is 1: the loop that polls
  for commands runs them one after the other and \<^verbatim>\<open>Open\<close> returns when the connection stands.
\<close>

inductive tstep :: "nat \<Rightarrow> tunnels \<Rightarrow> tlabel \<Rightarrow> tunnels \<Rightarrow> bool" for c where
  t_begin: "open_check sid (tm w) = None \<Longrightarrow> length (dialing w) < c \<Longrightarrow>
    tstep c w (TBegin sid) (w\<lparr>dialing := dialing w @ [sid]\<rparr>)"
| t_refused: "open_check sid (tm w) = Some err \<Longrightarrow> tstep c w (TRefused sid) w"
| t_dialed: "sid \<in> set (dialing w) \<Longrightarrow>
    tstep c w (TDialed sid) (w\<lparr>dialing := remove1 sid (dialing w), tm := open_insert sid (next_conn w) (tm w),
      serving := serving w @ [(sid, next_conn w)], next_conn := Suc (next_conn w)\<rparr>)"
| t_dial_failed: "sid \<in> set (dialing w) \<Longrightarrow>
    tstep c w (TDialFailed sid) (w\<lparr>dialing := remove1 sid (dialing w)\<rparr>)"
| t_end: "(sid, conn) \<in> set (serving w) \<Longrightarrow>
    tstep c w (TEnd sid) (w\<lparr>serving := remove1 (sid, conn) (serving w), tm := serve_end sid (tm w)\<rparr>)"
| t_close_all: "tstep c w TCloseAll (w\<lparr>cancelled := cancelled w \<union> CloseAll (tm w)\<rparr>)"

definition no_tunnels :: "Manager \<Rightarrow> tunnels" where
  "no_tunnels m = \<lparr>tm = m, dialing = [], serving = [], cancelled = {}, next_conn = 0\<rparr>"

inductive treach :: "nat \<Rightarrow> tunnels \<Rightarrow> bool" for c where
  t_init: "treach c (no_tunnels (NewManager nodeID nodeSecret n))"
| t_step: "treach c w \<Longrightarrow> tstep c w l w' \<Longrightarrow> treach c w'"

inductive_cases tstep_CloseAllE: "tstep c w TCloseAll w'"

definition tunnels_inv :: "tunnels \<Rightarrow> bool" where
  "tunnels_inv w \<longleftrightarrow> active (tm w) = map_of (serving w) \<and> distinct (map fst (serving w)) \<and>
     length (dialing w) \<le> 1 \<and> set (dialing w) \<inter> dom (active (tm w)) = {} \<and>
     int (length (serving w) + length (dialing w)) \<le> maxOpen (tm w)"

lemma open_check_None:
  "open_check sid m = None \<longleftrightarrow> sid \<notin> dom (active m) \<and> int (card (dom (active m))) < maxOpen m"
  by (auto simp: open_check_def)

lemma card_dom_map_of: "distinct (map fst xs) \<Longrightarrow> card (dom (map_of xs)) = length xs"
  by (metis distinct_card dom_map_of_conv_image_fst length_map set_map)

lemma map_of_remove1:
  "distinct (map fst xs) \<Longrightarrow> (k, v) \<in> set xs \<Longrightarrow> map_of (remove1 (k, v) xs) = (map_of xs)(k := None)"
proof (induction xs)
  case (Cons x xs)
  obtain a b where x: "x = (a, b)"
    by (cases x)
  show ?case
  proof (cases "x = (k, v)")
    case True
    then have "map_of xs k = None"
      using Cons.prems(1) by (simp add: map_of_eq_None_iff)
    then show ?thesis
      using True by (auto simp: fun_eq_iff)
  next
    case False
    then have "a \<noteq> k" "(k, v) \<in> set xs"
      using Cons.prems x by force+
    then show ?thesis
      using Cons x False by (auto simp: fun_eq_iff)
  qed
qed simp

lemma tunnels_inv_step:
  assumes "tunnels_inv w" "tstep 1 w l w'"
  shows "tunnels_inv w'"
  using assms(2)
proof cases
  case (t_begin sid)
  then show ?thesis
    using assms(1) by (auto simp: tunnels_inv_def open_check_None card_dom_map_of)
next
  case (t_dialed sid)
  then have "dialing w = [sid]"
    using assms(1) by (cases "dialing w") (auto simp: tunnels_inv_def)
  moreover have "map_of (serving w) sid = None" "distinct (map fst (serving w))"
    using t_dialed(2) calculation assms(1) by (auto simp: tunnels_inv_def)
  ultimately show ?thesis
    using t_dialed assms(1)
    by (auto simp: tunnels_inv_def open_insert_def map_add_def fun_eq_iff map_of_eq_None_iff split: option.split)
next
  case (t_dial_failed sid)
  then show ?thesis
    using assms(1) by (cases "dialing w") (auto simp: tunnels_inv_def)
next
  case (t_end sid conn)
  moreover have "distinct (map fst (remove1 (sid, conn) (serving w)))"
    using assms(1) by (auto simp: tunnels_inv_def distinct_map inj_on_def notin_set_remove1)
  ultimately show ?thesis
    using assms(1) by (auto simp: tunnels_inv_def serve_end_def map_of_remove1 length_remove1)
qed (use assms(1) in \<open>auto simp: tunnels_inv_def\<close>)

lemma tunnels_inv_reach: "treach 1 w \<Longrightarrow> tunnels_inv w"
proof (induction rule: treach.induct)
  case (t_init nodeID nodeSecret n)
  show ?case
    by (simp add: tunnels_inv_def no_tunnels_def NewManager_def)
next
  case (t_step w l w')
  then show ?case
    using tunnels_inv_step by blast
qed

text \<open>
  With more callers a session may be dialled twice, and its second connection replaces the first
  in the table; what remains is a bound on the table.
\<close>

lemma card_dom_insert_le: "card (dom (m(k \<mapsto> v))) \<le> Suc (card (dom m))"
  by (simp add: card_insert_le_m1 card_insert_if)

definition tunnels_bound :: "nat \<Rightarrow> tunnels \<Rightarrow> bool" where
  "tunnels_bound c w \<longleftrightarrow> finite (dom (active (tm w))) \<and>
     int (card (dom (active (tm w))) + length (dialing w)) \<le> maxOpen (tm w) - 1 + int c"

lemma tunnels_bound_step: "tstep c w l w' \<Longrightarrow> tunnels_bound c w \<Longrightarrow> tunnels_bound c w'"
proof (induction rule: tstep.induct)
  case (t_begin sid w)
  then show ?case
    by (simp add: tunnels_bound_def open_check_None)
next
  case (t_dialed sid w)
  moreover have "Suc (length (remove1 sid (dialing w))) = length (dialing w)"
    using t_dialed(1) length_pos_if_in_set [OF t_dialed(1)] by (simp add: length_remove1)
  moreover have "card (dom ((active (tm w))(sid \<mapsto> next_conn w))) \<le> Suc (card (dom (active (tm w))))"
    by (rule card_dom_insert_le)
  ultimately show ?case
    by (simp add: tunnels_bound_def open_insert_def)
next
  case (t_end sid conn w)
  moreover have "card (dom (active (tm w)) - {sid}) \<le> card (dom (active (tm w)))"
    by (rule card_Diff1_le)
  ultimately show ?case
    by (simp add: tunnels_bound_def serve_end_def)
qed (auto simp: tunnels_bound_def length_remove1)

lemma tunnels_bound_reach:
  "treach c w \<Longrightarrow> int (ActiveCount (tm w) + length (dialing w)) \<le> maxOpen (tm w) - 1 + int c"
proof -
  assume "treach c w"
  then have "tunnels_bound c w"
  proof (induction rule: treach.induct)
    case (t_init nodeID nodeSecret n)
    show ?case
      by (simp add: tunnels_bound_def no_tunnels_def NewManager_def)
  next
    case (t_step w l w')
    then show ?case
      using tunnels_bound_step by blast
  qed
  then show ?thesis
    by (simp add: tunnels_bound_def ActiveCount_def)
qed

text \<open>
  C30. How many tunnels there are. When at most \<open>c\<close> calls of \<^verbatim>\<open>Open\<close> run at the same time, the
  sessions in the manager's table and the calls that are still dialling are together at most
  \<open>c - 1\<close> more than allowed. With one caller, which is what the agent has, there are
  therefore never more tunnels than allowed; then no session has two either, and every
  connection that is being served is in the table, so that \<^verbatim>\<open>CloseAll\<close> (when the node is
  revoked) cancels every one of them.
\<close>

theorem tunnels_are_bounded:
  assumes "treach c w"
  shows "int (ActiveCount (tm w) + length (dialing w)) \<le> maxOpen (tm w) - 1 + int c \<and>
    (c = 1 \<longrightarrow> int (ActiveCount (tm w)) \<le> maxOpen (tm w) \<and> distinct (map fst (serving w)) \<and>
       ActiveCount (tm w) = length (serving w) \<and>
       (\<forall>w'. tstep 1 w TCloseAll w' \<longrightarrow> snd ` set (serving w') \<subseteq> cancelled w'))"
proof (cases "c = 1")
  case True
  then have inv: "tunnels_inv w"
    using tunnels_inv_reach assms by simp
  then have "CloseAll (tm w) = snd ` set (serving w)"
    by (simp add: CloseAll_def tunnels_inv_def ran_distinct)
  then have "snd ` set (serving w') \<subseteq> cancelled w'" if "tstep 1 w TCloseAll w'" for w'
    using that \<open>CloseAll (tm w) = snd ` set (serving w)\<close> by (elim tstep_CloseAllE) simp
  then show ?thesis
    using inv tunnels_bound_reach [OF assms] by (auto simp: tunnels_inv_def ActiveCount_def card_dom_map_of)
qed (use tunnels_bound_reach [OF assms] in simp)

lemma tunnels_are_bounded_witness:
  "ActiveCount (tm (no_tunnels (NewManager ''n1'' ''s'' 3)\<lparr>serving := [(''a'', 0)],
     tm := open_insert ''a'' 0 (NewManager ''n1'' ''s'' 3), next_conn := 1\<rparr>)) \<le> 3"
proof -
  let ?w0 = "no_tunnels (NewManager ''n1'' ''s'' 3)"
  let ?w2 = "no_tunnels (NewManager ''n1'' ''s'' 3)\<lparr>serving := [(''a'', 0)],
     tm := open_insert ''a'' 0 (NewManager ''n1'' ''s'' 3), next_conn := 1\<rparr>"
  have "tstep 1 ?w0 (TBegin ''a'') (?w0\<lparr>dialing := dialing ?w0 @ [''a'']\<rparr>)"
    by (rule tstep.t_begin) (simp_all add: open_check_None no_tunnels_def NewManager_def)
  then have "treach 1 (?w0\<lparr>dialing := dialing ?w0 @ [''a'']\<rparr>)"
    by (rule treach.t_step [OF treach.t_init])
  moreover have "tstep 1 (?w0\<lparr>dialing := dialing ?w0 @ [''a'']\<rparr>) (TDialed ''a'') ?w2"
    using tstep.t_dialed [of "''a''" "?w0\<lparr>dialing := dialing ?w0 @ [''a'']\<rparr>" 1] by (simp add: no_tunnels_def)
  ultimately have "treach 1 ?w2"
    by (rule treach.t_step)
  from tunnels_are_bounded [OF this] show ?thesis
    by (simp add: open_insert_def NewManager_def)
qed

text \<open>
  The check and the insertion are two critical sections, so with two or more concurrent calls
  the allowed number can be exceeded: the bound above cannot be improved to \<open>maxOpen\<close>.
\<close>

lemma concurrent_opens_exceed_the_bound:
  assumes "2 \<le> c"
  shows "\<exists>w. treach c w \<and> maxOpen (tm w) < int (ActiveCount (tm w))"
proof -
  define m where "m = NewManager ''n'' ''s'' 1"
  define w0 where "w0 = no_tunnels m"
  define w1 where "w1 = w0\<lparr>dialing := [''a'']\<rparr>"
  define w2 where "w2 = w0\<lparr>dialing := [''a'', ''b'']\<rparr>"
  define w3 where "w3 = w0\<lparr>dialing := [''b''], tm := open_insert ''a'' 0 m, serving := [(''a'', 0)], next_conn := Suc 0\<rparr>"
  define w4 where "w4 = w0\<lparr>dialing := [], tm := open_insert ''b'' (Suc 0) (open_insert ''a'' 0 m),
    serving := [(''a'', 0), (''b'', Suc 0)], next_conn := Suc (Suc 0)\<rparr>"
  have "open_check sid m = None" for sid
    by (simp add: open_check_None m_def NewManager_def)
  then have "tstep c w0 (TBegin ''a'') w1" "tstep c w1 (TBegin ''b'') w2"
    using tstep.t_begin [of "''a''" w0 c] tstep.t_begin [of "''b''" w1 c]
    by (simp_all add: w0_def w1_def w2_def no_tunnels_def, use assms in simp_all)
  moreover have "tstep c w2 (TDialed ''a'') w3" "tstep c w3 (TDialed ''b'') w4"
    using tstep.t_dialed [of "''a''" w2 c] tstep.t_dialed [of "''b''" w3 c]
    by (simp_all add: w0_def w2_def w3_def w4_def no_tunnels_def)
  moreover have "treach c w0"
    unfolding w0_def m_def by (rule treach.t_init)
  ultimately have "treach c w4"
    by (blast intro: treach.t_step)
  moreover have "dom (active (tm w4)) = {''a'', ''b''}" "maxOpen (tm w4) = 1"
    by (auto simp: w4_def w0_def no_tunnels_def m_def open_insert_def NewManager_def)
  ultimately show ?thesis
    by (intro exI [of _ w4]) (simp add: ActiveCount_def)
qed

end
