(* ===== verification/Json.thy ===== *)
theory Json
  imports Prelude "HOL-Library.AList"
begin

text \<open>
  The values \<^verbatim>\<open>map[string]any\<close>, \<^verbatim>\<open>[]map[string]any\<close> and the JSON documents the agent
  builds from them. A Go map that is only built by a literal and by \<^verbatim>\<open>m[k] = v\<close> is an
  association list with distinct keys: \<open>jset\<close> replaces a present key in place and adds an
  absent one at the end. \<^verbatim>\<open>encoding/json\<close> sorts the keys when it prints, so the order is
  not observable.
\<close>

datatype json =
    JNull
  | JBool bool
  | JNum int
  | JStr string
  | JArr "json list"
  | JObj "(string \<times> json) list"

fun jset :: "string \<Rightarrow> json \<Rightarrow> json \<Rightarrow> json" where
  "jset k v (JObj kvs) = JObj (AList.update k v kvs)"
| "jset k v j = j"

fun jget :: "string \<Rightarrow> json \<Rightarrow> json" where
  "jget k (JObj kvs) = (case map_of kvs k of None \<Rightarrow> JNull | Some v \<Rightarrow> v)"
| "jget k _ = JNull"

fun jelems :: "json \<Rightarrow> json list" where
  "jelems (JArr xs) = xs"
| "jelems _ = []"

text \<open>A nil slice prints as \<^verbatim>\<open>null\<close>, an empty one as \<^verbatim>\<open>[]\<close>; appending to nil makes a slice.\<close>

definition nil_slice :: "json list \<Rightarrow> json" where
  "nil_slice xs = (if xs = [] then JNull else JArr xs)"

text \<open>The element of an array whose field \<open>k\<close> is the string \<open>v\<close>.\<close>

definition jfind :: "string \<Rightarrow> string \<Rightarrow> json \<Rightarrow> json option" where
  "jfind k v j = find (\<lambda>x. jget k x = JStr v) (jelems j)"

lemma jget_jset [simp]: "jget k (jset k' v (JObj kvs)) = (if k = k' then v else jget k (JObj kvs))"
  by (auto simp: update_conv split: option.splits)

lemma jelems_nil_slice [simp]: "jelems (nil_slice xs) = xs"
  by (simp add: nil_slice_def)

end
