(* ===== verification/UserConfig.thy ===== *)
theory UserConfig
  imports Encoding
begin

text \<open>
  \<^verbatim>\<open>internal/config/types.go\<close> and \<^verbatim>\<open>internal/config/credentials.go\<close>: the user record that
  the management server and the local store share, the tests that decide whether a user may
  be served, and the credentials derived from a user's id.
\<close>

section \<open>Users\<close>

record User =
  UUID :: string
  Protocols :: "string list"
  SSPassword :: string
  Enabled :: bool
  TrafficLimit :: int
  TrafficUsed :: int
  ExpireAt :: "time option"
  DeviceID :: string

definition OverQuota :: "User \<Rightarrow> bool" where
  "OverQuota u \<longleftrightarrow> 0 < TrafficLimit u \<and> TrafficLimit u \<le> TrafficUsed u"

definition Expired :: "User \<Rightarrow> time \<Rightarrow> bool" where
  "Expired u now = (case ExpireAt u of None \<Rightarrow> False | Some t \<Rightarrow> t < now)"

record UsersResponse =
  Version :: string
  Users :: "User list"
  resp_RealitySNI :: string

text \<open>The users the generator writes into the configuration at time \<open>now\<close>.\<close>

definition servable :: "time \<Rightarrow> User \<Rightarrow> bool" where
  "servable now u \<longleftrightarrow> Enabled u \<and> \<not> OverQuota u \<and> \<not> Expired u now"

lemma servable_Enabled: "servable now u \<Longrightarrow> Enabled u"
  by (simp add: servable_def)

lemma Expired_mono: "Expired u now \<Longrightarrow> now \<le> later \<Longrightarrow> Expired u later"
  by (auto simp: Expired_def split: option.splits)

section \<open>Derived credentials\<close>

definition deriveSecret :: "string \<Rightarrow> string \<Rightarrow> string" where
  "deriveSecret domain uuid =
     take 22 (RawURLEncoding (sha256 (bytes_of_string (domain @ ''|'' @ uuid))))"

definition VMessUUID :: "string \<Rightarrow> string" where
  "VMessUUID uuid = uuid"

definition TrojanPassword :: "string \<Rightarrow> string" where
  "TrojanPassword uuid = deriveSecret ''otun-trojan'' uuid"

definition Hysteria2Password :: "string \<Rightarrow> string" where
  "Hysteria2Password uuid = deriveSecret ''otun-hy2'' uuid"

definition TUICPassword :: "string \<Rightarrow> string" where
  "TUICPassword uuid = deriveSecret ''otun-tuic-pw'' uuid"

definition SubscriptionToken :: "string \<Rightarrow> string \<Rightarrow> string" where
  "SubscriptionToken uuid ssPassword =
     RawURLEncoding (sha256 (bytes_of_string (''otun-sub|'' @ uuid @ ''|'' @ ssPassword)))"

text \<open>\<^verbatim>\<open>h[i:j]\<close> on a string that is long enough.\<close>

definition slice :: "nat \<Rightarrow> nat \<Rightarrow> 'a list \<Rightarrow> 'a list" where
  "slice i j s = take (j - i) (drop i s)"

definition TUICUUID :: "string \<Rightarrow> string" where
  "TUICUUID uuid =
     (let sum = sha256 (bytes_of_string (''otun-tuic-uuid|'' @ uuid));
          b = take 16 sum;
          b = b[6 := (b ! 6 AND 0x0f) OR 0x50];
          b = b[8 := (b ! 8 AND 0x3f) OR 0x80];
          h = hex_encode b
      in slice 0 8 h @ ''-'' @ slice 8 12 h @ ''-'' @ slice 12 16 h @ ''-'' @ slice 16 20 h @ ''-'' @
         slice 20 32 h)"

lemma length_RawURL_sha256: "length (RawURLEncoding (sha256 m)) = 43"
  by (simp add: RawURLEncoding_def length_base64_raw)

lemma set_RawURL: "set (RawURLEncoding m) \<subseteq> set b64_url"
  by (simp add: RawURLEncoding_def set_base64_raw)

text \<open>
  The uuid TUIC clients are given is a well-formed version-5 uuid: 36 characters in the
  8-4-4-4-12 layout, hexadecimal apart from the dashes, with version digit 5 and a variant
  digit between 8 and b.
\<close>

fun dashes_ok :: "nat \<Rightarrow> string \<Rightarrow> bool" where
  "dashes_ok i [] = True"
| "dashes_ok i (c # cs) =
     ((if i \<in> {8, 13, 18, 23} then c = CHR ''-'' else c \<in> set ''0123456789abcdef'')
      \<and> dashes_ok (Suc i) cs)"

definition uuid_wf :: "string \<Rightarrow> bool" where
  "uuid_wf s \<longleftrightarrow> length s = 36 \<and> dashes_ok 0 s \<and> s ! 14 = CHR ''5'' \<and> s ! 19 \<in> set ''89ab''"

lemma dashes_ok_append [simp]:
  "dashes_ok i (a @ b) \<longleftrightarrow> dashes_ok i a \<and> dashes_ok (i + length a) b"
  by (induction a arbitrary: i) auto

lemma dashes_ok_hex:
  "set s \<subseteq> set ''0123456789abcdef'' \<Longrightarrow> {i..<i + length s} \<inter> {8, 13, 18, 23} = {} \<Longrightarrow> dashes_ok i s"
proof (induction s arbitrary: i)
  case (Cons c s)
  have "dashes_ok (Suc i) s"
    using Cons.prems by (intro Cons.IH) auto
  moreover have "i \<notin> {8, 13, 18, 23}"
    using Cons.prems(2) by fastforce
  ultimately show ?case
    using Cons.prems(1) by auto
qed simp

lemma set_slice: "set (slice i j s) \<subseteq> set s"
  unfolding slice_def by (meson dual_order.trans set_drop_subset set_take_subset)

lemma length_slice [simp]: "j \<le> length s \<Longrightarrow> length (slice i j s) = j - i"
  by (simp add: slice_def)

lemma nth_slice: "i + k < j \<Longrightarrow> j \<le> length s \<Longrightarrow> slice i j s ! k = s ! (i + k)"
  by (simp add: slice_def)

lemma high_nibble: "unat (b :: byte) div 16 = unat (drop_bit 4 b)"
  by (simp add: drop_bit_eq_div unat_div)

lemma version_nibble: "unat ((x AND 0x0f) OR 0x50 :: byte) div 16 = 5"
proof -
  have "drop_bit 4 ((x AND 0x0f) OR 0x50 :: byte) = 5"
    by (simp add: drop_bit_and)
  then show ?thesis by (simp add: high_nibble)
qed

lemma variant_nibble: "unat ((x AND 0x3f) OR 0x80 :: byte) div 16 \<in> {8, 9, 10, 11}"
proof -
  have "drop_bit 4 ((x AND 0x3f) OR 0x80 :: byte) = (drop_bit 4 x AND 3) OR 8"
    by (simp add: drop_bit_and)
  moreover have "drop_bit 4 x AND 3 = (take_bit 2 (drop_bit 4 x) :: byte)"
    by (simp add: take_bit_eq_mask mask_eq_decr_exp)
  ultimately have "unat (drop_bit 4 ((x AND 0x3f) OR 0x80 :: byte)) = take_bit 2 (unat (drop_bit 4 x)) OR 8"
    by (simp add: unsigned_or_eq unsigned_take_bit_eq)
  moreover have "take_bit 2 (unat (drop_bit 4 x)) \<in> {0, 1, 2, 3}"
    using take_bit_nat_less_exp [of 2 "unat (drop_bit 4 x)"] by auto
  ultimately show ?thesis by (auto simp: high_nibble)
qed

lemma uuid_wf_TUICUUID: "uuid_wf (TUICUUID uuid)"
proof -
  define b where "b = take 16 (sha256 (bytes_of_string (''otun-tuic-uuid|'' @ uuid)))"
  define b' where "b' = b[6 := (b ! 6 AND 0x0f) OR 0x50, 8 := (b[6 := (b ! 6 AND 0x0f) OR 0x50] ! 8 AND 0x3f) OR 0x80]"
  define h where "h = hex_encode b'"
  have len: "length b' = 16" "length h = 32"
    by (simp_all add: b_def b'_def h_def)
  have eq: "TUICUUID uuid = slice 0 8 h @ ''-'' @ slice 8 12 h @ ''-'' @ slice 12 16 h @ ''-'' @
      slice 16 20 h @ ''-'' @ slice 20 32 h"
    unfolding TUICUUID_def Let_def b_def b'_def h_def ..
  have hex: "set (slice i j h) \<subseteq> set ''0123456789abcdef''" for i j
    using set_slice [of i j h] set_hex_encode [of b'] unfolding h_def by (rule order_trans)
  have d: "k \<le> 32 \<Longrightarrow> {i..<i + (k - j)} \<inter> {8, 13, 18, 23} = {} \<Longrightarrow> dashes_ok i (slice j k h)" for i j k
    using len by (intro dashes_ok_hex hex) simp
  have "dashes_ok 0 (slice 0 8 h)" "dashes_ok 9 (slice 8 12 h)" "dashes_ok 14 (slice 12 16 h)"
    "dashes_ok 19 (slice 16 20 h)" "dashes_ok 24 (slice 20 32 h)"
    by (auto intro!: d)
  then have "dashes_ok 0 (TUICUUID uuid)"
    unfolding eq using len(2) by simp
  moreover have "h ! 12 = hex_digit 5"
    using nth_hex_encode [of 6 b'] len version_nibble [of "b ! 6"] by (simp add: h_def b'_def b_def)
  then have "TUICUUID uuid ! 14 = CHR ''5''"
    unfolding eq using len by (simp add: nth_append nth_slice hex_digit_def)
  moreover have "h ! 16 \<in> hex_digit ` {8, 9, 10, 11}"
  proof -
    have "b' ! 8 = (b ! 8 AND 0x3f) OR 0x80"
      by (simp add: b'_def b_def)
    with nth_hex_encode [of 8 b'] len variant_nibble [of "b ! 8"] show ?thesis
      unfolding h_def by auto
  qed
  then have "TUICUUID uuid ! 19 \<in> set ''89ab''"
    unfolding eq using len by (auto simp: nth_append nth_slice hex_digit_def)
  ultimately show ?thesis
    using len by (simp add: uuid_wf_def eq)
qed

lemma length_deriveSecret [simp]: "length (deriveSecret d u) = 22"
  by (simp add: deriveSecret_def length_RawURL_sha256)

lemma length_SubscriptionToken [simp]: "length (SubscriptionToken u p) = 43"
  by (simp add: SubscriptionToken_def length_RawURL_sha256)

lemma set_SubscriptionToken: "set (SubscriptionToken u p) \<subseteq> set b64_url"
  by (simp add: SubscriptionToken_def set_RawURL)

lemma set_deriveSecret: "set (deriveSecret d u) \<subseteq> set b64_url"
  unfolding deriveSecret_def by (meson order_trans set_RawURL set_take_subset)

lemma dashes_ok_no:
  "dashes_ok i s \<Longrightarrow> c \<notin> set ''0123456789abcdef'' \<Longrightarrow> c \<noteq> CHR ''-'' \<Longrightarrow> c \<notin> set s"
proof (induction s arbitrary: i)
  case (Cons d s)
  then show ?case by (metis dashes_ok.simps(2) set_ConsD)
qed simp

lemma TUICUUID_no: "c \<notin> set ''0123456789abcdef'' \<Longrightarrow> c \<noteq> CHR ''-'' \<Longrightarrow> c \<notin> set (TUICUUID u)"
  by (rule dashes_ok_no) (rule uuid_wf_TUICUUID [unfolded uuid_wf_def, THEN conjunct2, THEN conjunct1])

text \<open>
  The derived credentials are well formed whatever the user's id: a TUIC client is given a
  version-5 uuid, the three derived passwords have 22 characters and the subscription token 43,
  all of them in the URL-safe base64 alphabet, so they need no escaping in a link.
\<close>

theorem derived_credentials_wf:
  "uuid_wf (TUICUUID uuid) \<and>
   length (TrojanPassword uuid) = 22 \<and> length (Hysteria2Password uuid) = 22 \<and>
   length (TUICPassword uuid) = 22 \<and> length (SubscriptionToken uuid pw) = 43 \<and>
   set (TrojanPassword uuid) \<union> set (Hysteria2Password uuid) \<union> set (TUICPassword uuid) \<union>
     set (SubscriptionToken uuid pw) \<subseteq> set b64_url"
  unfolding TrojanPassword_def Hysteria2Password_def TUICPassword_def
  by (intro conjI Un_least uuid_wf_TUICUUID length_deriveSecret length_SubscriptionToken
      set_deriveSecret set_SubscriptionToken)

end
