(* ===== verification/Reporter.thy ===== *)
theory Reporter
  imports Strconv TrafficMeter
begin

text \<open>
  \<^verbatim>\<open>internal/stats/reporter.go\<close>: reporting the users' traffic, with a directory of report
  files as a cache for the reports that could not be sent. The state is the cache directory (file
  name to content) and, as a ghost, the reports the server has accepted. The HTTP exchange, the
  clock, the file system's answers and the order of \<^verbatim>\<open>range\<close> are inputs; \<open>marshal\<close> and
  \<open>unmarshal\<close> are the JSON codec for reports.
\<close>

section \<open>State and operations\<close>

record StatsEntry =
  e_UUID :: string
  e_Upload :: int
  e_Download :: int

record StatsReport =
  rep_Timestamp :: time
  rep_Stats :: "StatsEntry list"

record Reporter =
  rep_apiURL :: string
  rep_apiKey :: string
  cache_files :: "string \<rightharpoonup> string"
  accepted :: "StatsReport list"

definition NewReporter :: "string \<Rightarrow> string \<Rightarrow> (string \<rightharpoonup> string) \<Rightarrow> Reporter" where
  "NewReporter url key dir = \<lparr>rep_apiURL = url, rep_apiKey = key, cache_files = dir, accepted = []\<rparr>"

datatype http_answer = NoResponse string | Answer int string

datatype send_error = RequestFailed string | APIStatus int string

definition send :: "http_answer \<Rightarrow> StatsReport \<Rightarrow> Reporter \<Rightarrow> Reporter \<times> send_error option" where
  "send out report r =
     (case out of
        NoResponse e \<Rightarrow> (r, Some (RequestFailed e))
      | Answer code body \<Rightarrow>
          if code \<noteq> 200 then (r, Some (APIStatus code body))
          else (r\<lparr>accepted := accepted r @ [report]\<rparr>, None))"

text \<open>\<open>Left\<close> is what a failed \<^verbatim>\<open>os.WriteFile\<close> leaves under the file name.\<close>

datatype write_outcome = Written | Left "string option"

definition cache_name :: "int \<Rightarrow> string" where
  "cache_name nano = ''stats_'' @ itoa nano @ ''.json''"

definition saveToCache ::
    "(StatsReport \<Rightarrow> string) \<Rightarrow> int \<Rightarrow> write_outcome \<Rightarrow> StatsReport \<Rightarrow> Reporter \<Rightarrow> Reporter \<times> bool" where
  "saveToCache marshal nano w report r =
     (let path = cache_name nano; data = marshal report
      in case w of
           Written \<Rightarrow> (r\<lparr>cache_files := (cache_files r)(path \<mapsto> data)\<rparr>, True)
         | Left content \<Rightarrow> (r\<lparr>cache_files := (cache_files r)(path := content)\<rparr>, False))"

definition report_entries :: "(string \<rightharpoonup> UserStats) \<Rightarrow> string list \<Rightarrow> StatsEntry list" where
  "report_entries stats ks =
     map (\<lambda>(uuid, s). \<lparr>e_UUID = uuid, e_Upload = Upload s, e_Download = Download s\<rparr>)
       (filter (\<lambda>(uuid, s). 0 < Upload s \<or> 0 < Download s) (range_entries stats ks))"

record report_env =
  rep_now :: time
  rep_order :: "string list"
  rep_http :: http_answer
  rep_nano :: int
  rep_write :: write_outcome

text \<open>The result is whether \<^verbatim>\<open>Report\<close> returned nil.\<close>

definition Report ::
    "(StatsReport \<Rightarrow> string) \<Rightarrow> report_env \<Rightarrow> (string \<rightharpoonup> UserStats) \<Rightarrow> Reporter \<Rightarrow> Reporter \<times> bool" where
  "Report marshal env stats r =
     (if length (rep_order env) = 0 then (r, True)
      else
        (let report = \<lparr>rep_Timestamp = rep_now env, rep_Stats = report_entries stats (rep_order env)\<rparr>
         in if length (rep_Stats report) = 0 then (r, True)
            else (case send (rep_http env) report r of
                    (r, Some err) \<Rightarrow> saveToCache marshal (rep_nano env) (rep_write env) report r
                  | (r, None) \<Rightarrow> (r, True))))"

text \<open>What happens to one file: whether it can be read, what the server answers, whether it can be removed.\<close>

record file_env =
  read_ok :: bool
  file_http :: http_answer
  remove_ok :: bool

definition remove_file :: "bool \<Rightarrow> string \<Rightarrow> Reporter \<Rightarrow> Reporter" where
  "remove_file ok file r = (if ok then r\<lparr>cache_files := (cache_files r)(file := None)\<rparr> else r)"

fun flush_loop ::
    "(string \<Rightarrow> StatsReport option) \<Rightarrow> (string \<Rightarrow> file_env) \<Rightarrow> string list \<Rightarrow> Reporter \<Rightarrow> Reporter \<times> send_error option"
where
  "flush_loop unmarshal env [] r = (r, None)"
| "flush_loop unmarshal env (file # files) r =
     (case (if read_ok (env file) then cache_files r file else None) of
        None \<Rightarrow> flush_loop unmarshal env files r
      | Some data \<Rightarrow>
          (case unmarshal data of
             None \<Rightarrow> flush_loop unmarshal env files (remove_file (remove_ok (env file)) file r)
           | Some report \<Rightarrow>
               (case send (file_http (env file)) report r of
                  (r, Some err) \<Rightarrow> (r, Some err)
                | (r, None) \<Rightarrow> flush_loop unmarshal env files (remove_file (remove_ok (env file)) file r))))"

text \<open>\<open>files\<close> is what \<^verbatim>\<open>filepath.Glob\<close> returns: the cache files, sorted by name.\<close>

definition FlushCache ::
    "(string \<Rightarrow> StatsReport option) \<Rightarrow> (string \<Rightarrow> file_env) \<Rightarrow> string list \<Rightarrow> Reporter \<Rightarrow> Reporter \<times> send_error option"
where
  "FlushCache unmarshal env files r = flush_loop unmarshal env files r"

definition GetCacheCount :: "string list \<Rightarrow> nat" where
  "GetCacheCount files = length files"

section \<open>No report is lost\<close>

text \<open>The reports that were made: sent at once or cached.\<close>

definition held :: "(StatsReport \<Rightarrow> string) \<Rightarrow> Reporter \<Rightarrow> StatsReport \<Rightarrow> bool" where
  "held marshal r rep \<longleftrightarrow> rep \<in> set (accepted r) \<or> (\<exists>f. cache_files r f = Some (marshal rep))"

definition made :: "report_env \<Rightarrow> (string \<rightharpoonup> UserStats) \<Rightarrow> StatsReport option" where
  "made env stats =
     (let es = report_entries stats (rep_order env)
      in if es = [] then None else Some \<lparr>rep_Timestamp = rep_now env, rep_Stats = es\<rparr>)"

datatype reporter_op =
    DoReport report_env "string \<rightharpoonup> UserStats"
  | DoFlush "string \<Rightarrow> file_env" "string list"

fun exec_reporter ::
    "(StatsReport \<Rightarrow> string) \<Rightarrow> (string \<Rightarrow> StatsReport option) \<Rightarrow> reporter_op \<Rightarrow> Reporter \<Rightarrow> Reporter" where
  "exec_reporter marshal unmarshal (DoReport env stats) r = fst (Report marshal env stats r)"
| "exec_reporter marshal unmarshal (DoFlush env files) r = fst (FlushCache unmarshal env files r)"

text \<open>The cache can be written, and the nanosecond clock never names a file that is still there.\<close>

fun op_ok :: "reporter_op \<Rightarrow> Reporter \<Rightarrow> bool" where
  "op_ok (DoReport env stats) r \<longleftrightarrow> rep_write env = Written \<and> cache_files r (cache_name (rep_nano env)) = None"
| "op_ok (DoFlush env files) r \<longleftrightarrow> True"

fun run_reporter ::
    "(StatsReport \<Rightarrow> string) \<Rightarrow> (string \<Rightarrow> StatsReport option) \<Rightarrow> reporter_op list \<Rightarrow> Reporter \<Rightarrow> Reporter" where
  "run_reporter marshal unmarshal [] r = r"
| "run_reporter marshal unmarshal (x # xs) r =
     run_reporter marshal unmarshal xs (exec_reporter marshal unmarshal x r)"

fun ops_ok ::
    "(StatsReport \<Rightarrow> string) \<Rightarrow> (string \<Rightarrow> StatsReport option) \<Rightarrow> reporter_op list \<Rightarrow> Reporter \<Rightarrow> bool" where
  "ops_ok marshal unmarshal [] r = True"
| "ops_ok marshal unmarshal (x # xs) r =
     (op_ok x r \<and> ops_ok marshal unmarshal xs (exec_reporter marshal unmarshal x r))"

definition op_reports :: "reporter_op \<Rightarrow> StatsReport list" where
  "op_reports x = (case x of DoReport env stats \<Rightarrow> (case made env stats of None \<Rightarrow> [] | Some rep \<Rightarrow> [rep]) | DoFlush env files \<Rightarrow> [])"

lemma send_simps:
  "fst (send out rep r) = r \<or> fst (send out rep r) = r\<lparr>accepted := accepted r @ [rep]\<rparr>"
  "snd (send out rep r) = None \<Longrightarrow> fst (send out rep r) = r\<lparr>accepted := accepted r @ [rep]\<rparr>"
  by (auto simp: send_def split: http_answer.splits)

lemma held_accept: "held marshal r x \<Longrightarrow> held marshal (r\<lparr>accepted := accepted r @ [y]\<rparr>) x"
  by (auto simp: held_def)

lemma held_new: "held marshal (r\<lparr>accepted := accepted r @ [y]\<rparr>) y"
  by (simp add: held_def)

lemma held_remove:
  assumes "held marshal r x" "\<And>d. cache_files r file = Some d \<Longrightarrow> d = marshal x \<Longrightarrow> x \<in> set (accepted r)"
  shows "held marshal (remove_file ok file r) x"
proof (cases "x \<in> set (accepted r)")
  case False
  with assms(1) obtain f where f: "cache_files r f = Some (marshal x)"
    by (auto simp: held_def)
  with False assms(2) have "f \<noteq> file"
    by auto
  with f show ?thesis
    unfolding held_def by (intro disjI2 exI [of _ f]) (simp add: remove_file_def)
qed (simp add: held_def remove_file_def)

lemma accepted_remove [simp]: "accepted (remove_file ok file r) = accepted r"
  by (simp add: remove_file_def)

lemma held_flush:
  assumes "unmarshal (marshal x) = Some x"
  shows "held marshal r x \<Longrightarrow> held marshal (fst (flush_loop unmarshal env files r)) x"
proof (induction files arbitrary: r)
  case (Cons p files)
  show ?case
  proof (cases "if read_ok (env p) then cache_files r p else None")
    case None
    then show ?thesis using Cons by simp
  next
    case (Some data)
    then have d: "cache_files r p = Some data"
      by (simp split: if_splits)
    show ?thesis
    proof (cases "unmarshal data")
      case None
      then have "data \<noteq> marshal x"
        using assms by auto
      then have "held marshal (remove_file (remove_ok (env p)) p r) x"
        using Cons.prems d by (intro held_remove) auto
      then show ?thesis
        using Cons.IH Some None by simp
    next
      case rep: (Some rep)
      obtain r' e where s: "send (file_http (env p)) rep r = (r', e)"
        by fastforce
      show ?thesis
      proof (cases e)
        case None
        then have r': "r' = r\<lparr>accepted := accepted r @ [rep]\<rparr>"
          using send_simps(2) [of "file_http (env p)" rep r] s by simp
        have "data = marshal x \<Longrightarrow> x = rep"
          using assms rep by auto
        then have "held marshal (remove_file (remove_ok (env p)) p r') x"
          using Cons.prems d by (intro held_remove) (auto simp: r' intro: held_accept)
        then show ?thesis
          using Cons.IH Some rep s None by simp
      next
        case (Some err)
        have "held marshal r' x"
          using send_simps(1) [of "file_http (env p)" rep r] s Cons.prems by (auto intro: held_accept)
        then show ?thesis
          using \<open>(if read_ok (env p) then cache_files r p else None) = Some data\<close> rep s Some by simp
      qed
    qed
  qed
qed simp

lemma report_entries_empty [simp]: "report_entries stats [] = []"
  by (simp add: report_entries_def)

lemma held_Report:
  assumes "op_ok (DoReport env stats) r" "held marshal r x \<or> made env stats = Some x"
  shows "held marshal (fst (Report marshal env stats r)) x"
proof (cases "report_entries stats (rep_order env) = []")
  case True
  then show ?thesis
    using assms(2) by (auto simp: Report_def made_def Let_def)
next
  case False
  then have "rep_order env \<noteq> []"
    by auto
  with False have rep: "Report marshal env stats r =
      (let report = \<lparr>rep_Timestamp = rep_now env, rep_Stats = report_entries stats (rep_order env)\<rparr>
       in case send (rep_http env) report r of
            (r, Some err) \<Rightarrow> saveToCache marshal (rep_nano env) (rep_write env) report r
          | (r, None) \<Rightarrow> (r, True))" (is "_ = (let report = ?rep in _)")
    by (simp add: Report_def Let_def)
  have "held marshal (r\<lparr>cache_files := (cache_files r)(cache_name (rep_nano env) \<mapsto> d)\<rparr>) x"
    if "held marshal r x" for d
    using that assms(1) unfolding held_def by (metis fun_upd_apply op_ok.simps(1) option.distinct(1)
      Reporter.Reporter.select_convs(3,4) Reporter.Reporter.update_convs(3) Reporter.Reporter.surjective)
  moreover have "held marshal (r\<lparr>cache_files := (cache_files r)(cache_name (rep_nano env) \<mapsto> marshal ?rep)\<rparr>) ?rep"
    unfolding held_def by (intro disjI2 exI [of _ "cache_name (rep_nano env)"]) simp
  moreover have "held marshal r x \<or> x = ?rep"
    using assms(2) False by (auto simp: made_def Let_def)
  ultimately show ?thesis
    using assms(1) unfolding rep
    by (auto simp: Let_def send_def saveToCache_def held_accept held_new
        split: http_answer.split)
qed

text \<open>
  C37. No traffic report is lost: whatever the server and the network do, and however reports and
  flushes of the cache alternate, every report with a non-zero counter has been accepted by the
  server or is in the cache with its exact content, provided the cache can be written.
\<close>

theorem no_report_is_lost:
  assumes "unmarshal (marshal x) = Some x" "ops_ok marshal unmarshal xs r" "x \<in> set (concat (map op_reports xs))"
  shows "held marshal (run_reporter marshal unmarshal xs r) x"
proof -
  have "ops_ok marshal unmarshal xs r \<Longrightarrow> held marshal r x \<or> x \<in> set (concat (map op_reports xs)) \<Longrightarrow>
      held marshal (run_reporter marshal unmarshal xs r) x" for xs
  proof (induction xs arbitrary: r)
    case (Cons y ys)
    have "held marshal (exec_reporter marshal unmarshal y r) x \<or> x \<in> set (concat (map op_reports ys))"
    proof (cases y)
      case (DoReport env stats)
      then show ?thesis
        using Cons.prems held_Report [of env stats r marshal x]
        by (auto simp: op_reports_def split: option.splits)
    next
      case (DoFlush env files)
      then show ?thesis
        using Cons.prems held_flush [of unmarshal marshal x, OF assms(1)] by (auto simp: op_reports_def FlushCache_def)
    qed
    then show ?case
      using Cons by simp
  qed simp
  with assms show ?thesis by blast
qed

definition sample_report_env :: report_env where
  "sample_report_env = \<lparr>rep_now = 5, rep_order = [''u1''], rep_http = NoResponse ''refused'', rep_nano = 7,
     rep_write = Written\<rparr>"

definition sample_report :: StatsReport where
  "sample_report = \<lparr>rep_Timestamp = 5, rep_Stats = [\<lparr>e_UUID = ''u1'', e_Upload = 3, e_Download = 0\<rparr>]\<rparr>"

lemma no_report_is_lost_witness:
  "held (\<lambda>_. ''{}'') (run_reporter (\<lambda>_. ''{}'') (\<lambda>_. Some sample_report)
      [DoReport sample_report_env [''u1'' \<mapsto> \<lparr>Upload = 3, Download = 0\<rparr>],
       DoFlush (\<lambda>_. \<lparr>read_ok = True, file_http = Answer 500 ''busy'', remove_ok = True\<rparr>) [''stats_7.json'']]
      (NewReporter ''url'' ''key'' Map.empty)) sample_report"
  by (rule no_report_is_lost)
    (simp_all add: sample_report_env_def sample_report_def NewReporter_def op_reports_def made_def
      report_entries_def Let_def)

text \<open>A flush that meets no failure leaves nothing in the cache.\<close>

lemma FlushCache_drains:
  assumes "\<And>f. read_ok (env f) \<and> remove_ok (env f) \<and> (\<exists>b. file_http (env f) = Answer 200 b)"
    and "dom (cache_files r) \<subseteq> set files"
  shows "cache_files (fst (FlushCache unmarshal env files r)) = Map.empty"
  unfolding FlushCache_def using assms(2)
proof (induction files arbitrary: r)
  case (Cons p files)
  obtain b where b: "read_ok (env p)" "remove_ok (env p)" "file_http (env p) = Answer 200 b"
    using assms(1) by blast
  have "dom (cache_files (remove_file True p r')) \<subseteq> set files" if "cache_files r' = cache_files r" for r'
    using Cons.prems that by (auto simp: remove_file_def)
  moreover have "dom (cache_files r) \<subseteq> set files" if "cache_files r p = None"
    using Cons.prems that by auto
  ultimately show ?case
    using Cons.IH b by (auto simp: send_def split: option.split)
qed simp

end
