(* ===== verification/Backend.thy ===== *)
theory Backend
  imports Json UserConfig Reporter
begin

text \<open>
  The agent's side of the management server and of sing-box's connection API:
  \<^verbatim>\<open>internal/config/sync.go\<close> (requests to the server), \<^verbatim>\<open>internal/config/cache.go\<close> (the
  last user list, for when the server is unreachable) and
  \<^verbatim>\<open>internal/singbox/connections.go\<close>. HTTP exchanges and the JSON codecs are inputs.
\<close>

section \<open>The syncer\<close>

record Syncer =
  sy_apiURL :: string
  sy_apiKey :: string
  lastVersion :: string

definition NewSyncer :: "string \<Rightarrow> string \<Rightarrow> Syncer" where
  "NewSyncer url key = \<lparr>sy_apiURL = url, sy_apiKey = key, lastVersion = ''''\<rparr>"

datatype sync_error = SyncRequest string | SyncStatus int string | SyncDecode

text \<open>\<open>decode\<close> is \<^verbatim>\<open>json.NewDecoder(resp.Body).Decode\<close>; a nil \<^verbatim>\<open>respBody\<close> decodes to \<open>Some ()\<close>.\<close>

definition postJSON :: "http_answer \<Rightarrow> (string \<Rightarrow> 'r option) \<Rightarrow> sync_error + 'r" where
  "postJSON out decode =
     (case out of
        NoResponse e \<Rightarrow> Inl (SyncRequest e)
      | Answer code body \<Rightarrow>
          if code \<noteq> 200 \<and> code \<noteq> 201 then Inl (SyncStatus code body)
          else (case decode body of None \<Rightarrow> Inl SyncDecode | Some r \<Rightarrow> Inr r))"

definition register_body :: "string \<Rightarrow> string \<Rightarrow> string list \<Rightarrow> int \<Rightarrow> int \<Rightarrow> json" where
  "register_body nodeID publicKey shortIDs vlessPort ssPort =
     JObj [(''node_id'', JStr nodeID), (''version'', JStr ''1.0.0''), (''public_key'', JStr publicKey),
           (''short_ids'', JArr (map JStr shortIDs)),
           (''protocols'', JObj
              [(''vless_reality'', JObj [(''port'', JNum vlessPort)]),
               (''shadowsocks'', JObj [(''port'', JNum ssPort),
                  (''method'', JStr ''chacha20-ietf-poly1305'')])])]"

text \<open>The request, and whether it succeeded.\<close>

definition Register ::
    "http_answer \<Rightarrow> string \<Rightarrow> string \<Rightarrow> string list \<Rightarrow> int \<Rightarrow> int \<Rightarrow> json \<times> (sync_error + unit)" where
  "Register out nodeID publicKey shortIDs vlessPort ssPort =
     (register_body nodeID publicKey shortIDs vlessPort ssPort, postJSON out (\<lambda>_. Some ()))"

record HeartbeatResponse =
  hb_OK :: bool
  KickUsers :: "string list"
  ReloadUsers :: bool

definition Heartbeat :: "(string \<Rightarrow> HeartbeatResponse option) \<Rightarrow> http_answer \<Rightarrow> sync_error + HeartbeatResponse" where
  "Heartbeat decode out = postJSON out decode"

definition ReportConnections ::
    "(string \<Rightarrow> HeartbeatResponse option) \<Rightarrow> http_answer \<Rightarrow> sync_error + HeartbeatResponse" where
  "ReportConnections decode out = postJSON out decode"

definition FetchUsers ::
    "(string \<Rightarrow> UsersResponse option) \<Rightarrow> http_answer \<Rightarrow> Syncer \<Rightarrow> Syncer \<times> (sync_error + UsersResponse)" where
  "FetchUsers decode out s =
     (case out of
        NoResponse e \<Rightarrow> (s, Inl (SyncRequest e))
      | Answer code body \<Rightarrow>
          if code \<noteq> 200 then (s, Inl (SyncStatus code body))
          else (case decode body of
                  None \<Rightarrow> (s, Inl SyncDecode)
                | Some result \<Rightarrow> (s\<lparr>lastVersion := Version result\<rparr>, Inr result)))"

definition HasNewVersion :: "Syncer \<Rightarrow> string \<Rightarrow> bool" where
  "HasNewVersion s version \<longleftrightarrow> lastVersion s \<noteq> version"

section \<open>The cache\<close>

text \<open>
  The content of \<^verbatim>\<open>users.json\<close>, \<open>None\<close> when the file does not exist. A failed write leaves
  some content.
\<close>

definition SaveUsers :: "(UsersResponse \<Rightarrow> string) \<Rightarrow> write_outcome \<Rightarrow> UsersResponse \<Rightarrow> string option \<Rightarrow> string option \<times> bool" where
  "SaveUsers marshal w resp f =
     (case w of Written \<Rightarrow> (Some (marshal resp), True) | Left c \<Rightarrow> (c, False))"

datatype cache_error = ReadCache | UnmarshalCache

definition LoadUsers :: "(string \<Rightarrow> UsersResponse option) \<Rightarrow> string option \<Rightarrow> cache_error + UsersResponse" where
  "LoadUsers unmarshal f =
     (case f of None \<Rightarrow> Inl ReadCache
      | Some data \<Rightarrow> (case unmarshal data of None \<Rightarrow> Inl UnmarshalCache | Some resp \<Rightarrow> Inr resp))"

definition HasCache :: "string option \<Rightarrow> bool" where
  "HasCache f \<longleftrightarrow> f \<noteq> None"

lemma LoadUsers_SaveUsers:
  "unmarshal (marshal resp) = Some resp \<Longrightarrow> LoadUsers unmarshal (fst (SaveUsers marshal Written resp f)) = Inr resp"
  by (simp add: LoadUsers_def SaveUsers_def)

section \<open>Connections\<close>

record ActiveConnection =
  conn_ID :: string
  conn_User :: string
  conn_Source :: string
  conn_Destination :: string
  conn_Upload :: int
  conn_Download :: int
  conn_Start :: string

definition GetActiveConnections ::
    "(string \<Rightarrow> ActiveConnection list option) \<Rightarrow> http_answer \<Rightarrow> sync_error + ActiveConnection list" where
  "GetActiveConnections decode out =
     (case out of
        NoResponse e \<Rightarrow> Inl (SyncRequest e)
      | Answer code body \<Rightarrow>
          if code \<noteq> 200 then Inl (SyncStatus code '''')
          else (case decode body of None \<Rightarrow> Inl SyncDecode | Some cs \<Rightarrow> Inr cs))"

text \<open>Whether the answer to the \<^verbatim>\<open>DELETE\<close> of one connection counts as success.\<close>

definition KickConnection :: "http_answer \<Rightarrow> bool" where
  "KickConnection out =
     (case out of NoResponse _ \<Rightarrow> False | Answer code _ \<Rightarrow> \<not> (code \<noteq> 200 \<and> code \<noteq> 204))"

text \<open>The ids whose deletion was requested, and the number that was confirmed.\<close>

definition kick_step ::
    "(string \<Rightarrow> http_answer) \<Rightarrow> string \<Rightarrow> string list \<times> nat \<Rightarrow> ActiveConnection \<Rightarrow> string list \<times> nat" where
  "kick_step del userUUID st conn =
     (let (asked, kicked) = st in
      if conn_User conn = userUUID
      then (asked @ [conn_ID conn], if \<not> KickConnection (del (conn_ID conn)) then kicked else kicked + 1)
      else (asked, kicked))"

definition KickUser ::
    "(string \<Rightarrow> http_answer) \<Rightarrow> string \<Rightarrow> sync_error + ActiveConnection list \<Rightarrow>
     string list \<times> (sync_error + nat)" where
  "KickUser del userUUID active =
     (case active of
        Inl err \<Rightarrow> ([], Inl err)
      | Inr connections \<Rightarrow>
          (let (asked, kicked) = foldl (kick_step del userUUID) ([], 0) connections in (asked, Inr kicked)))"

definition GetUserConnections :: "string \<Rightarrow> sync_error + ActiveConnection list \<Rightarrow> ActiveConnection list" where
  "GetUserConnections userUUID active =
     (case active of Inl err \<Rightarrow> [] | Inr connections \<Rightarrow> filter (\<lambda>c. conn_User c = userUUID) connections)"

lemma foldl_kick_step:
  "foldl (kick_step del uuid) (asked, kicked) cs =
     (let mine = map conn_ID (filter (\<lambda>c. conn_User c = uuid) cs)
      in (asked @ mine, kicked + length (filter (\<lambda>i. KickConnection (del i)) mine)))"
  by (induction cs arbitrary: asked kicked) (simp_all add: kick_step_def Let_def)

lemma KickUser_spec:
  "KickUser del uuid (Inr cs) =
     (let mine = map conn_ID (GetUserConnections uuid (Inr cs))
      in (mine, Inr (length (filter (\<lambda>i. KickConnection (del i)) mine))))"
  by (simp add: KickUser_def GetUserConnections_def foldl_kick_step Let_def)

end
