(* ===== verification/LocalStore.thy ===== *)
theory LocalStore
  imports UserConfig Strconv
begin

text \<open>
  \<^verbatim>\<open>internal/local/store.go\<close>: the local user store. The state is the in-memory map, the
  content of \<^verbatim>\<open>local_users.json\<close> and the number of \<^verbatim>\<open>onChange\<close> callbacks started with \<^verbatim>\<open>go\<close>.
  Every operation runs under the store's lock. What comes from outside is an argument: the
  clock, the new uuid and random bytes, and the outcome of one \<^verbatim>\<open>save\<close> (\<open>save_env\<close>).
\<close>

section \<open>State\<close>

record LocalUser =
  l_UUID :: string
  l_Name :: string
  l_Protocols :: "string list"
  l_SSPassword :: string
  l_Enabled :: bool
  l_TrafficLimit :: int
  l_TrafficUsed :: int
  l_ExpireAt :: "time option"
  CreatedAt :: time
  UpdatedAt :: time

record LocalUsersData =
  data_Version :: string
  data_Users :: "LocalUser list"

text \<open>The users file: absent, unreadable, not the JSON of a user list, or a user list.\<close>

datatype users_file = NoFile | Unreadable | Garbage | UsersFile LocalUsersData

record Store =
  s_users :: "string \<rightharpoonup> LocalUser"
  disk :: users_file
  has_onChange :: bool
  changes :: nat

datatype store_error =
    GeneratePassword
  | SaveUsers
  | UserNotFound string
  | UUIDRequired
  | ErrUserConflict

datatype load_error = ReadFailed | UnmarshalFailed

text \<open>
  One execution of \<^verbatim>\<open>save\<close>: the order in which the map is visited, the nanosecond clock, and
  how it fails, if it does: in the JSON encoder, or in the write, which leaves some content.
\<close>

datatype save_failure = MarshalFailed | WriteFailed users_file

record save_env =
  save_order :: "string list"
  save_nano :: int
  save_fails :: "save_failure option"

section \<open>Operations\<close>

definition load_user :: "(string \<rightharpoonup> LocalUser) \<Rightarrow> LocalUser \<Rightarrow> (string \<rightharpoonup> LocalUser)" where
  "load_user m u = m(l_UUID u \<mapsto> u)"

definition load :: "Store \<Rightarrow> Store \<times> load_error option" where
  "load s =
     (case disk s of
        NoFile \<Rightarrow> (s, None)
      | Unreadable \<Rightarrow> (s, Some ReadFailed)
      | Garbage \<Rightarrow> (s, Some UnmarshalFailed)
      | UsersFile d \<Rightarrow> (s\<lparr>s_users := foldl load_user (s_users s) (data_Users d)\<rparr>, None))"

definition NewStore :: "users_file \<Rightarrow> bool \<Rightarrow> Store" where
  "NewStore file onChange =
     fst (load \<lparr>s_users = Map.empty, disk = file, has_onChange = onChange, changes = 0\<rparr>)"

definition save :: "save_env \<Rightarrow> Store \<Rightarrow> Store \<times> bool" where
  "save e s =
     (let users = range_values (s_users s) (save_order e);
          data = \<lparr>data_Version = itoa (save_nano e), data_Users = users\<rparr>
      in case save_fails e of
           Some MarshalFailed \<Rightarrow> (s, False)
         | Some (WriteFailed left) \<Rightarrow> (s\<lparr>disk := left\<rparr>, False)
         | None \<Rightarrow> (s\<lparr>disk := UsersFile data\<rparr>, True))"

definition notify :: "Store \<Rightarrow> Store" where
  "notify s = (if has_onChange s then s\<lparr>changes := Suc (changes s)\<rparr> else s)"

definition put_user :: "LocalUser \<Rightarrow> Store \<Rightarrow> Store" where
  "put_user u s = s\<lparr>s_users := (s_users s)(l_UUID u \<mapsto> u)\<rparr>"

definition drop_user :: "string \<Rightarrow> Store \<Rightarrow> Store" where
  "drop_user uuid s = s\<lparr>s_users := (s_users s)(uuid := None)\<rparr>"

text \<open>\<^verbatim>\<open>time.Now().AddDate(0, 0, days)\<close> in a time zone without daylight saving (the container's UTC).\<close>

definition addDays :: "time \<Rightarrow> int \<Rightarrow> time" where
  "addDays t days = t + days * (24 * 3600 * 1000000000)"

definition generatePassword :: "byte list option \<Rightarrow> nat \<Rightarrow> string option" where
  "generatePassword rand len = map_option (\<lambda>bytes. take len (hex_encode bytes)) rand"

record CreateUserRequest =
  c_Name :: string
  c_Protocols :: "string list"
  c_TrafficLimit :: int
  c_ExpireDays :: int

record UpdateUserRequest =
  up_Name :: "string option"
  up_Enabled :: "bool option"
  up_TrafficLimit :: "int option"
  up_ExpireDays :: "int option"
  up_Protocols :: "string list"
  up_ExpireAt :: "time option"
  up_ClearExpire :: bool

definition default_protocols :: "string list" where
  "default_protocols = [''vless'', ''shadowsocks'']"

definition CreateUser ::
    "string \<Rightarrow> byte list option \<Rightarrow> time \<Rightarrow> time \<Rightarrow> save_env \<Rightarrow> CreateUserRequest \<Rightarrow> Store \<Rightarrow>
     Store \<times> (store_error + LocalUser)" where
  "CreateUser userUUID rand tExpire now e req s =
     (case generatePassword rand 16 of
        None \<Rightarrow> (s, Inl GeneratePassword)
      | Some ssPassword \<Rightarrow>
          (let protocols = (if c_Protocols req = [] then default_protocols else c_Protocols req);
               expireAt = (if 0 < c_ExpireDays req then Some (addDays tExpire (c_ExpireDays req)) else None);
               user = \<lparr>l_UUID = userUUID, l_Name = c_Name req, l_Protocols = protocols,
                       l_SSPassword = ssPassword, l_Enabled = True,
                       l_TrafficLimit = c_TrafficLimit req, l_TrafficUsed = 0, l_ExpireAt = expireAt,
                       CreatedAt = now, UpdatedAt = now\<rparr>;
               (s', ok) = save e (put_user user s)
           in if \<not> ok then (drop_user userUUID s', Inl SaveUsers)
              else (notify s', Inr user)))"

definition UpsertUser ::
    "time \<Rightarrow> save_env \<Rightarrow> LocalUser \<Rightarrow> Store \<Rightarrow> Store \<times> (store_error + LocalUser \<times> bool)" where
  "UpsertUser now e u s =
     (if l_UUID u = '''' then (s, Inl UUIDRequired)
      else case s_users s (l_UUID u) of
        Some existing \<Rightarrow>
          if l_SSPassword existing \<noteq> l_SSPassword u then (s, Inl ErrUserConflict)
          else
            (let existing = existing\<lparr>l_Name := l_Name u\<rparr>;
                 existing = (if 0 < length (l_Protocols u)
                             then existing\<lparr>l_Protocols := l_Protocols u\<rparr> else existing);
                 existing = existing\<lparr>l_Enabled := l_Enabled u, l_TrafficLimit := l_TrafficLimit u,
                              l_ExpireAt := l_ExpireAt u, UpdatedAt := now\<rparr>;
                 (s', ok) = save e (s\<lparr>s_users := (s_users s)(l_UUID u \<mapsto> existing)\<rparr>)
             in if \<not> ok then (s', Inl SaveUsers) else (notify s', Inr (existing, False)))
      | None \<Rightarrow>
          (let protocols = (if l_Protocols u = [] then default_protocols else l_Protocols u);
               user = \<lparr>l_UUID = l_UUID u, l_Name = l_Name u, l_Protocols = protocols,
                       l_SSPassword = l_SSPassword u, l_Enabled = l_Enabled u,
                       l_TrafficLimit = l_TrafficLimit u, l_TrafficUsed = 0, l_ExpireAt = l_ExpireAt u,
                       CreatedAt = now, UpdatedAt = now\<rparr>;
               (s', ok) = save e (put_user user s)
           in if \<not> ok then (drop_user (l_UUID user) s', Inl SaveUsers)
              else (notify s', Inr (user, True))))"

definition ResetTraffic :: "time \<Rightarrow> save_env \<Rightarrow> string \<Rightarrow> Store \<Rightarrow> Store \<times> store_error option" where
  "ResetTraffic now e uuid s =
     (case s_users s uuid of
        None \<Rightarrow> (s, Some (UserNotFound uuid))
      | Some user \<Rightarrow>
          (let user = user\<lparr>l_TrafficUsed := 0, UpdatedAt := now\<rparr>;
               (s', ok) = save e (s\<lparr>s_users := (s_users s)(uuid \<mapsto> user)\<rparr>)
           in (s', if ok then None else Some SaveUsers)))"

definition GetUser :: "string \<Rightarrow> Store \<Rightarrow> LocalUser option" where
  "GetUser uuid s = s_users s uuid"

definition ListUsers :: "string list \<Rightarrow> Store \<Rightarrow> LocalUser list" where
  "ListUsers ks s = range_values (s_users s) ks"

definition update_expiry :: "time \<Rightarrow> UpdateUserRequest \<Rightarrow> time option \<Rightarrow> time option" where
  "update_expiry now req expire =
     (if up_ClearExpire req then None
      else case up_ExpireAt req of
        Some t \<Rightarrow> Some t
      | None \<Rightarrow>
          (case up_ExpireDays req of
             Some d \<Rightarrow> if 0 < d then Some (addDays now d) else None
           | None \<Rightarrow> expire))"

definition update_fields :: "time \<Rightarrow> time \<Rightarrow> UpdateUserRequest \<Rightarrow> LocalUser \<Rightarrow> LocalUser" where
  "update_fields tExpire now req user =
     (let user = (case up_Name req of Some n \<Rightarrow> user\<lparr>l_Name := n\<rparr> | None \<Rightarrow> user);
          user = (case up_Enabled req of Some b \<Rightarrow> user\<lparr>l_Enabled := b\<rparr> | None \<Rightarrow> user);
          user = (case up_TrafficLimit req of Some l \<Rightarrow> user\<lparr>l_TrafficLimit := l\<rparr> | None \<Rightarrow> user);
          user = user\<lparr>l_ExpireAt := update_expiry tExpire req (l_ExpireAt user)\<rparr>;
          user = (if 0 < length (up_Protocols req) then user\<lparr>l_Protocols := up_Protocols req\<rparr> else user)
      in user\<lparr>UpdatedAt := now\<rparr>)"

definition UpdateUser ::
    "time \<Rightarrow> time \<Rightarrow> save_env \<Rightarrow> string \<Rightarrow> UpdateUserRequest \<Rightarrow> Store \<Rightarrow> Store \<times> (store_error + LocalUser)" where
  "UpdateUser tExpire now e uuid req s =
     (case s_users s uuid of
        None \<Rightarrow> (s, Inl (UserNotFound uuid))
      | Some user \<Rightarrow>
          (let user = update_fields tExpire now req user;
               (s', ok) = save e (s\<lparr>s_users := (s_users s)(uuid \<mapsto> user)\<rparr>)
           in if \<not> ok then (s', Inl SaveUsers) else (notify s', Inr user)))"

definition DeleteUser :: "save_env \<Rightarrow> string \<Rightarrow> Store \<Rightarrow> Store \<times> store_error option" where
  "DeleteUser e uuid s =
     (case s_users s uuid of
        None \<Rightarrow> (s, Some (UserNotFound uuid))
      | Some _ \<Rightarrow>
          (let (s', ok) = save e (drop_user uuid s)
           in if \<not> ok then (s', Some SaveUsers) else (notify s', None)))"

text \<open>The result of \<^verbatim>\<open>save\<close> is ignored here: the next accounting round writes again.\<close>

definition AddTraffic :: "save_env \<Rightarrow> string \<Rightarrow> int \<Rightarrow> int \<Rightarrow> Store \<Rightarrow> Store \<times> bool" where
  "AddTraffic e uuid upload download s =
     (case s_users s uuid of
        None \<Rightarrow> (s, False)
      | Some user \<Rightarrow>
          if i64 (upload + download) \<le> 0 then (s, False)
          else
            (let before = l_TrafficUsed user;
                 user = user\<lparr>l_TrafficUsed := i64 (l_TrafficUsed user + i64 (upload + download))\<rparr>;
                 (s', _) = save e (s\<lparr>s_users := (s_users s)(uuid \<mapsto> user)\<rparr>)
             in (s', 0 < l_TrafficLimit user \<and> before < l_TrafficLimit user \<and>
                     l_TrafficLimit user \<le> l_TrafficUsed user)))"

definition Clear :: "save_env \<Rightarrow> Store \<Rightarrow> Store \<times> store_error option" where
  "Clear e s =
     (let (s', ok) = save e (s\<lparr>s_users := Map.empty\<rparr>)
      in if \<not> ok then (s', Some SaveUsers) else (notify s', None))"

definition store_GetUserCount :: "Store \<Rightarrow> nat" where
  "store_GetUserCount s = card (dom (s_users s))"

section \<open>The invariant and what a restart finds\<close>

definition store_wf :: "Store \<Rightarrow> bool" where
  "store_wf s \<longleftrightarrow> finite (dom (s_users s)) \<and> (\<forall>k u. s_users s k = Some u \<longrightarrow> l_UUID u = k)"

definition restart :: "Store \<Rightarrow> Store" where
  "restart s = NewStore (disk s) (has_onChange s)"

definition synced :: "Store \<Rightarrow> bool" where
  "synced s \<longleftrightarrow> s_users (restart s) = s_users s"

text \<open>The operations that change the store, with the inputs they read.\<close>

datatype store_op =
    Create string "byte list option" time time save_env CreateUserRequest
  | Upsert time save_env LocalUser
  | Reset_Traffic time save_env string
  | Update time time save_env string UpdateUserRequest
  | Delete save_env string
  | Add_Traffic save_env string int int
  | Clear_All save_env

fun exec_op :: "store_op \<Rightarrow> Store \<Rightarrow> Store" where
  "exec_op (Create uuid rand t now e req) s = fst (CreateUser uuid rand t now e req s)"
| "exec_op (Upsert now e u) s = fst (UpsertUser now e u s)"
| "exec_op (Reset_Traffic now e uuid) s = fst (ResetTraffic now e uuid s)"
| "exec_op (Update t now e uuid req) s = fst (UpdateUser t now e uuid req s)"
| "exec_op (Delete e uuid) s = fst (DeleteUser e uuid s)"
| "exec_op (Add_Traffic e uuid up down) s = fst (AddTraffic e uuid up down s)"
| "exec_op (Clear_All e) s = fst (Clear e s)"

fun op_env :: "store_op \<Rightarrow> save_env" where
  "op_env (Create uuid rand t now e req) = e"
| "op_env (Upsert now e u) = e"
| "op_env (Reset_Traffic now e uuid) = e"
| "op_env (Update t now e uuid req) = e"
| "op_env (Delete e uuid) = e"
| "op_env (Add_Traffic e uuid up down) = e"
| "op_env (Clear_All e) = e"

text \<open>The write succeeds, and the range over the map visits each user of the map it saves.\<close>

definition op_sound :: "store_op \<Rightarrow> Store \<Rightarrow> bool" where
  "op_sound op s \<longleftrightarrow> save_fails (op_env op) = None \<and>
     range_order (s_users (exec_op op s)) (save_order (op_env op))"

lemma save_simps [simp]:
  "s_users (fst (save e s)) = s_users s"
  "has_onChange (fst (save e s)) = has_onChange s"
  "changes (fst (save e s)) = changes s"
  by (auto simp: save_def Let_def split: option.splits save_failure.splits)

lemma save_ok: "save_fails e = None \<Longrightarrow> save e s =
    (s\<lparr>disk := UsersFile \<lparr>data_Version = itoa (save_nano e), data_Users = range_values (s_users s) (save_order e)\<rparr>\<rparr>, True)"
  by (simp add: save_def Let_def)

lemma save_result [simp]: "snd (save e s) \<longleftrightarrow> save_fails e = None"
  by (auto simp: save_def Let_def split: option.splits save_failure.splits)

lemma notify_simps [simp]:
  "s_users (notify s) = s_users s" "disk (notify s) = disk s" "has_onChange (notify s) = has_onChange s"
  by (simp_all add: notify_def)

lemma foldl_load_user:
  "distinct (map l_UUID us) \<Longrightarrow> foldl load_user m us k = (case find (\<lambda>u. l_UUID u = k) us of
     Some u \<Rightarrow> Some u | None \<Rightarrow> m k)"
proof (induction us arbitrary: m)
  case (Cons u us)
  have "find (\<lambda>v. l_UUID v = l_UUID u) us = None"
    using Cons.prems by (auto simp: find_None_iff image_iff)
  with Cons show ?case by (auto simp: load_user_def)
qed simp

lemma find_unique:
  "u \<in> set xs \<Longrightarrow> P u \<Longrightarrow> (\<And>v. v \<in> set xs \<Longrightarrow> P v \<Longrightarrow> v = u) \<Longrightarrow> find P xs = Some u"
proof (induction xs)
  case (Cons x xs)
  show ?case
  proof (cases "P x")
    case True
    have "x = u" by (rule Cons.prems(3)) (simp_all add: True)
    with True show ?thesis by simp
  next
    case False
    have "find P xs = Some u"
      using Cons.prems(1) False Cons.prems(2) by (intro Cons.IH Cons.prems(3)) auto
    then show ?thesis by (simp add: False)
  qed
qed simp

lemma load_range_values:
  assumes "range_order m ks" "\<And>k u. m k = Some u \<Longrightarrow> l_UUID u = k"
  shows "foldl load_user Map.empty (range_values m ks) = m"
proof
  fix k
  have ids: "map l_UUID (range_values m ks') = ks'" if "set ks' \<subseteq> dom m" for ks'
    using that assms(2) by (induction ks') (auto split: option.splits)
  have "distinct (map l_UUID (range_values m ks))"
    using assms(1) by (simp add: ids range_order_def)
  moreover have "set (range_values m ks) = ran m"
    using assms(1) by (rule set_range_values_order)
  then have "find (\<lambda>u. l_UUID u = k) (range_values m ks) = m k"
  proof (cases "m k")
    case None
    with \<open>set (range_values m ks) = ran m\<close> assms(2) show ?thesis
      by (force simp: find_None_iff ran_def)
  next
    case (Some u)
    have "find (\<lambda>u. l_UUID u = k) (range_values m ks) = Some u"
      using \<open>set (range_values m ks) = ran m\<close> assms(2) Some
      by (intro find_unique) (auto simp: ran_def)
    with Some show ?thesis by simp
  qed
  ultimately show "foldl load_user Map.empty (range_values m ks) k = m k"
    by (simp add: foldl_load_user split: option.split)
qed

lemma synced_save:
  assumes "store_wf s" "save_fails e = None" "range_order (s_users s) (save_order e)"
  shows "synced (fst (save e s))"
  using assms load_range_values [of "s_users s" "save_order e"]
  by (simp add: synced_def restart_def NewStore_def load_def save_ok store_wf_def)

lemma put_drop_simps [simp]:
  "s_users (put_user u s) = (s_users s)(l_UUID u \<mapsto> u)" "has_onChange (put_user u s) = has_onChange s"
  "s_users (drop_user k s) = (s_users s)(k := None)" "has_onChange (drop_user k s) = has_onChange s"
  by (simp_all add: put_user_def drop_user_def)

lemma update_fields_UUID [simp]: "l_UUID (update_fields t now req u) = l_UUID u"
  by (simp add: update_fields_def Let_def split: option.splits)

lemmas op_defs = CreateUser_def UpsertUser_def ResetTraffic_def UpdateUser_def DeleteUser_def
  AddTraffic_def Clear_def

lemma exec_op_has_onChange [simp]: "has_onChange (exec_op op s) = has_onChange s"
  by (cases op) (simp_all add: op_defs Let_def split_beta split: option.splits)

lemma exec_op_wf:
  assumes "store_wf s"
  shows "store_wf (exec_op op s)"
proof -
  have [simp]: "finite (dom (s_users s))" and id [simp]: "\<And>k u. s_users s k = Some u \<Longrightarrow> l_UUID u = k"
    using assms by (auto simp: store_wf_def)
  show ?thesis
    by (cases op) (auto simp: op_defs store_wf_def Let_def split_beta split: option.splits if_splits)
qed

lemma exec_op_view:
  assumes "s_users s = s_users t"
  shows "s_users (exec_op op s) = s_users (exec_op op t)"
  using assms by (cases op) (simp_all add: op_defs Let_def split_beta split: option.splits)

text \<open>An operation whose write succeeds leaves the store alone or saves the map it leaves in memory.\<close>

lemma exec_op_saves:
  assumes "save_fails (op_env op) = None"
  shows "exec_op op s = s \<or> disk (exec_op op s) =
    UsersFile \<lparr>data_Version = itoa (save_nano (op_env op)),
      data_Users = range_values (s_users (exec_op op s)) (save_order (op_env op))\<rparr>"
  using assms
  by (cases op) (simp_all add: op_defs Let_def split_beta save_ok split: option.splits)

lemma exec_op_synced:
  assumes "store_wf s" "synced s" "op_sound op s"
  shows "synced (exec_op op s)"
proof (cases "exec_op op s = s")
  case False
  have "foldl load_user Map.empty (range_values (s_users (exec_op op s)) (save_order (op_env op))) =
      s_users (exec_op op s)"
    using assms(3) exec_op_wf [OF assms(1), of op]
    by (intro load_range_values) (auto simp: op_sound_def store_wf_def)
  with False exec_op_saves [of op s] assms(3) show ?thesis
    by (simp add: op_sound_def synced_def restart_def NewStore_def load_def)
qed (use assms in simp)

lemma restart_simps [simp]: "disk (restart s) = disk s" "has_onChange (restart s) = has_onChange s"
  by (simp_all add: restart_def NewStore_def load_def split: users_file.splits)

lemma restart_restart [simp]: "restart (restart s) = restart s"
  by (simp only: restart_def [of "restart s"] restart_simps) (simp only: restart_def)

interpretation local_store: restartable exec_op restart s_users "\<lambda>s. store_wf s \<and> synced s" op_sound
proof unfold_locales
  fix s t :: Store and op :: store_op
  show "store_wf s \<and> synced s \<Longrightarrow> op_sound op s \<Longrightarrow> store_wf (exec_op op s) \<and> synced (exec_op op s)"
    by (simp add: exec_op_wf exec_op_synced)
  show "store_wf s \<and> synced s \<Longrightarrow> store_wf (restart s) \<and> synced (restart s)"
    by (auto simp: synced_def store_wf_def)
  show "store_wf s \<and> synced s \<Longrightarrow> s_users (restart s) = s_users s"
    by (simp add: synced_def)
  assume eq: "s_users s = s_users t"
  then show "s_users (exec_op op s) = s_users (exec_op op t)"
    by (rule exec_op_view)
  with eq show "op_sound op s = op_sound op t"
    by (simp add: op_sound_def)
qed

text \<open>
  C16. Restarts of the agent are unobservable in the user store: starting from an empty data
  directory, after any sequence of operations whose writes succeed and any number of restarts
  in between, a further restart finds exactly the users that the operations alone produce.
\<close>

theorem LocalStore_survives_restarts:
  assumes "local_store.all_sound es (NewStore NoFile cb)"
  shows "s_users (restart (local_store.run es (NewStore NoFile cb))) =
    s_users (fold exec_op (local_store.ops es) (NewStore NoFile cb))"
proof (rule local_store.restart_unobservable [OF _ assms])
  show "store_wf (NewStore NoFile cb) \<and> synced (NewStore NoFile cb)"
    by (simp add: store_wf_def synced_def restart_def NewStore_def load_def)
qed

definition ok_save :: "string list \<Rightarrow> save_env" where
  "ok_save ks = \<lparr>save_order = ks, save_nano = 7, save_fails = None\<rparr>"

definition sample_request :: CreateUserRequest where
  "sample_request = \<lparr>c_Name = ''n'', c_Protocols = [], c_TrafficLimit = 100, c_ExpireDays = 0\<rparr>"

lemma LocalStore_survives_restarts_witness:
  "let create = Create ''u1'' (Some [0xab]) 5 6 (ok_save [''u1'']) sample_request;
       es = [Do create, Reboot, Do (Add_Traffic (ok_save [''u1'']) ''u1'' 30 70)]
   in map_option l_TrafficUsed (s_users (restart (local_store.run es (NewStore NoFile True))) ''u1'') = Some 100"
proof -
  let ?create = "Create ''u1'' (Some [0xab]) 5 6 (ok_save [''u1'']) sample_request"
  let ?es = "[Do ?create, Reboot, Do (Add_Traffic (ok_save [''u1'']) ''u1'' 30 70)]"
  note defs = ok_save_def sample_request_def CreateUser_def AddTraffic_def generatePassword_def save_ok
    NewStore_def restart_def load_def load_user_def notify_def put_user_def i64_id is_i64_def Let_def
  have "local_store.all_sound ?es (NewStore NoFile True)"
    by (simp add: op_sound_def defs range_order_def)
  from LocalStore_survives_restarts [OF this]
  have eq: "s_users (restart (local_store.run ?es (NewStore NoFile True))) =
      s_users (fold exec_op [?create, Add_Traffic (ok_save [''u1'']) ''u1'' 30 70] (NewStore NoFile True))"
    by simp
  have "map_option l_TrafficUsed (s_users (fold exec_op
      [?create, Add_Traffic (ok_save [''u1'']) ''u1'' 30 70] (NewStore NoFile True)) ''u1'') = Some 100"
    by (simp add: defs)
  then show ?thesis unfolding Let_def eq .
qed

section \<open>Failing writes\<close>

text \<open>
  Creating a user is all or nothing: the reply is an error exactly when the random source
  or the write fails, and then the users in memory are the ones before (the new uuid is
  fresh); otherwise the new user is in the store, with the defaults the API documents, and the
  callback has been started once.
\<close>

theorem CreateUser_atomic:
  assumes fresh: "s_users s uuid = None"
    and res: "CreateUser uuid rand t now e req s = (s', r)"
  shows "(case r of
      Inl err \<Rightarrow> (rand = None \<or> save_fails e \<noteq> None) \<and> s_users s' = s_users s \<and> changes s' = changes s
    | Inr u \<Rightarrow> rand \<noteq> None \<and> save_fails e = None \<and> s_users s' = (s_users s)(uuid \<mapsto> u) \<and>
        l_UUID u = uuid \<and> l_Enabled u \<and> l_TrafficUsed u = 0 \<and> l_TrafficLimit u = c_TrafficLimit req \<and>
        l_Protocols u = (if c_Protocols req = [] then [''vless'', ''shadowsocks''] else c_Protocols req) \<and>
        (l_ExpireAt u = None \<longleftrightarrow> c_ExpireDays req \<le> 0) \<and>
        changes s' = changes s + (if has_onChange s then 1 else 0))"
proof -
  have [simp]: "(s_users s)(uuid := None) = s_users s"
    using fresh by auto
  have [simp]: "changes (put_user u s) = changes s" "changes (drop_user k s) = changes s" for u k s
    by (simp_all add: put_user_def drop_user_def)
  show ?thesis
    using res
    by (auto simp: CreateUser_def generatePassword_def Let_def split_beta notify_def default_protocols_def
        split: option.splits if_splits)
qed

lemma CreateUser_atomic_witness:
  "s_users (fst (CreateUser ''u1'' (Some [1]) 5 6 (ok_save [''u1'']\<lparr>save_fails := Some MarshalFailed\<rparr>)
     sample_request (NewStore NoFile True))) = Map.empty"
proof -
  let ?c = "CreateUser ''u1'' (Some [1]) 5 6 (ok_save [''u1'']\<lparr>save_fails := Some MarshalFailed\<rparr>)
     sample_request (NewStore NoFile True)"
  have e: "s_users (NewStore NoFile True) = Map.empty"
    by (simp add: NewStore_def load_def)
  then have "s_users (NewStore NoFile True) ''u1'' = None"
    by simp
  moreover have "?c = (fst ?c, Inl SaveUsers)"
    by (simp add: CreateUser_def generatePassword_def Let_def split_beta ok_save_def)
  ultimately show ?thesis
    using CreateUser_atomic [of "NewStore NoFile True" "''u1''"] e by fastforce
qed

text \<open>
  Updates, deletions and clearing are not rolled back when the write fails: the caller gets an
  error and the change stays in memory, without the callback.
\<close>

lemma UpdateUser_failed_save_keeps_change:
  assumes "s_users s uuid = Some u" "save_fails e = Some MarshalFailed"
  shows "UpdateUser t now e uuid req s =
    (s\<lparr>s_users := (s_users s)(uuid \<mapsto> update_fields t now req u)\<rparr>, Inl SaveUsers)"
  using assms by (simp add: UpdateUser_def save_def Let_def)

text \<open>
  C32. A deletion that cannot be saved is reported as an error, but the user is gone from memory
  and nothing reloads the configuration, whether the encoder fails or the write. What the next
  start finds depends on the failure. If the file is untouched (the encoder failed, or the file
  could not be opened), all users are as before, the deleted one included. If the write
  failed half-way, the file is not a user list any more and no user at all is left; in general
  the users are those of whatever the write has left.
\<close>

theorem DeleteUser_failed_save:
  assumes "synced s" "s_users s uuid = Some u" "save_fails e = Some f"
  shows "let (s', r) = DeleteUser e uuid s; back = s_users (restart s')
    in r = Some SaveUsers \<and> s_users s' = (s_users s)(uuid := None) \<and> changes s' = changes s \<and>
       (f = MarshalFailed \<or> f = WriteFailed (disk s) \<longrightarrow> back = s_users s) \<and>
       (\<forall>left. f = WriteFailed left \<longrightarrow>
          back = (case left of UsersFile d \<Rightarrow> foldl load_user Map.empty (data_Users d) | _ \<Rightarrow> Map.empty))"
proof -
  let ?disk = "case f of MarshalFailed \<Rightarrow> disk s | WriteFailed left \<Rightarrow> left"
  have "DeleteUser e uuid s = ((drop_user uuid s)\<lparr>disk := ?disk\<rparr>, Some SaveUsers)"
    using assms by (cases f) (simp_all add: DeleteUser_def save_def drop_user_def Let_def)
  moreover have "s_users (restart (t\<lparr>disk := d\<rparr>)) =
      (case d of UsersFile d \<Rightarrow> foldl load_user Map.empty (data_Users d) | _ \<Rightarrow> Map.empty)" for t d
    by (simp add: restart_def NewStore_def load_def split: users_file.split)
  moreover have "(case disk s of UsersFile d \<Rightarrow> foldl load_user Map.empty (data_Users d) | _ \<Rightarrow> Map.empty) = s_users s"
    using assms(1) by (simp add: synced_def restart_def NewStore_def load_def split: users_file.splits)
  ultimately show ?thesis
    by (auto simp: drop_user_def)
qed

definition sample_local :: LocalUser where
  "sample_local = \<lparr>l_UUID = ''u1'', l_Name = ''n'', l_Protocols = [''vless''], l_SSPassword = ''pw'',
     l_Enabled = True, l_TrafficLimit = 100, l_TrafficUsed = 0, l_ExpireAt = None, CreatedAt = 1, UpdatedAt = 1\<rparr>"

definition sample_store :: Store where
  "sample_store = NewStore (UsersFile \<lparr>data_Version = ''1'', data_Users = [sample_local]\<rparr>) True"

lemma sample_store_users: "s_users sample_store = [''u1'' \<mapsto> sample_local]"
  by (simp add: sample_store_def NewStore_def load_def load_user_def sample_local_def)

lemma sample_store_ok: "store_wf sample_store" "synced sample_store"
  by (auto simp: store_wf_def sample_store_users sample_local_def split: if_splits)
    (simp add: synced_def restart_def sample_store_def NewStore_def load_def)

text \<open>Both ways to fail, at the store of one user.\<close>

lemma DeleteUser_failed_save_witness:
  "(let (s', r) = DeleteUser (ok_save []\<lparr>save_fails := Some MarshalFailed\<rparr>) ''u1'' sample_store
    in r = Some SaveUsers \<and> s_users s' = Map.empty \<and> s_users (restart s') ''u1'' = Some sample_local) \<and>
   (let (s', r) = DeleteUser (ok_save []\<lparr>save_fails := Some (WriteFailed Garbage)\<rparr>) ''u1'' sample_store
    in r = Some SaveUsers \<and> s_users s' = Map.empty \<and> s_users (restart s') = Map.empty)"
proof -
  have u1: "s_users sample_store ''u1'' = Some sample_local"
    by (simp add: sample_store_users)
  show ?thesis
    using DeleteUser_failed_save [OF sample_store_ok(2) u1, of "ok_save []\<lparr>save_fails := Some MarshalFailed\<rparr>" MarshalFailed]
      DeleteUser_failed_save [OF sample_store_ok(2) u1, of "ok_save []\<lparr>save_fails := Some (WriteFailed Garbage)\<rparr>"
        "WriteFailed Garbage"]
    by (simp add: sample_store_users split_beta Let_def)
qed

section \<open>Accounting\<close>

text \<open>
  A sequence of accounting calls, for this and other users, interleaved with nothing else. The
  number of calls for \<open>uuid\<close> that report a crossed limit, and what they add.
\<close>

type_synonym accounting = "save_env \<times> string \<times> int \<times> int"

fun account :: "string \<Rightarrow> accounting list \<Rightarrow> Store \<Rightarrow> Store \<times> nat" where
  "account uuid [] s = (s, 0)"
| "account uuid ((e, k, up, down) # r) s =
     (let (s1, crossed) = AddTraffic e k up down s;
          (s2, n) = account uuid r s1
      in (s2, (if k = uuid \<and> crossed then Suc n else n)))"

fun added :: "string \<Rightarrow> accounting list \<Rightarrow> int" where
  "added uuid [] = 0"
| "added uuid ((e, k, up, down) # r) = (if k = uuid then max 0 (up + down) else 0) + added uuid r"

lemma added_nonneg [simp]: "0 \<le> added uuid as"
  by (induction uuid as rule: added.induct) auto

definition small_entries :: "accounting list \<Rightarrow> bool" where
  "small_entries as \<longleftrightarrow> list_all (\<lambda>(e, k, up, down). is_i64 (up + down)) as"

lemma AddTraffic_other: "k \<noteq> uuid \<Longrightarrow> s_users (fst (AddTraffic e k up down s)) uuid = s_users s uuid"
  by (simp add: AddTraffic_def Let_def split_beta split: option.splits)

lemma AddTraffic_this:
  assumes "s_users s uuid = Some u" "is_i64 (up + down)" "is_i64 (l_TrafficUsed u + max 0 (up + down))"
  shows "s_users (fst (AddTraffic e uuid up down s)) uuid =
      Some (u\<lparr>l_TrafficUsed := l_TrafficUsed u + max 0 (up + down)\<rparr>)"
    and "snd (AddTraffic e uuid up down s) \<longleftrightarrow> 0 < l_TrafficLimit u \<and> l_TrafficUsed u < l_TrafficLimit u \<and>
      l_TrafficLimit u \<le> l_TrafficUsed u + max 0 (up + down)"
  using assms by (auto simp: AddTraffic_def Let_def split_beta i64_id max_def)

text \<open>
  C22. Accounting is exact: after any sequence of accounting calls the user's usage has grown
  by exactly the positive increments reported for him, and the crossing of his limit is
  reported by exactly one call, or by none when his usage was already there or never got
  there. So the configuration is regenerated once when a user runs out of quota.
\<close>

theorem AddTraffic_crosses_once:
  assumes "s_users s uuid = Some u" "small_entries as"
    and "0 \<le> l_TrafficUsed u" "is_i64 (l_TrafficUsed u + added uuid as)"
    and "account uuid as s = (s', n)"
  shows "s_users s' uuid = Some (u\<lparr>l_TrafficUsed := l_TrafficUsed u + added uuid as\<rparr>) \<and>
    n = (if l_TrafficUsed u < l_TrafficLimit u \<and> l_TrafficLimit u \<le> l_TrafficUsed u + added uuid as
         then 1 else 0)"
  using assms
proof (induction uuid as arbitrary: s u s' n rule: added.induct)
  case (2 uuid e k up down r)
  define s1 crossed where "s1 = fst (AddTraffic e k up down s)" and "crossed = snd (AddTraffic e k up down s)"
  obtain s2 m where rest: "account uuid r s1 = (s2, m)"
    by (cases "account uuid r s1")
  have step: "s' = s2" "n = (if k = uuid \<and> crossed then Suc m else m)"
    using "2.prems"(5) rest by (auto simp: s1_def crossed_def split_beta)
  define d where "d = (if k = uuid then max 0 (up + down) else 0)"
  have d: "0 \<le> d" "added uuid ((e, k, up, down) # r) = d + added uuid r" "small_entries r" "is_i64 (up + down)"
    using "2.prems"(2) by (simp_all add: d_def small_entries_def)
  have fits: "is_i64 (l_TrafficUsed u + d)"
    using "2.prems"(3,4) d(1,2) added_nonneg [of uuid r] unfolding is_i64_def by linarith
  have s1: "s_users s1 uuid = Some (u\<lparr>l_TrafficUsed := l_TrafficUsed u + d\<rparr>)"
    using "2.prems"(1) d(4) fits AddTraffic_this(1) [of s uuid u up down e] AddTraffic_other [of k uuid e up down s]
    by (cases "k = uuid") (simp_all add: s1_def d_def)
  have crossed: "k = uuid \<Longrightarrow> crossed \<longleftrightarrow> l_TrafficUsed u < l_TrafficLimit u \<and> l_TrafficLimit u \<le> l_TrafficUsed u + d"
    using "2.prems"(1,3) d(4) fits AddTraffic_this(2) [of s uuid u up down e]
    by (auto simp: crossed_def d_def)
  have IH: "s_users s2 uuid = Some (u\<lparr>l_TrafficUsed := l_TrafficUsed u + d + added uuid r\<rparr>) \<and>
      m = (if l_TrafficUsed u + d < l_TrafficLimit u \<and> l_TrafficLimit u \<le> l_TrafficUsed u + d + added uuid r
           then 1 else 0)"
    using "2.IH" [OF s1 d(3) _ _ rest] "2.prems"(3,4) d(1,2) by (simp add: add.assoc)
  then show ?case
    using crossed d(1) added_nonneg [of uuid r] unfolding step d(2)
    by (auto simp: d_def add.assoc simp del: added_nonneg)
qed simp

lemma AddTraffic_crosses_once_witness:
  "let as = [(ok_save [''u1''], ''u1'', 40, 20), (ok_save [''u1''], ''u2'', 5, 5),
             (ok_save [''u1''], ''u1'', 30, 20), (ok_save [''u1''], ''u1'', 1, 1)]
   in snd (account ''u1'' as sample_store) = 1"
proof -
  let ?as = "[(ok_save [''u1''], ''u1'', 40, 20), (ok_save [''u1''], ''u2'', 5, 5),
             (ok_save [''u1''], ''u1'', 30, 20), (ok_save [''u1''], ''u1'', 1, 1)]"
  have a: "account ''u1'' ?as sample_store =
      (fst (account ''u1'' ?as sample_store), snd (account ''u1'' ?as sample_store))"
    by simp
  have u: "s_users sample_store ''u1'' = Some sample_local"
    by (simp add: sample_store_users)
  have "snd (account ''u1'' ?as sample_store) =
      (if l_TrafficUsed sample_local < l_TrafficLimit sample_local \<and>
          l_TrafficLimit sample_local \<le> l_TrafficUsed sample_local + added ''u1'' ?as then 1 else 0)"
    by (rule AddTraffic_crosses_once [OF u _ _ _ a, THEN conjunct2])
      (simp_all add: small_entries_def is_i64_def sample_local_def)
  then show ?thesis
    by (simp add: Let_def sample_local_def)
qed

end
