(* ===== verification/Generator.thy ===== *)
theory Generator
  imports Json UserConfig
begin

text \<open>
  \<^verbatim>\<open>internal/config/generator.go\<close>: the sing-box configuration the agent writes. The point in
  time that \<^verbatim>\<open>Generate\<close> reads from the clock is the argument \<open>now\<close>; the JSON printer and the
  operating system's file write are arguments of \<open>WriteToFile\<close>.
\<close>

record Generator =
  vlessPort :: int
  ssPort :: int
  vmessPort :: int
  trojanPort :: int
  hy2Port :: int
  tuicPort :: int
  privateKey :: string
  shortIDs :: "string list"
  certPath :: string
  keyPath :: string

definition NewGenerator :: "int \<Rightarrow> int \<Rightarrow> string \<Rightarrow> string list \<Rightarrow> Generator" where
  "NewGenerator vless ss priv ids =
     \<lparr>vlessPort = vless, ssPort = ss, vmessPort = 0, trojanPort = 0, hy2Port = 0, tuicPort = 0,
      privateKey = priv, shortIDs = ids, certPath = '''', keyPath = ''''\<rparr>"

definition WithExtraProtocols ::
    "Generator \<Rightarrow> int \<Rightarrow> int \<Rightarrow> int \<Rightarrow> int \<Rightarrow> string \<Rightarrow> string \<Rightarrow> Generator" where
  "WithExtraProtocols g vmess trojan hy2 tuic cert key =
     g\<lparr>vmessPort := vmess, trojanPort := trojan, hy2Port := hy2, tuicPort := tuic,
       certPath := cert, keyPath := key\<rparr>"

definition ssMasterPassword :: "Generator \<Rightarrow> string" where
  "ssMasterPassword g =
     StdEncoding (sha256 (bytes_of_string (''otun-ss-master|'' @ privateKey g)))"

text \<open>\<^verbatim>\<open>orEmpty\<close>, applied to the possibly nil slice that \<^verbatim>\<open>append\<close> built.\<close>

definition orEmpty :: "json list \<Rightarrow> json" where
  "orEmpty u = JArr u"

definition SelfCertCN :: string where
  "SelfCertCN = ''www.bing.com''"

text \<open>The slices \<^verbatim>\<open>Generate\<close> collects while it walks over the users.\<close>

record collected =
  vlessUsers :: "json list"
  ssUsers :: "json list"
  vmessUsers :: "json list"
  trojanUsers :: "json list"
  hy2Users :: "json list"
  tuicUsers :: "json list"
  statsUsers :: "string list"

definition no_users :: collected where
  "no_users = \<lparr>vlessUsers = [], ssUsers = [], vmessUsers = [], trojanUsers = [], hy2Users = [],
     tuicUsers = [], statsUsers = []\<rparr>"

text \<open>The body of the inner loop: \<^verbatim>\<open>switch proto\<close>.\<close>

definition add_proto :: "User \<Rightarrow> collected \<Rightarrow> string \<Rightarrow> collected" where
  "add_proto u c proto =
     (if proto = ''vless'' then
        c\<lparr>vlessUsers := vlessUsers c @
          [JObj [(''name'', JStr (UUID u)), (''uuid'', JStr (UUID u)), (''flow'', JStr ''xtls-rprx-vision'')]]\<rparr>
      else if proto = ''shadowsocks'' then
        c\<lparr>ssUsers := ssUsers c @
          [JObj [(''name'', JStr (UUID u)), (''password'', JStr (SSPassword u))]]\<rparr>
      else if proto = ''vmess'' then
        c\<lparr>vmessUsers := vmessUsers c @
          [JObj [(''name'', JStr (UUID u)), (''uuid'', JStr (VMessUUID (UUID u))), (''alterId'', JNum 0)]]\<rparr>
      else if proto = ''trojan'' then
        c\<lparr>trojanUsers := trojanUsers c @
          [JObj [(''name'', JStr (UUID u)), (''password'', JStr (TrojanPassword (UUID u)))]]\<rparr>
      else if proto = ''hysteria2'' then
        c\<lparr>hy2Users := hy2Users c @
          [JObj [(''name'', JStr (UUID u)), (''password'', JStr (Hysteria2Password (UUID u)))]]\<rparr>
      else if proto = ''tuic'' then
        c\<lparr>tuicUsers := tuicUsers c @
          [JObj [(''name'', JStr (UUID u)), (''uuid'', JStr (TUICUUID (UUID u))),
                 (''password'', JStr (TUICPassword (UUID u)))]]\<rparr>
      else c)"

text \<open>The body of the outer loop, with its two \<^verbatim>\<open>continue\<close>s.\<close>

definition add_user :: "time \<Rightarrow> collected \<Rightarrow> User \<Rightarrow> collected" where
  "add_user now c u =
     (if \<not> Enabled u then c
      else if OverQuota u \<or> Expired u now then c
      else foldl (add_proto u) (c\<lparr>statsUsers := statsUsers c @ [UUID u]\<rparr>) (Protocols u))"

definition vlessInbound :: "Generator \<Rightarrow> string \<Rightarrow> json list \<Rightarrow> json" where
  "vlessInbound g sni us =
     jset ''users'' (if 0 < length us then JArr us else JArr [])
       (JObj [(''type'', JStr ''vless''), (''tag'', JStr ''vless-in''), (''listen'', JStr ''::''),
              (''listen_port'', JNum (vlessPort g)),
              (''tls'', JObj [(''enabled'', JBool True), (''server_name'', JStr sni),
                 (''reality'', JObj [(''enabled'', JBool True),
                    (''handshake'', JObj [(''server'', JStr sni), (''server_port'', JNum 443)]),
                    (''private_key'', JStr (privateKey g)),
                    (''short_id'', JArr (map JStr (shortIDs g)))])])])"

definition ssInbound :: "Generator \<Rightarrow> json list \<Rightarrow> json" where
  "ssInbound g us =
     jset ''users'' (if 0 < length us then JArr us else JArr [])
       (JObj [(''type'', JStr ''shadowsocks''), (''tag'', JStr ''ss-in''), (''listen'', JStr ''::''),
              (''listen_port'', JNum (ssPort g)), (''method'', JStr ''chacha20-ietf-poly1305''),
              (''password'', JStr (ssMasterPassword g))])"

definition selfTLS :: "Generator \<Rightarrow> json" where
  "selfTLS g = JObj [(''enabled'', JBool True), (''server_name'', JStr SelfCertCN),
     (''certificate_path'', JStr (certPath g)), (''key_path'', JStr (keyPath g))]"

definition vmessInbound :: "Generator \<Rightarrow> json list \<Rightarrow> json" where
  "vmessInbound g us =
     JObj [(''type'', JStr ''vmess''), (''tag'', JStr ''vmess-in''), (''listen'', JStr ''::''),
           (''listen_port'', JNum (vmessPort g)),
           (''transport'', JObj [(''type'', JStr ''ws''), (''path'', JStr ''/vmess'')]),
           (''users'', orEmpty us)]"

definition trojanInbound :: "Generator \<Rightarrow> json list \<Rightarrow> json" where
  "trojanInbound g us =
     JObj [(''type'', JStr ''trojan''), (''tag'', JStr ''trojan-in''), (''listen'', JStr ''::''),
           (''listen_port'', JNum (trojanPort g)), (''tls'', selfTLS g), (''users'', orEmpty us)]"

definition hy2Inbound :: "Generator \<Rightarrow> json list \<Rightarrow> json" where
  "hy2Inbound g us =
     JObj [(''type'', JStr ''hysteria2''), (''tag'', JStr ''hy2-in''), (''listen'', JStr ''::''),
           (''listen_port'', JNum (hy2Port g)), (''tls'', selfTLS g), (''users'', orEmpty us)]"

definition tuicInbound :: "Generator \<Rightarrow> json list \<Rightarrow> json" where
  "tuicInbound g us =
     (let tuicTLS = jset ''alpn'' (JArr [JStr ''h3'']) (selfTLS g)
      in JObj [(''type'', JStr ''tuic''), (''tag'', JStr ''tuic-in''), (''listen'', JStr ''::''),
               (''listen_port'', JNum (tuicPort g)), (''congestion_control'', JStr ''bbr''),
               (''tls'', tuicTLS), (''users'', orEmpty us)])"

definition inbounds_of :: "Generator \<Rightarrow> string \<Rightarrow> collected \<Rightarrow> json list" where
  "inbounds_of g sni c =
     (let inbounds = [vlessInbound g sni (vlessUsers c)];
          inbounds = inbounds @ [ssInbound g (ssUsers c)];
          inbounds = (if 0 < vmessPort g then inbounds @ [vmessInbound g (vmessUsers c)] else inbounds);
          hasCert = (certPath g \<noteq> '''' \<and> keyPath g \<noteq> '''');
          inbounds = (if 0 < trojanPort g \<and> hasCert
                      then inbounds @ [trojanInbound g (trojanUsers c)] else inbounds);
          inbounds = (if 0 < hy2Port g \<and> hasCert
                      then inbounds @ [hy2Inbound g (hy2Users c)] else inbounds);
          inbounds = (if 0 < tuicPort g \<and> hasCert
                      then inbounds @ [tuicInbound g (tuicUsers c)] else inbounds)
      in inbounds)"

definition Generate :: "time \<Rightarrow> Generator \<Rightarrow> User list \<Rightarrow> string \<Rightarrow> json" where
  "Generate now g users realitySNI =
     (let c = foldl (add_user now) no_users users;
          config = JObj
            [(''log'', JObj [(''level'', JStr ''info''), (''timestamp'', JBool True)]),
             (''outbounds'', JArr [JObj [(''type'', JStr ''direct''), (''tag'', JStr ''direct'')]])];
          config = jset ''inbounds'' (JArr (inbounds_of g realitySNI c)) config
      in jset ''experimental''
           (JObj [(''v2ray_api'', JObj
              [(''listen'', JStr ''127.0.0.1:10085''),
               (''stats'', JObj [(''enabled'', JBool True),
                                 (''users'', nil_slice (map JStr (statsUsers c)))])])])
           config)"

text \<open>
  \<^verbatim>\<open>WriteToFile\<close>: \<open>marshal\<close> is \<^verbatim>\<open>json.MarshalIndent\<close>, \<open>osWrite\<close> the effect of
  \<^verbatim>\<open>os.WriteFile\<close> on the file system, with \<open>None\<close> for success or the system's error.
\<close>

datatype write_error = MarshalConfig string | WriteFileError string

definition WriteToFile ::
    "(json \<Rightarrow> string + string) \<Rightarrow> (string \<Rightarrow> string \<Rightarrow> 'fs \<Rightarrow> 'fs \<times> string option) \<Rightarrow>
     json \<Rightarrow> string \<Rightarrow> 'fs \<Rightarrow> 'fs \<times> write_error option" where
  "WriteToFile marshal osWrite config path fs =
     (case marshal config of
        Inl e \<Rightarrow> (fs, Some (MarshalConfig e))
      | Inr data \<Rightarrow>
          (case osWrite path data fs of
             (fs', Some e) \<Rightarrow> (fs', Some (WriteFileError e))
           | (fs', None) \<Rightarrow> (fs', None)))"

section \<open>What a configuration serves\<close>

text \<open>The inbound with a given tag, the users it lists, and the users sing-box counts.\<close>

definition inbound :: "json \<Rightarrow> string \<Rightarrow> json option" where
  "inbound cfg tag = jfind ''tag'' tag (jget ''inbounds'' cfg)"

definition inbound_users :: "json \<Rightarrow> string \<Rightarrow> json list" where
  "inbound_users cfg tag = (case inbound cfg tag of None \<Rightarrow> [] | Some i \<Rightarrow> jelems (jget ''users'' i))"

definition stats_users :: "json \<Rightarrow> json list" where
  "stats_users cfg =
     jelems (jget ''users'' (jget ''stats'' (jget ''v2ray_api'' (jget ''experimental'' cfg))))"

definition served_names :: "json \<Rightarrow> json set" where
  "served_names cfg =
     {jget ''name'' u | u i. i \<in> set (jelems (jget ''inbounds'' cfg)) \<and> u \<in> set (jelems (jget ''users'' i))}"

text \<open>The entry of one user in the inbound of one protocol.\<close>

definition proto_entry :: "string \<Rightarrow> User \<Rightarrow> json" where
  "proto_entry proto u =
     (let n = (''name'', JStr (UUID u)) in
      if proto = ''vless'' then JObj [n, (''uuid'', JStr (UUID u)), (''flow'', JStr ''xtls-rprx-vision'')]
      else if proto = ''shadowsocks'' then JObj [n, (''password'', JStr (SSPassword u))]
      else if proto = ''vmess'' then JObj [n, (''uuid'', JStr (UUID u)), (''alterId'', JNum 0)]
      else if proto = ''trojan'' then JObj [n, (''password'', JStr (TrojanPassword (UUID u)))]
      else if proto = ''hysteria2'' then JObj [n, (''password'', JStr (Hysteria2Password (UUID u)))]
      else JObj [n, (''uuid'', JStr (TUICUUID (UUID u))), (''password'', JStr (TUICPassword (UUID u)))])"

definition proto_entries :: "string \<Rightarrow> User list \<Rightarrow> json list" where
  "proto_entries proto us =
     concat (map (\<lambda>u. replicate (count_list (Protocols u) proto) (proto_entry proto u)) us)"

definition protocol_tags :: "(string \<times> string) list" where
  "protocol_tags =
     [(''vless'', ''vless-in''), (''shadowsocks'', ''ss-in''), (''vmess'', ''vmess-in''),
      (''trojan'', ''trojan-in''), (''hysteria2'', ''hy2-in''), (''tuic'', ''tuic-in'')]"

definition proto_enabled :: "Generator \<Rightarrow> string \<Rightarrow> bool" where
  "proto_enabled g proto =
     (let hasCert = (certPath g \<noteq> '''' \<and> keyPath g \<noteq> '''') in
      if proto = ''vmess'' then 0 < vmessPort g
      else if proto = ''trojan'' then 0 < trojanPort g \<and> hasCert
      else if proto = ''hysteria2'' then 0 < hy2Port g \<and> hasCert
      else if proto = ''tuic'' then 0 < tuicPort g \<and> hasCert
      else True)"

definition collected_for :: "string \<Rightarrow> collected \<Rightarrow> json list" where
  "collected_for proto c =
     (if proto = ''vless'' then vlessUsers c
      else if proto = ''shadowsocks'' then ssUsers c
      else if proto = ''vmess'' then vmessUsers c
      else if proto = ''trojan'' then trojanUsers c
      else if proto = ''hysteria2'' then hy2Users c
      else tuicUsers c)"

lemma statsUsers_add_proto [simp]: "statsUsers (add_proto u c p) = statsUsers c"
  by (simp add: add_proto_def)

lemma collected_for_add_proto:
  assumes "proto \<in> fst ` set protocol_tags"
  shows "collected_for proto (add_proto u c p) =
    collected_for proto c @ (if p = proto then [proto_entry proto u] else [])"
  using assms
  by (auto simp: protocol_tags_def collected_for_def add_proto_def proto_entry_def VMessUUID_def)

lemma foldl_add_proto:
  assumes "proto \<in> fst ` set protocol_tags"
  shows "collected_for proto (foldl (add_proto u) c ps) =
    collected_for proto c @ replicate (count_list ps proto) (proto_entry proto u)"
  by (induction ps arbitrary: c) (auto simp: collected_for_add_proto [OF assms])

lemma statsUsers_foldl_add_proto [simp]: "statsUsers (foldl (add_proto u) c ps) = statsUsers c"
  by (induction ps arbitrary: c) auto

lemma collected_for_stats [simp]:
  "collected_for proto (c\<lparr>statsUsers := x\<rparr>) = collected_for proto c"
  by (simp add: collected_for_def)

lemma foldl_add_user:
  assumes "proto \<in> fst ` set protocol_tags"
  shows "collected_for proto (foldl (add_user now) c us) =
    collected_for proto c @ proto_entries proto (filter (servable now) us)"
  by (induction us arbitrary: c)
    (auto simp: add_user_def servable_def proto_entries_def foldl_add_proto [OF assms])

lemma statsUsers_foldl_add_user:
  "statsUsers (foldl (add_user now) c us) = statsUsers c @ map UUID (filter (servable now) us)"
  by (induction us arbitrary: c) (auto simp: add_user_def servable_def)

lemma collected_for_none [simp]: "collected_for proto no_users = []"
  by (simp add: collected_for_def no_users_def)

text \<open>Access to the parts of a generated configuration.\<close>

definition gathered :: "time \<Rightarrow> User list \<Rightarrow> collected" where
  "gathered now us = foldl (add_user now) no_users us"

lemma inbounds_Generate: "jget ''inbounds'' (Generate now g us sni) = JArr (inbounds_of g sni (gathered now us))"
  by (simp add: Generate_def Let_def gathered_def)

lemma stats_users_Generate:
  "jget ''users'' (jget ''stats'' (jget ''v2ray_api'' (jget ''experimental'' (Generate now g us sni)))) =
     nil_slice (map (JStr \<circ> UUID) (filter (servable now) us))"
  by (simp add: Generate_def Let_def statsUsers_foldl_add_user no_users_def comp_def)

lemma inbound_simps:
  "jget ''tag'' (vlessInbound g sni us) = JStr ''vless-in''" "jelems (jget ''users'' (vlessInbound g sni us)) = us"
  "jget ''tag'' (ssInbound g us) = JStr ''ss-in''" "jelems (jget ''users'' (ssInbound g us)) = us"
  "jget ''tag'' (vmessInbound g us) = JStr ''vmess-in''" "jelems (jget ''users'' (vmessInbound g us)) = us"
  "jget ''tag'' (trojanInbound g us) = JStr ''trojan-in''" "jelems (jget ''users'' (trojanInbound g us)) = us"
  "jget ''tag'' (hy2Inbound g us) = JStr ''hy2-in''" "jelems (jget ''users'' (hy2Inbound g us)) = us"
  "jget ''tag'' (tuicInbound g us) = JStr ''tuic-in''" "jelems (jget ''users'' (tuicInbound g us)) = us"
  by (simp_all add: vlessInbound_def ssInbound_def vmessInbound_def trojanInbound_def hy2Inbound_def
      tuicInbound_def orEmpty_def Let_def)

lemma inbounds_of_append:
  "inbounds_of g sni c =
     [vlessInbound g sni (vlessUsers c), ssInbound g (ssUsers c)] @
     (if proto_enabled g ''vmess'' then [vmessInbound g (vmessUsers c)] else []) @
     (if proto_enabled g ''trojan'' then [trojanInbound g (trojanUsers c)] else []) @
     (if proto_enabled g ''hysteria2'' then [hy2Inbound g (hy2Users c)] else []) @
     (if proto_enabled g ''tuic'' then [tuicInbound g (tuicUsers c)] else [])"
  by (simp add: inbounds_of_def Let_def proto_enabled_def)

lemma find_optional:
  "find P ((if b then [x] else []) @ ys) = (if b \<and> P x then Some x else find P ys)"
  "find P (if b then [x] else []) = (if b \<and> P x then Some x else None)"
  by simp_all

lemma inbound_Generate:
  "inbound (Generate now g us sni) ''vless-in'' = Some (vlessInbound g sni (vlessUsers (gathered now us)))"
  "inbound (Generate now g us sni) ''ss-in'' = Some (ssInbound g (ssUsers (gathered now us)))"
  "inbound (Generate now g us sni) ''vmess-in'' = (if proto_enabled g ''vmess'' then Some (vmessInbound g (vmessUsers (gathered now us))) else None)"
  "inbound (Generate now g us sni) ''trojan-in'' = (if proto_enabled g ''trojan'' then Some (trojanInbound g (trojanUsers (gathered now us))) else None)"
  "inbound (Generate now g us sni) ''hy2-in'' = (if proto_enabled g ''hysteria2'' then Some (hy2Inbound g (hy2Users (gathered now us))) else None)"
  "inbound (Generate now g us sni) ''tuic-in'' = (if proto_enabled g ''tuic'' then Some (tuicInbound g (tuicUsers (gathered now us))) else None)"
  by (simp_all only: inbound_def jfind_def inbounds_Generate inbounds_of_append jelems.simps append_Cons
      append_Nil find.simps find_optional inbound_simps json.inject list.inject char.inject simp_thms
      if_False if_True list.distinct not_False_eq_True HOL.False_not_True HOL.True_not_False)

lemma collected_for_simps:
  "collected_for ''vless'' c = vlessUsers c"
  "collected_for ''shadowsocks'' c = ssUsers c"
  "collected_for ''vmess'' c = vmessUsers c"
  "collected_for ''trojan'' c = trojanUsers c"
  "collected_for ''hysteria2'' c = hy2Users c"
  "collected_for ''tuic'' c = tuicUsers c"
  by (simp_all add: collected_for_def)

lemma inbound_users_simps:
  "inbound_users (Generate now g us sni) ''vless-in'' = vlessUsers (gathered now us)"
  "inbound_users (Generate now g us sni) ''ss-in'' = ssUsers (gathered now us)"
  "inbound_users (Generate now g us sni) ''vmess-in'' = (if proto_enabled g ''vmess'' then vmessUsers (gathered now us) else [])"
  "inbound_users (Generate now g us sni) ''trojan-in'' = (if proto_enabled g ''trojan'' then trojanUsers (gathered now us) else [])"
  "inbound_users (Generate now g us sni) ''hy2-in'' = (if proto_enabled g ''hysteria2'' then hy2Users (gathered now us) else [])"
  "inbound_users (Generate now g us sni) ''tuic-in'' = (if proto_enabled g ''tuic'' then tuicUsers (gathered now us) else [])"
  by (simp_all only: inbound_users_def inbound_Generate inbound_simps option.case simp_thms split: if_splits) simp_all

lemma always_enabled: "proto_enabled g ''vless'' = True" "proto_enabled g ''shadowsocks'' = True"
  by (simp_all add: proto_enabled_def)

lemma inbound_users_Generate:
  assumes "(proto, tag) \<in> set protocol_tags"
  shows "inbound_users (Generate now g us sni) tag =
    (if proto_enabled g proto then collected_for proto (gathered now us) else [])"
proof -
  have "list_all (\<lambda>(proto, tag). inbound_users (Generate now g us sni) tag =
      (if proto_enabled g proto then collected_for proto (gathered now us) else [])) protocol_tags"
    by (simp only: protocol_tags_def list.pred_inject prod.case inbound_users_simps collected_for_simps
        always_enabled if_True simp_thms)
  with assms show ?thesis by (auto simp: list_all_iff)
qed

text \<open>
  C5. Every inbound lists exactly the users that may be served (enabled, under quota, not
  expired), in the order of the user list, once per occurrence of the protocol in the user's
  list, with the credential the client side derives for that protocol.
\<close>

theorem Generate_inbound_users:
  assumes "(proto, tag) \<in> set protocol_tags" "proto_enabled g proto"
  shows "inbound_users (Generate now g us sni) tag = proto_entries proto (filter (servable now) us)"
proof -
  have "proto \<in> fst ` set protocol_tags"
    using assms(1) by (rule image_eqI [rotated]) simp
  then show ?thesis
    by (simp add: inbound_users_Generate [OF assms(1)] assms(2) gathered_def foldl_add_user)
qed

definition sample_user :: User where
  "sample_user = \<lparr>UUID = ''u1'', Protocols = [''vless'', ''shadowsocks''], SSPassword = ''pw'', Enabled = True,
     TrafficLimit = 100, TrafficUsed = 10, ExpireAt = Some 50, DeviceID = ''''\<rparr>"

lemma sample_servable: "servable 20 sample_user" "\<not> servable 60 sample_user"
  "\<not> servable 20 (sample_user\<lparr>TrafficUsed := 100\<rparr>)"
  by (simp_all add: servable_def sample_user_def OverQuota_def Expired_def)

lemma Generate_inbound_users_witness:
  "inbound_users (Generate 20 (NewGenerator 443 8388 ''key'' []) [sample_user, sample_user\<lparr>TrafficUsed := 100\<rparr>] ''sni'') ''ss-in'' =
     [JObj [(''name'', JStr ''u1''), (''password'', JStr ''pw'')]]"
proof -
  let ?us = "[sample_user, sample_user\<lparr>TrafficUsed := 100\<rparr>]"
  have "inbound_users (Generate 20 (NewGenerator 443 8388 ''key'' []) ?us ''sni'') ''ss-in'' =
      proto_entries ''shadowsocks'' (filter (servable 20) ?us)"
    by (rule Generate_inbound_users) (simp_all add: protocol_tags_def always_enabled)
  also have "\<dots> = [JObj [(''name'', JStr ''u1''), (''password'', JStr ''pw'')]]"
    by (simp add: sample_servable) (simp add: proto_entries_def proto_entry_def sample_user_def)
  finally show ?thesis .
qed

lemma name_proto_entry [simp]: "jget ''name'' (proto_entry proto u) = JStr (UUID u)"
  by (simp add: proto_entry_def Let_def)

lemma names_proto_entries:
  "jget ''name'' ` set (proto_entries proto us) \<subseteq> (JStr \<circ> UUID) ` set us"
  by (auto simp: proto_entries_def)

lemma inbounds_of_users:
  assumes "i \<in> set (inbounds_of g sni c)"
  shows "\<exists>proto \<in> fst ` set protocol_tags. jelems (jget ''users'' i) = collected_for proto c"
proof -
  have tags: "fst ` set protocol_tags =
      {''vless'', ''shadowsocks'', ''vmess'', ''trojan'', ''hysteria2'', ''tuic''}"
    by (simp add: protocol_tags_def)
  have "i \<in> {vlessInbound g sni (vlessUsers c), ssInbound g (ssUsers c), vmessInbound g (vmessUsers c),
      trojanInbound g (trojanUsers c), hy2Inbound g (hy2Users c), tuicInbound g (tuicUsers c)}"
    using assms unfolding inbounds_of_append by (simp split: if_splits) blast+
  then have "jelems (jget ''users'' i) \<in> (\<lambda>p. collected_for p c) ` fst ` set protocol_tags"
    unfolding tags image_insert collected_for_simps
    by (elim insertE emptyE) (simp_all only: inbound_simps insert_iff simp_thms)
  then show ?thesis by auto
qed

lemma stats_users_servable:
  "stats_users (Generate now g us sni) = map (JStr \<circ> UUID) (filter (servable now) us)"
  by (simp add: stats_users_def stats_users_Generate)

lemma served_names_servable:
  "served_names (Generate now g us sni) \<subseteq> (JStr \<circ> UUID) ` set (filter (servable now) us)"
proof -
  have "jget ''name'' u \<in> (JStr \<circ> UUID) ` set (filter (servable now) us)"
    if i: "i \<in> set (inbounds_of g sni (gathered now us))" and u: "u \<in> set (jelems (jget ''users'' i))" for i u
  proof -
    obtain p where p: "p \<in> fst ` set protocol_tags"
      and eq: "jelems (jget ''users'' i) = collected_for p (gathered now us)"
      using inbounds_of_users [OF i] by blast
    have "u \<in> set (collected_for p (gathered now us))"
      using u by (simp only: eq)
    with p have "u \<in> set (proto_entries p (filter (servable now) us))"
      by (simp only: gathered_def foldl_add_user [OF p] collected_for_none append_Nil)
    then show ?thesis
      using names_proto_entries [of p "filter (servable now) us"] by blast
  qed
  then show ?thesis
    by (auto simp: served_names_def inbounds_Generate)
qed

lemma inbound_users_servable:
  assumes "(proto, tag) \<in> set protocol_tags"
  shows "inbound_users (Generate now g us sni) tag =
    (if proto_enabled g proto then proto_entries proto (filter (servable now) us) else [])"
proof -
  have "proto \<in> fst ` set protocol_tags"
    using assms by (rule image_eqI [rotated]) simp
  then show ?thesis
    by (simp add: inbound_users_Generate [OF assms] gathered_def foldl_add_user)
qed

text \<open>
  A user that is disabled, over quota or expired occurs in no inbound of the generated
  configuration, and every name an inbound serves is one whose traffic sing-box is told to
  count, so no protocol escapes the accounting. When nobody may be served the list of counted
  users is \<^verbatim>\<open>null\<close>.
\<close>

theorem Generate_serves_only_counted:
  shows "stats_users (Generate now g us sni) = map (JStr \<circ> UUID) (filter (servable now) us) \<and>
    served_names (Generate now g us sni) \<subseteq> set (stats_users (Generate now g us sni)) \<and>
    jget ''users'' (jget ''stats'' (jget ''v2ray_api'' (jget ''experimental'' (Generate now g us sni)))) =
      nil_slice (stats_users (Generate now g us sni))"
  using served_names_servable [of now g us sni] by (simp add: stats_users_servable stats_users_Generate)

end
