(* ===== verification/Links.thy ===== *)
theory Links
  imports Urls Json LocalStore Generator
begin

text \<open>
  The share links, the subscription, the OTun entries and the sing-box client profile of a
  local user: the pure part of \<^verbatim>\<open>internal/api/local.go\<close> and
  \<^verbatim>\<open>internal/api/singboxprofile.go\<close>. \<open>marshal\<close> is \<^verbatim>\<open>json.Marshal\<close> (\<open>None\<close> when it
  fails). A name in the source that is not ASCII is written as its UTF-8 bytes.
\<close>

section \<open>The node and the server\<close>

record NodeConfig =
  nc_NodeID :: string
  nc_ServerIP :: string
  nc_ServerIPv6 :: string
  nc_PublicKey :: string
  nc_ShortID :: string
  nc_VLESSPort :: int
  nc_SSPort :: int
  nc_SSMethod :: string
  nc_RealitySNI :: string
  nc_VMessPort :: int
  nc_TrojanPort :: int
  nc_Hysteria2Port :: int
  nc_TUICPort :: int

text \<open>\<^verbatim>\<open>LocalAPIServer\<close> without its pointer to the store, which the handlers take separately.\<close>

record LocalAPIServer =
  apiKey :: string
  nodeConfig :: "NodeConfig option"
  ipv6Label :: bool
  plainNames :: bool

definition NewLocalAPIServer :: "string \<Rightarrow> NodeConfig option \<Rightarrow> LocalAPIServer" where
  "NewLocalAPIServer key nc = \<lparr>apiKey = key, nodeConfig = nc, ipv6Label = False, plainNames = False\<rparr>"

text \<open>The middle dot between two blanks.\<close>

definition mid_dot :: string where
  "mid_dot = [CHR 0x20, CHR 0xC2, CHR 0xB7, CHR 0x20]"

definition nodeName :: "LocalAPIServer \<Rightarrow> LocalUser \<Rightarrow> string \<Rightarrow> string" where
  "nodeName s u proto =
     (if plainNames s then l_Name u
      else
        (let name = l_Name u @ mid_dot @ proto
         in if ipv6Label s then name @ mid_dot @ ''IPv6'' else name))"

definition v6Server :: "bool \<Rightarrow> LocalAPIServer \<Rightarrow> LocalAPIServer option" where
  "v6Server label s =
     (case nodeConfig s of
        None \<Rightarrow> None
      | Some nc \<Rightarrow>
          if nc_ServerIPv6 nc = '''' then None
          else Some \<lparr>apiKey = apiKey s, nodeConfig = Some (nc\<lparr>nc_ServerIP := nc_ServerIPv6 nc\<rparr>),
                     ipv6Label = label, plainNames = plainNames s\<rparr>)"

definition hostPort :: "NodeConfig \<Rightarrow> int \<Rightarrow> string" where
  "hostPort nc port = JoinHostPort (Trim (nc_ServerIP nc) ''[]'') (itoa port)"

section \<open>One link per protocol\<close>

definition vless_params :: "NodeConfig \<Rightarrow> url_values" where
  "vless_params nc =
     (let params = Set_value ''encryption'' ''none'' [];
          params = Set_value ''flow'' ''xtls-rprx-vision'' params;
          params = Set_value ''security'' ''reality'' params;
          sni = (if nc_RealitySNI nc = '''' then ''www.apple.com'' else nc_RealitySNI nc);
          params = Set_value ''sni'' sni params;
          params = Set_value ''fp'' ''chrome'' params;
          params = Set_value ''pbk'' (nc_PublicKey nc) params;
          params = Set_value ''sid'' (nc_ShortID nc) params
      in Set_value ''type'' ''tcp'' params)"

definition generateVLESSUrl :: "LocalAPIServer \<Rightarrow> LocalUser \<Rightarrow> string" where
  "generateVLESSUrl s u =
     (case nodeConfig s of
        None \<Rightarrow> ''''
      | Some nc \<Rightarrow>
          if nc_ServerIP nc = '''' then ''''
          else ''vless://'' @ l_UUID u @ ''@'' @ hostPort nc (nc_VLESSPort nc) @ ''?'' @
               Encode (vless_params nc) @ ''#'' @ PathEscape (nodeName s u ''VLESS''))"

definition generateSSUrl :: "LocalAPIServer \<Rightarrow> LocalUser \<Rightarrow> string" where
  "generateSSUrl s u =
     (case nodeConfig s of
        None \<Rightarrow> ''''
      | Some nc \<Rightarrow>
          if nc_ServerIP nc = '''' then ''''
          else
            (let ssMethod = (if nc_SSMethod nc = '''' then ''chacha20-ietf-poly1305'' else nc_SSMethod nc);
                 userInfo = ssMethod @ '':'' @ l_SSPassword u;
                 encoded = URLEncoding (bytes_of_string userInfo)
             in ''ss://'' @ encoded @ ''@'' @ hostPort nc (nc_SSPort nc) @ ''#'' @
                PathEscape (nodeName s u ''Shadowsocks'')))"

definition vmess_object :: "LocalAPIServer \<Rightarrow> NodeConfig \<Rightarrow> LocalUser \<Rightarrow> json" where
  "vmess_object s nc u =
     JObj [(''v'', JStr ''2''), (''ps'', JStr (nodeName s u ''VMess'')), (''add'', JStr (nc_ServerIP nc)),
           (''port'', JStr (itoa (nc_VMessPort nc))), (''id'', JStr (VMessUUID (l_UUID u))),
           (''aid'', JStr ''0''), (''net'', JStr ''ws''), (''type'', JStr ''none''),
           (''path'', JStr ''/vmess''), (''tls'', JStr '''')]"

definition generateVMessUrl :: "(json \<Rightarrow> string option) \<Rightarrow> LocalAPIServer \<Rightarrow> LocalUser \<Rightarrow> string" where
  "generateVMessUrl marshal s u =
     (case nodeConfig s of
        None \<Rightarrow> ''''
      | Some nc \<Rightarrow>
          if nc_ServerIP nc = '''' \<or> nc_VMessPort nc = 0 then ''''
          else (case marshal (vmess_object s nc u) of
                  None \<Rightarrow> ''''
                | Some data \<Rightarrow> ''vmess://'' @ StdEncoding (bytes_of_string data)))"

definition generateTrojanUrl :: "LocalAPIServer \<Rightarrow> LocalUser \<Rightarrow> string" where
  "generateTrojanUrl s u =
     (case nodeConfig s of
        None \<Rightarrow> ''''
      | Some nc \<Rightarrow>
          if nc_ServerIP nc = '''' \<or> nc_TrojanPort nc = 0 then ''''
          else
            (let params = Set_value ''security'' ''tls'' [];
                 params = Set_value ''allowInsecure'' ''1'' params;
                 params = Set_value ''sni'' SelfCertCN params;
                 params = Set_value ''type'' ''tcp'' params
             in ''trojan://'' @ TrojanPassword (l_UUID u) @ ''@'' @ hostPort nc (nc_TrojanPort nc) @ ''?'' @
                Encode params @ ''#'' @ PathEscape (nodeName s u ''Trojan'')))"

definition generateHysteria2Url :: "LocalAPIServer \<Rightarrow> LocalUser \<Rightarrow> string" where
  "generateHysteria2Url s u =
     (case nodeConfig s of
        None \<Rightarrow> ''''
      | Some nc \<Rightarrow>
          if nc_ServerIP nc = '''' \<or> nc_Hysteria2Port nc = 0 then ''''
          else
            (let params = Set_value ''insecure'' ''1'' [];
                 params = Set_value ''sni'' SelfCertCN params
             in ''hysteria2://'' @ Hysteria2Password (l_UUID u) @ ''@'' @ hostPort nc (nc_Hysteria2Port nc) @
                ''?'' @ Encode params @ ''#'' @ PathEscape (nodeName s u ''Hysteria2'')))"

definition generateTUICUrl :: "LocalAPIServer \<Rightarrow> LocalUser \<Rightarrow> string" where
  "generateTUICUrl s u =
     (case nodeConfig s of
        None \<Rightarrow> ''''
      | Some nc \<Rightarrow>
          if nc_ServerIP nc = '''' \<or> nc_TUICPort nc = 0 then ''''
          else
            (let params = Set_value ''congestion_control'' ''bbr'' [];
                 params = Set_value ''allow_insecure'' ''1'' params;
                 params = Set_value ''sni'' SelfCertCN params;
                 params = Set_value ''alpn'' ''h3'' params
             in ''tuic://'' @ TUICUUID (l_UUID u) @ '':'' @ TUICPassword (l_UUID u) @ ''@'' @
                hostPort nc (nc_TUICPort nc) @ ''?'' @ Encode params @ ''#'' @
                PathEscape (nodeName s u ''TUIC'')))"

section \<open>The response for a user\<close>

record UserResponse =
  r_UUID :: string
  r_Name :: string
  r_Protocols :: "string list"
  r_SSPassword :: string
  r_Enabled :: bool
  r_TrafficLimit :: int
  r_TrafficUsed :: int
  r_ExpireAt :: "time option"
  r_CreatedAt :: time
  r_UpdatedAt :: time
  VLESSUrl :: string
  SSUrl :: string
  VMessUrl :: string
  TrojanUrl :: string
  Hysteria2Url :: string
  TUICUrl :: string
  VLESSUrlV6 :: string
  SSUrlV6 :: string
  VMessUrlV6 :: string
  TrojanUrlV6 :: string
  Hysteria2UrlV6 :: string
  TUICUrlV6 :: string
  SubscriptionUrl :: string

definition appendIf :: "string list \<Rightarrow> string \<Rightarrow> string list" where
  "appendIf links url = (if url \<noteq> '''' then links @ [url] else links)"

text \<open>One iteration of the loop over the protocols, for the IPv4 and for the IPv6 links.\<close>

definition link_v4 ::
    "(json \<Rightarrow> string option) \<Rightarrow> LocalAPIServer \<Rightarrow> LocalUser \<Rightarrow> UserResponse \<times> string list \<Rightarrow> string \<Rightarrow>
     UserResponse \<times> string list" where
  "link_v4 marshal s u st proto =
     (let (resp, links) = st in
      if proto = ''vless'' then
        let l = generateVLESSUrl s u in (resp\<lparr>VLESSUrl := l\<rparr>, appendIf links l)
      else if proto = ''shadowsocks'' then
        let l = generateSSUrl s u in (resp\<lparr>SSUrl := l\<rparr>, appendIf links l)
      else if proto = ''vmess'' then
        let l = generateVMessUrl marshal s u in (resp\<lparr>VMessUrl := l\<rparr>, appendIf links l)
      else if proto = ''trojan'' then
        let l = generateTrojanUrl s u in (resp\<lparr>TrojanUrl := l\<rparr>, appendIf links l)
      else if proto = ''hysteria2'' then
        let l = generateHysteria2Url s u in (resp\<lparr>Hysteria2Url := l\<rparr>, appendIf links l)
      else if proto = ''tuic'' then
        let l = generateTUICUrl s u in (resp\<lparr>TUICUrl := l\<rparr>, appendIf links l)
      else (resp, links))"

definition link_v6 ::
    "(json \<Rightarrow> string option) \<Rightarrow> LocalAPIServer \<Rightarrow> LocalUser \<Rightarrow> UserResponse \<times> string list \<Rightarrow> string \<Rightarrow>
     UserResponse \<times> string list" where
  "link_v6 marshal v6 u st proto =
     (let (resp, links) = st in
      if proto = ''vless'' then
        let l = generateVLESSUrl v6 u in (resp\<lparr>VLESSUrlV6 := l\<rparr>, appendIf links l)
      else if proto = ''shadowsocks'' then
        let l = generateSSUrl v6 u in (resp\<lparr>SSUrlV6 := l\<rparr>, appendIf links l)
      else if proto = ''vmess'' then
        let l = generateVMessUrl marshal v6 u in (resp\<lparr>VMessUrlV6 := l\<rparr>, appendIf links l)
      else if proto = ''trojan'' then
        let l = generateTrojanUrl v6 u in (resp\<lparr>TrojanUrlV6 := l\<rparr>, appendIf links l)
      else if proto = ''hysteria2'' then
        let l = generateHysteria2Url v6 u in (resp\<lparr>Hysteria2UrlV6 := l\<rparr>, appendIf links l)
      else if proto = ''tuic'' then
        let l = generateTUICUrl v6 u in (resp\<lparr>TUICUrlV6 := l\<rparr>, appendIf links l)
      else (resp, links))"

definition newline :: string where
  "newline = [CHR 0x0A]"

definition toUserResponse :: "(json \<Rightarrow> string option) \<Rightarrow> LocalAPIServer \<Rightarrow> LocalUser \<Rightarrow> UserResponse" where
  "toUserResponse marshal s u =
     (let resp = \<lparr>r_UUID = l_UUID u, r_Name = l_Name u, r_Protocols = l_Protocols u,
            r_SSPassword = l_SSPassword u, r_Enabled = l_Enabled u, r_TrafficLimit = l_TrafficLimit u,
            r_TrafficUsed = l_TrafficUsed u, r_ExpireAt = l_ExpireAt u, r_CreatedAt = CreatedAt u,
            r_UpdatedAt = UpdatedAt u, VLESSUrl = '''', SSUrl = '''', VMessUrl = '''', TrojanUrl = '''',
            Hysteria2Url = '''', TUICUrl = '''', VLESSUrlV6 = '''', SSUrlV6 = '''', VMessUrlV6 = '''',
            TrojanUrlV6 = '''', Hysteria2UrlV6 = '''', TUICUrlV6 = '''', SubscriptionUrl = ''''\<rparr>;
          (resp, links) = foldl (link_v4 marshal s u) (resp, []) (l_Protocols u);
          (resp, links) = (case v6Server True s of
                             None \<Rightarrow> (resp, links)
                           | Some v6 \<Rightarrow> foldl (link_v6 marshal v6 u) (resp, links) (l_Protocols u))
      in if 0 < length links
         then resp\<lparr>SubscriptionUrl := StdEncoding (bytes_of_string (join newline links))\<rparr>
         else resp)"

section \<open>The OTun subscription\<close>

record OTunProtocol =
  ot_Protocol :: string
  ot_URL :: string
  ot_URLV6 :: string
  ot_Node :: string

record OTunSubscription =
  os_Version :: int
  os_Name :: string
  os_Protocols :: "OTunProtocol list"

definition otunV6Protocols :: "string list" where
  "otunV6Protocols = [''vless'', ''vmess'', ''trojan'']"

definition userHasProtocol :: "LocalUser \<Rightarrow> string \<Rightarrow> bool" where
  "userHasProtocol u name = list_ex (\<lambda>p. p = name) (l_Protocols u)"

definition otun_gens ::
    "(json \<Rightarrow> string option) \<Rightarrow> (string \<times> (LocalAPIServer \<Rightarrow> LocalUser \<Rightarrow> string)) list" where
  "otun_gens marshal =
     [(''vless'', generateVLESSUrl), (''shadowsocks'', generateSSUrl), (''vmess'', generateVMessUrl marshal),
      (''trojan'', generateTrojanUrl), (''hysteria2'', generateHysteria2Url), (''tuic'', generateTUICUrl)]"

definition otun_step ::
    "LocalAPIServer \<Rightarrow> LocalAPIServer option \<Rightarrow> LocalUser \<Rightarrow> OTunProtocol list \<Rightarrow>
     string \<times> (LocalAPIServer \<Rightarrow> LocalUser \<Rightarrow> string) \<Rightarrow> OTunProtocol list" where
  "otun_step s v6 u ps g =
     (let (name, gen) = g in
      if \<not> userHasProtocol u name then ps
      else
        (let url = gen s u in
         if url = '''' then ps
         else
           (let p = \<lparr>ot_Protocol = name, ot_URL = url, ot_URLV6 = '''', ot_Node = ''primary''\<rparr>;
                p = (case v6 of
                       None \<Rightarrow> p
                     | Some v6 \<Rightarrow> if name \<in> set otunV6Protocols then p\<lparr>ot_URLV6 := gen v6 u\<rparr> else p)
            in ps @ [p])))"

definition buildOTunSubscription ::
    "(json \<Rightarrow> string option) \<Rightarrow> LocalAPIServer \<Rightarrow> LocalUser \<Rightarrow> OTunSubscription" where
  "buildOTunSubscription marshal s u =
     (let plain = \<lparr>apiKey = apiKey s, nodeConfig = nodeConfig s, ipv6Label = False, plainNames = True\<rparr>;
          v6 = v6Server False plain
      in \<lparr>os_Version = 1, os_Name = l_Name u,
          os_Protocols = foldl (otun_step plain v6 u) [] (otun_gens marshal)\<rparr>)"

section \<open>The sing-box client profile\<close>

text \<open>The tags of the automatic and of the manual selector (UTF-8).\<close>

definition auto_tag :: string where
  "auto_tag = [CHR 0xE8, CHR 0x87, CHR 0xAA, CHR 0xE5, CHR 0x8A, CHR 0xA8,
     CHR 0xE9, CHR 0x80, CHR 0x89, CHR 0xE6, CHR 0x8B, CHR 0xA9]"

definition select_tag :: string where
  "select_tag = [CHR 0xE8, CHR 0x8A, CHR 0x82, CHR 0xE7, CHR 0x82, CHR 0xB9,
     CHR 0xE9, CHR 0x80, CHR 0x89, CHR 0xE6, CHR 0x8B, CHR 0xA9]"

definition self_tls :: "(string \<times> json) list \<Rightarrow> json" where
  "self_tls extra = JObj ([(''enabled'', JBool True), (''server_name'', JStr SelfCertCN),
     (''insecure'', JBool True)] @ extra)"

definition profile_sni :: "NodeConfig \<Rightarrow> string" where
  "profile_sni nc = (if nc_RealitySNI nc = '''' then ''www.apple.com'' else nc_RealitySNI nc)"

text \<open>The outbound \<^verbatim>\<open>emit\<close> adds for one protocol; \<open>None\<close> is \<^verbatim>\<open>continue\<close> or no case.\<close>

definition profile_outbound :: "NodeConfig \<Rightarrow> LocalUser \<Rightarrow> string \<Rightarrow> string \<Rightarrow> string \<Rightarrow> json option" where
  "profile_outbound nc u server suffix proto =
     (if proto = ''vless'' then
        Some (JObj [(''type'', JStr ''vless''), (''tag'', JStr (''VLESS-Reality'' @ suffix)),
          (''server'', JStr server), (''server_port'', JNum (nc_VLESSPort nc)),
          (''uuid'', JStr (l_UUID u)), (''flow'', JStr ''xtls-rprx-vision''),
          (''tls'', JObj [(''enabled'', JBool True), (''server_name'', JStr (profile_sni nc)),
             (''utls'', JObj [(''enabled'', JBool True), (''fingerprint'', JStr ''chrome'')]),
             (''reality'', JObj [(''enabled'', JBool True), (''public_key'', JStr (nc_PublicKey nc)),
                (''short_id'', JStr (nc_ShortID nc))])])])
      else if proto = ''shadowsocks'' then
        (let ssMethod = (if nc_SSMethod nc = '''' then ''chacha20-ietf-poly1305'' else nc_SSMethod nc)
         in Some (JObj [(''type'', JStr ''shadowsocks''), (''tag'', JStr (''Shadowsocks'' @ suffix)),
          (''server'', JStr server), (''server_port'', JNum (nc_SSPort nc)),
          (''method'', JStr ssMethod), (''password'', JStr (l_SSPassword u))]))
      else if proto = ''vmess'' then
        (if nc_VMessPort nc = 0 then None
         else Some (JObj [(''type'', JStr ''vmess''), (''tag'', JStr (''VMess'' @ suffix)),
          (''server'', JStr server), (''server_port'', JNum (nc_VMessPort nc)),
          (''uuid'', JStr (VMessUUID (l_UUID u))), (''security'', JStr ''auto''), (''alter_id'', JNum 0),
          (''transport'', JObj [(''type'', JStr ''ws''), (''path'', JStr ''/vmess'')])]))
      else if proto = ''trojan'' then
        (if nc_TrojanPort nc = 0 then None
         else Some (JObj [(''type'', JStr ''trojan''), (''tag'', JStr (''Trojan'' @ suffix)),
          (''server'', JStr server), (''server_port'', JNum (nc_TrojanPort nc)),
          (''password'', JStr (TrojanPassword (l_UUID u))), (''tls'', self_tls [])]))
      else if proto = ''hysteria2'' then
        (if nc_Hysteria2Port nc = 0 then None
         else Some (JObj [(''type'', JStr ''hysteria2''), (''tag'', JStr (''Hysteria2'' @ suffix)),
          (''server'', JStr server), (''server_port'', JNum (nc_Hysteria2Port nc)),
          (''password'', JStr (Hysteria2Password (l_UUID u))),
          (''tls'', self_tls [(''alpn'', JArr [JStr ''h3''])])]))
      else if proto = ''tuic'' then
        (if nc_TUICPort nc = 0 then None
         else Some (JObj [(''type'', JStr ''tuic''), (''tag'', JStr (''TUIC'' @ suffix)),
          (''server'', JStr server), (''server_port'', JNum (nc_TUICPort nc)),
          (''uuid'', JStr (TUICUUID (l_UUID u))), (''password'', JStr (TUICPassword (l_UUID u))),
          (''congestion_control'', JStr ''bbr''), (''tls'', self_tls [(''alpn'', JArr [JStr ''h3''])])]))
      else None)"

definition emit :: "NodeConfig \<Rightarrow> LocalUser \<Rightarrow> string \<Rightarrow> string \<Rightarrow> json list" where
  "emit nc u server suffix = List.map_filter (profile_outbound nc u server suffix) (l_Protocols u)"

definition profile_nodes :: "NodeConfig \<Rightarrow> LocalUser \<Rightarrow> json list" where
  "profile_nodes nc u =
     emit nc u (nc_ServerIP nc) '''' @
     (if nc_ServerIPv6 nc \<noteq> '''' then emit nc u (nc_ServerIPv6 nc) (mid_dot @ ''IPv6'') else [])"

definition rule_set_entry :: "string \<Rightarrow> string \<Rightarrow> json" where
  "rule_set_entry tag url =
     JObj [(''type'', JStr ''remote''), (''tag'', JStr tag), (''format'', JStr ''binary''),
           (''url'', JStr url), (''http_client'', JObj [(''detour'', JStr select_tag)])]"

definition sing_box_profile :: "NodeConfig \<Rightarrow> LocalUser \<Rightarrow> json" where
  "sing_box_profile nc u =
     (let outbounds = profile_nodes nc u;
          nodeTags = map (jget ''tag'') outbounds;
          selectorTags = JStr auto_tag # nodeTags;
          proxy = JObj [(''type'', JStr ''selector''), (''tag'', JStr select_tag),
            (''outbounds'', JArr selectorTags), (''default'', JStr auto_tag)];
          urltest = JObj [(''type'', JStr ''urltest''), (''tag'', JStr auto_tag),
            (''outbounds'', nil_slice nodeTags), (''url'', JStr ''https://www.gstatic.com/generate_204''),
            (''interval'', JStr ''3m'')];
          all_outbounds = [proxy, urltest] @ outbounds @
            [JObj [(''type'', JStr ''direct''), (''tag'', JStr ''direct'')]]
      in JObj
        [(''log'', JObj [(''level'', JStr ''info'')]),
         (''dns'', JObj
            [(''servers'', JArr
               [JObj [(''tag'', JStr ''google''), (''type'', JStr ''tls''), (''server'', JStr ''8.8.8.8''),
                      (''detour'', JStr select_tag)],
                JObj [(''tag'', JStr ''local''), (''type'', JStr ''udp''), (''server'', JStr ''223.5.5.5'')]]),
             (''rules'', JArr [JObj [(''rule_set'', JStr ''geosite-cn''), (''server'', JStr ''local'')]]),
             (''final'', JStr ''google'')]),
         (''inbounds'', JArr
            [JObj [(''type'', JStr ''tun''),
                   (''address'', JArr [JStr ''172.19.0.1/30'', JStr ''fdfe:dcba:9876::1/126'']),
                   (''auto_route'', JBool True), (''strict_route'', JBool True), (''stack'', JStr ''gvisor'')]]),
         (''outbounds'', JArr all_outbounds),
         (''route'', JObj
            [(''default_domain_resolver'', JStr ''local''),
             (''rule_set'', JArr
               [rule_set_entry ''geosite-cn''
                  ''https://raw.githubusercontent.com/SagerNet/sing-geosite/rule-set/geosite-cn.srs'',
                rule_set_entry ''geoip-cn''
                  ''https://raw.githubusercontent.com/SagerNet/sing-geoip/rule-set/geoip-cn.srs'']),
             (''rules'', JArr
               [JObj [(''action'', JStr ''sniff'')],
                JObj [(''protocol'', JStr ''dns''), (''action'', JStr ''hijack-dns'')],
                JObj [(''rule_set'', JArr [JStr ''geoip-cn'', JStr ''geosite-cn'']), (''outbound'', JStr ''direct'')],
                JObj [(''ip_is_private'', JBool True), (''outbound'', JStr ''direct'')]]),
             (''final'', JStr select_tag)])])"

text \<open>
  \<^verbatim>\<open>buildSingBoxProfile\<close>: the source dereferences \<^verbatim>\<open>nodeConfig\<close>, which is never nil for a
  server that handles requests; \<open>None\<close> is the failure of \<^verbatim>\<open>json.MarshalIndent\<close>.
\<close>

definition buildSingBoxProfile ::
    "(json \<Rightarrow> string option) \<Rightarrow> NodeConfig \<Rightarrow> LocalUser \<Rightarrow> string option" where
  "buildSingBoxProfile marshalIndent nc u = marshalIndent (sing_box_profile nc u)"

section \<open>Taking the links apart\<close>

text \<open>
  What a client reads from a link \<open>scheme://user@host:port?query#name\<close>. The parts are cut in the
  order of RFC 3986 (and of \<^verbatim>\<open>net/url\<close>): the fragment at the first \<^verbatim>\<open>#\<close>, the scheme at the first
  colon, the query at the first question mark, the authority before the first slash, and in it the
  user before the last \<^verbatim>\<open>@\<close>; an address in brackets is unwrapped.
\<close>

record client_link =
  cl_scheme :: string
  cl_user :: "string option"
  cl_host :: string
  cl_port :: "int option"
  cl_params :: "(string \<times> string) list"
  cl_name :: "string option"

definition until :: "char \<Rightarrow> string \<Rightarrow> string" where
  "until c s = takeWhile (\<lambda>d. d \<noteq> c) s"

definition after :: "char \<Rightarrow> string \<Rightarrow> string" where
  "after c s = drop 1 (dropWhile (\<lambda>d. d \<noteq> c) s)"

text \<open>The parts after and before the last occurrence.\<close>

definition after_last :: "char \<Rightarrow> string \<Rightarrow> string" where
  "after_last c s = rev (until c (rev s))"

definition before_last :: "char \<Rightarrow> string \<Rightarrow> string" where
  "before_last c s = rev (after c (rev s))"

definition split_addr :: "string \<Rightarrow> string \<times> string" where
  "split_addr a =
     (if take 1 a = ''['' then (until (CHR '']'') (drop 1 a), after (CHR '':'') (after (CHR '']'') a))
      else (until (CHR '':'') a, after (CHR '':'') a))"

definition parse_link :: "string \<Rightarrow> client_link" where
  "parse_link l =
     (let body = until (CHR ''#'') l; fragment = after (CHR ''#'') l;
          rest = after (CHR '':'') body; hier = until (CHR ''?'') rest;
          authority = until (CHR ''/'') (drop 2 hier); addr = after_last (CHR ''@'') authority
      in \<lparr>cl_scheme = until (CHR '':'') body, cl_user = unescape PathSegment (before_last (CHR ''@'') authority),
          cl_host = fst (split_addr addr), cl_port = Atoi (snd (split_addr addr)),
          cl_params = (if CHR ''?'' \<in> set rest then ParseQuery (after (CHR ''?'') rest) else []),
          cl_name = unescape PathSegment fragment\<rparr>)"

text \<open>
  Shadowsocks clients decode the user part to the method and the password, VMess clients decode
  all that follows the scheme to a JSON document; \<open>unmarshal\<close> is their \<^verbatim>\<open>json.Unmarshal\<close>.
\<close>

definition read_ss_user :: "string \<Rightarrow> string \<times> string" where
  "read_ss_user user =
     (let t = string_of_bytes (base64_decode b64_url user) in (until (CHR '':'') t, after (CHR '':'') t))"

definition read_vmess :: "(string \<Rightarrow> json option) \<Rightarrow> string \<Rightarrow> json option" where
  "read_vmess unmarshal l =
     (if take 8 l = ''vmess://'' then unmarshal (string_of_bytes (base64_decode b64_std (drop 8 l))) else None)"

lemma until_after [simp]:
  "c \<notin> set a \<Longrightarrow> until c (a @ c # r) = a" "c \<notin> set a \<Longrightarrow> after c (a @ c # r) = r"
  by (induction a) (auto simp: until_def after_def)

lemma until_after_none: "c \<notin> set s \<Longrightarrow> until c s = s" "c \<notin> set s \<Longrightarrow> after c s = []"
  by (induction s) (auto simp: until_def after_def)

lemma cut_last [simp]:
  assumes "c \<notin> set b"
  shows "after_last c (a @ c # b) = b" "before_last c (a @ c # b) = a"
  using assms by (simp_all add: after_last_def before_last_def)

definition plain_text :: "string \<Rightarrow> bool" where
  "plain_text s \<longleftrightarrow> set s \<inter> set ''@/?#[]'' = {} \<and> CHR 0x0A \<notin> set s"

lemma itoa_chars: "0 \<le> i \<Longrightarrow> list_all is_digit (itoa i)"
  by (simp add: itoa_def)

lemma itoa_no: "0 \<le> i \<Longrightarrow> \<not> is_digit c \<Longrightarrow> c \<notin> set (itoa i)"
  using itoa_chars [of i] by (auto simp: list_all_iff)

lemma split_addr_JoinHostPort:
  assumes "plain_text host"
  shows "split_addr (JoinHostPort host p) = (host, p)"
proof (cases "CHR '':'' \<in> set host")
  case True
  have no: "CHR '']'' \<notin> set host" "CHR '']'' \<notin> set (CHR ''['' # host)"
    using assms by (auto simp: plain_text_def)
  have "until (CHR '']'') (host @ CHR '']'' # CHR '':'' # p) = host"
    using no(1) by (rule until_after)
  moreover have "after (CHR '']'') ((CHR ''['' # host) @ CHR '']'' # CHR '':'' # p) = CHR '':'' # p"
    using no(2) by (rule until_after)
  moreover have "after (CHR '':'') (CHR '':'' # p) = p"
    by (simp add: after_def)
  ultimately show ?thesis
    using True by (simp add: JoinHostPort_def split_addr_def)
next
  case False
  moreover have "take 1 (host @ CHR '':'' # p) \<noteq> ''[''"
    using assms by (cases host) (auto simp: plain_text_def)
  ultimately show ?thesis
    by (simp add: JoinHostPort_def split_addr_def)
qed

lemma set_JoinHostPort: "set (JoinHostPort host p) \<subseteq> set host \<union> set p \<union> {CHR ''['', CHR '']'', CHR '':''}"
  by (auto simp: JoinHostPort_def)

text \<open>The common shape of four of the six links, and what the client reads from it.\<close>

definition link_shape :: "string \<Rightarrow> string \<Rightarrow> string \<Rightarrow> url_values \<Rightarrow> string \<Rightarrow> string" where
  "link_shape scheme user addr params name =
     scheme @ ''://'' @ user @ ''@'' @ addr @ ''?'' @ Encode params @ ''#'' @ PathEscape name"

lemma set_join: "set (join sep xs) \<subseteq> set sep \<union> \<Union> (set ` set xs)"
  by (induction sep xs rule: join.induct) auto

lemma Encode_no: "shouldEscape QueryComponent c \<Longrightarrow> c \<notin> set ''&=%+'' \<Longrightarrow> c \<notin> set (Encode vs)"
  using set_join [of "''&''" "map (\<lambda>(k, v). QueryEscape k @ ''='' @ QueryEscape v) (sort_key fst vs)"]
    not_in_escape [of QueryComponent c]
  by (auto simp: Encode_def)

text \<open>A user part that a link can carry as it is.\<close>

definition plain_user :: "string \<Rightarrow> bool" where
  "plain_user s \<longleftrightarrow> set s \<inter> set ''#?/%'' = {}"

lemma unescape_plain: "CHR ''%'' \<notin> set s \<Longrightarrow> unescape PathSegment s = Some s"
  by (induction s) auto

lemma addr_no:
  assumes "plain_text host" "0 \<le> port" "c \<in> set ''#?/@''"
  shows "c \<notin> set (JoinHostPort host (itoa port))"
proof -
  have "\<not> is_digit c" "c \<notin> set host" "c \<notin> {CHR ''['', CHR '']'', CHR '':''}"
    using assms by (auto simp: is_digit_def plain_text_def)
  then show ?thesis
    using itoa_no [OF assms(2)] set_JoinHostPort [of host "itoa port"] by blast
qed

lemma Encode_separators: "CHR ''#'' \<notin> set (Encode params)"
  by (rule Encode_no) (simp_all add: shouldEscape_def is_alnum_def)

lemma parse_link_parts:
  assumes "plain_user user" "plain_text host" "is_i64 port" "0 \<le> port"
    and scheme: "set scheme \<inter> set ''#:'' = {}"
    and query: "(q = '''' \<and> ps = []) \<or> (\<exists>params. params \<noteq> [] \<and> q = ''?'' @ Encode params \<and> ps = sort_key fst params)"
  shows "parse_link (scheme @ ''://'' @ user @ ''@'' @ JoinHostPort host (itoa port) @ q @ ''#'' @ PathEscape name) =
    \<lparr>cl_scheme = scheme, cl_user = Some user, cl_host = host, cl_port = Some port, cl_params = ps, cl_name = Some name\<rparr>"
proof -
  let ?a = "JoinHostPort host (itoa port)"
  let ?hier = "''//'' @ user @ ''@'' @ ?a"
  let ?body = "scheme @ CHR '':'' # ?hier @ q"
  have a: "CHR ''#'' \<notin> set ?a" "CHR ''?'' \<notin> set ?a" "CHR ''/'' \<notin> set ?a" "CHR ''@'' \<notin> set ?a"
    using addr_no [OF assms(2,4)] by simp_all
  have u: "CHR ''#'' \<notin> set user" "CHR ''?'' \<notin> set user" "CHR ''/'' \<notin> set user" "CHR ''%'' \<notin> set user"
    using assms(1) by (auto simp: plain_user_def)
  have sc: "CHR '':'' \<notin> set scheme" "CHR ''#'' \<notin> set scheme"
    using scheme by auto
  have "CHR ''#'' \<notin> set q"
    using query Encode_separators by auto
  then have "CHR ''#'' \<notin> set ?body"
    using a(1) u(1) sc(2) by simp
  then have body: "until (CHR ''#'') (?body @ CHR ''#'' # PathEscape name) = ?body"
    "after (CHR ''#'') (?body @ CHR ''#'' # PathEscape name) = PathEscape name"
    by (rule until_after)+
  have rest: "until (CHR '':'') ?body = scheme" "after (CHR '':'') ?body = ?hier @ q"
    using sc(1) by (rule until_after)+
  have no: "CHR ''?'' \<notin> set ?hier"
    using a(2) u(2) by simp
  have hier: "until (CHR ''?'') (?hier @ q) = ?hier"
    "(if CHR ''?'' \<in> set (?hier @ q) then ParseQuery (after (CHR ''?'') (?hier @ q)) else []) = ps"
  proof -
    show "until (CHR ''?'') (?hier @ q) = ?hier"
      using query until_after(1) [OF no] until_after_none(1) [OF no] by auto
    show "(if CHR ''?'' \<in> set (?hier @ q) then ParseQuery (after (CHR ''?'') (?hier @ q)) else []) = ps"
    proof (cases "q = ''''")
      case True
      then have "ps = []"
        using query by auto
      then show ?thesis
        using no True by simp
    next
      case False
      then obtain params where ps: "params \<noteq> []" "q = CHR ''?'' # Encode params" "ps = sort_key fst params"
        using query by auto
      have "after (CHR ''?'') (?hier @ q) = Encode params"
        unfolding ps(2) using no by (rule until_after(2))
      then show ?thesis
        using ps ParseQuery_Encode [OF ps(1)] by simp
    qed
  qed
  have authority: "until (CHR ''/'') (drop 2 ?hier) = user @ CHR ''@'' # ?a"
    using u(3) a(3) until_after_none(1) [of "CHR ''/''" "user @ CHR ''@'' # ?a"] by simp
  have link: "scheme @ ''://'' @ user @ ''@'' @ ?a @ q @ ''#'' @ PathEscape name = ?body @ CHR ''#'' # PathEscape name"
    by simp
  show ?thesis
    unfolding parse_link_def Let_def link body rest hier authority cut_last [OF a(4)] unescape_plain [OF u(4)]
      split_addr_JoinHostPort [OF assms(2)]
    by (simp add: Atoi_itoa [OF assms(3)])
qed

lemma parse_link_shape:
  assumes "set scheme \<inter> set ''#:'' = {}" "plain_user user" "plain_text host" "is_i64 port" "0 \<le> port" "params \<noteq> []"
  shows "parse_link (link_shape scheme user (JoinHostPort host (itoa port)) params name) =
    \<lparr>cl_scheme = scheme, cl_user = Some user, cl_host = host, cl_port = Some port,
     cl_params = sort_key fst params, cl_name = Some name\<rparr>"
  using parse_link_parts [OF assms(2-5,1), of "''?'' @ Encode params" "sort_key fst params" name] assms(6)
  unfolding link_shape_def by auto

lemma sort_vless_params:
  "sort_key fst (vless_params nc) =
     [(''encryption'', ''none''), (''flow'', ''xtls-rprx-vision''), (''fp'', ''chrome''),
      (''pbk'', nc_PublicKey nc), (''security'', ''reality''), (''sid'', nc_ShortID nc),
      (''sni'', profile_sni nc), (''type'', ''tcp'')]"
  by (simp add: vless_params_def Set_value_def Let_def profile_sni_def)

lemma deriveSecret_no: "c \<notin> set b64_url \<Longrightarrow> c \<notin> set (deriveSecret d u)"
  using set_deriveSecret by (rule contra_subsetD)

lemma link_shapes:
  assumes "nodeConfig s = Some nc" "nc_ServerIP nc \<noteq> ''''"
  shows generateVLESSUrl_shape: "generateVLESSUrl s u =
      link_shape ''vless'' (l_UUID u) (hostPort nc (nc_VLESSPort nc)) (vless_params nc) (nodeName s u ''VLESS'')"
    and generateTrojanUrl_shape: "nc_TrojanPort nc \<noteq> 0 \<Longrightarrow> generateTrojanUrl s u =
      link_shape ''trojan'' (TrojanPassword (l_UUID u)) (hostPort nc (nc_TrojanPort nc))
        [(''security'', ''tls''), (''allowInsecure'', ''1''), (''sni'', SelfCertCN), (''type'', ''tcp'')]
        (nodeName s u ''Trojan'')"
    and generateHysteria2Url_shape: "nc_Hysteria2Port nc \<noteq> 0 \<Longrightarrow> generateHysteria2Url s u =
      link_shape ''hysteria2'' (Hysteria2Password (l_UUID u)) (hostPort nc (nc_Hysteria2Port nc))
        [(''insecure'', ''1''), (''sni'', SelfCertCN)] (nodeName s u ''Hysteria2'')"
    and generateTUICUrl_shape: "nc_TUICPort nc \<noteq> 0 \<Longrightarrow> generateTUICUrl s u =
      link_shape ''tuic'' (TUICUUID (l_UUID u) @ '':'' @ TUICPassword (l_UUID u)) (hostPort nc (nc_TUICPort nc))
        [(''congestion_control'', ''bbr''), (''allow_insecure'', ''1''), (''sni'', SelfCertCN), (''alpn'', ''h3'')]
        (nodeName s u ''TUIC'')"
  using assms
  by (simp_all add: generateVLESSUrl_def generateTrojanUrl_def generateHysteria2Url_def generateTUICUrl_def
      link_shape_def Set_value_def Let_def)

lemma not_b64_url: "c \<in> set ''@#?/%'' \<or> c = CHR 0x0A \<Longrightarrow> c \<notin> set b64_url"
  by (auto simp: b64_url_def)

lemma credentials_no:
  assumes "c \<in> set ''@#?/%'' \<or> c = CHR 0x0A"
  shows "c \<notin> set (TrojanPassword u)" "c \<notin> set (Hysteria2Password u)" "c \<notin> set (TUICPassword u)"
    "c \<notin> set (TUICUUID u)"
proof -
  note c = not_b64_url [OF assms]
  show "c \<notin> set (TrojanPassword u)" "c \<notin> set (Hysteria2Password u)" "c \<notin> set (TUICPassword u)"
    unfolding TrojanPassword_def Hysteria2Password_def TUICPassword_def by (rule deriveSecret_no, rule c)+
  have "c \<notin> set ''0123456789abcdef''" "c \<noteq> CHR ''-''"
    using assms by auto
  then show "c \<notin> set (TUICUUID u)"
    by (rule TUICUUID_no)
qed

lemma plain_credentials:
  "plain_user (TrojanPassword u)" "plain_user (Hysteria2Password u)" "plain_user (TUICUUID u @ '':'' @ TUICPassword u)"
  "plain_user (URLEncoding bs)"
proof -
  show "plain_user (TrojanPassword u)" "plain_user (Hysteria2Password u)" "plain_user (TUICUUID u @ '':'' @ TUICPassword u)"
    using credentials_no by (auto simp: plain_user_def)
  have "c \<notin> set (URLEncoding bs)" if "c \<in> set ''#?/%''" for c
    using that not_b64_url [of c] set_base64_raw [of b64_url bs] by (auto simp: URLEncoding_def base64_pad_def)
  then show "plain_user (URLEncoding bs)"
    by (auto simp: plain_user_def)
qed

lemma decode_URLEncoding: "base64_decode b64_url (URLEncoding bs) = bs"
  "base64_decode b64_std (StdEncoding bs) = bs"
  by (simp_all add: URLEncoding_def StdEncoding_def base64_pad_def base64_decode_pad)

text \<open>The Shadowsocks method that links and profiles announce.\<close>

definition ss_method :: "NodeConfig \<Rightarrow> string" where
  "ss_method nc = (if nc_SSMethod nc = '''' then ''chacha20-ietf-poly1305'' else nc_SSMethod nc)"

definition valid_port :: "int \<Rightarrow> bool" where
  "valid_port p \<longleftrightarrow> 0 < p \<and> is_i64 p"

text \<open>Characters that need no escaping in any part of a URL (RFC 3986, 2.3).\<close>

definition unreserved :: "char \<Rightarrow> bool" where
  "unreserved c \<longleftrightarrow> is_alnum c \<or> c \<in> set ''-_.~''"

lemma plain_user_unreserved: "list_all unreserved s \<Longrightarrow> plain_user s"
  by (auto simp: plain_user_def list_all_iff unreserved_def is_alnum_def)

lemma generateSSUrl_shape:
  assumes "nodeConfig s = Some nc" "nc_ServerIP nc \<noteq> ''''"
  shows "generateSSUrl s u = ''ss'' @ ''://'' @ URLEncoding (bytes_of_string (ss_method nc @ '':'' @ l_SSPassword u)) @ ''@'' @
    hostPort nc (nc_SSPort nc) @ '''' @ ''#'' @ PathEscape (nodeName s u ''Shadowsocks'')"
  using assms by (simp add: generateSSUrl_def ss_method_def Let_def)

lemma generateVMessUrl_read:
  assumes "nodeConfig s = Some nc" "nc_ServerIP nc \<noteq> ''''" "nc_VMessPort nc \<noteq> 0" "marshal (vmess_object s nc u) = Some data"
  shows "read_vmess unmarshal (generateVMessUrl marshal s u) = unmarshal data"
  using assms by (simp add: generateVMessUrl_def read_vmess_def decode_URLEncoding)

text \<open>
  C33. Every kind of share link can be read back, each under the condition that its own port is
  configured: a client that takes the link apart the way URLs are taken apart finds the protocol,
  the user's credential for it, the node's address without brackets, the port, the parameters
  (for VLESS the public key, the short id and the server name the node is configured with) and
  the display name, whatever characters the name contains. VLESS links carry the user's id as
  it is, which has to consist of unreserved characters; a Shadowsocks client decodes method and
  password (a method without a colon); a VMess client that reads the JSON document back finds the
  address as it is configured.
\<close>

theorem share_links_roundtrip:
  assumes nc: "nodeConfig s = Some nc" "nc_ServerIP nc \<noteq> ''''" "plain_text (Trim (nc_ServerIP nc) ''[]'')"
  shows "(valid_port (nc_VLESSPort nc) \<and> list_all unreserved (l_UUID u) \<longrightarrow>
      parse_link (generateVLESSUrl s u) =
        \<lparr>cl_scheme = ''vless'', cl_user = Some (l_UUID u), cl_host = Trim (nc_ServerIP nc) ''[]'',
         cl_port = Some (nc_VLESSPort nc),
         cl_params = [(''encryption'', ''none''), (''flow'', ''xtls-rprx-vision''), (''fp'', ''chrome''),
           (''pbk'', nc_PublicKey nc), (''security'', ''reality''), (''sid'', nc_ShortID nc),
           (''sni'', profile_sni nc), (''type'', ''tcp'')],
         cl_name = Some (nodeName s u ''VLESS'')\<rparr>) \<and>
    (valid_port (nc_SSPort nc) \<and> CHR '':'' \<notin> set (ss_method nc) \<longrightarrow>
      (\<exists>user. parse_link (generateSSUrl s u) =
        \<lparr>cl_scheme = ''ss'', cl_user = Some user, cl_host = Trim (nc_ServerIP nc) ''[]'',
         cl_port = Some (nc_SSPort nc), cl_params = [], cl_name = Some (nodeName s u ''Shadowsocks'')\<rparr> \<and>
        read_ss_user user = (ss_method nc, l_SSPassword u))) \<and>
    (valid_port (nc_VMessPort nc) \<longrightarrow>
      (\<forall>data j. marshal (vmess_object s nc u) = Some data \<and> unmarshal data = Some j \<and>
          (\<forall>k. jget k j = jget k (vmess_object s nc u)) \<longrightarrow>
        (\<exists>j. read_vmess unmarshal (generateVMessUrl marshal s u) = Some j \<and> jget ''add'' j = JStr (nc_ServerIP nc) \<and>
          jget ''port'' j = JStr (itoa (nc_VMessPort nc)) \<and> jget ''id'' j = JStr (VMessUUID (l_UUID u)) \<and>
          jget ''aid'' j = JStr ''0'' \<and> jget ''net'' j = JStr ''ws'' \<and> jget ''path'' j = JStr ''/vmess'' \<and>
          jget ''ps'' j = JStr (nodeName s u ''VMess'')))) \<and>
    (valid_port (nc_TrojanPort nc) \<longrightarrow>
      parse_link (generateTrojanUrl s u) =
        \<lparr>cl_scheme = ''trojan'', cl_user = Some (TrojanPassword (l_UUID u)), cl_host = Trim (nc_ServerIP nc) ''[]'',
         cl_port = Some (nc_TrojanPort nc),
         cl_params = [(''allowInsecure'', ''1''), (''security'', ''tls''), (''sni'', SelfCertCN), (''type'', ''tcp'')],
         cl_name = Some (nodeName s u ''Trojan'')\<rparr>) \<and>
    (valid_port (nc_Hysteria2Port nc) \<longrightarrow>
      parse_link (generateHysteria2Url s u) =
        \<lparr>cl_scheme = ''hysteria2'', cl_user = Some (Hysteria2Password (l_UUID u)),
         cl_host = Trim (nc_ServerIP nc) ''[]'', cl_port = Some (nc_Hysteria2Port nc),
         cl_params = [(''insecure'', ''1''), (''sni'', SelfCertCN)],
         cl_name = Some (nodeName s u ''Hysteria2'')\<rparr>) \<and>
    (valid_port (nc_TUICPort nc) \<longrightarrow>
      parse_link (generateTUICUrl s u) =
        \<lparr>cl_scheme = ''tuic'', cl_user = Some (TUICUUID (l_UUID u) @ '':'' @ TUICPassword (l_UUID u)),
         cl_host = Trim (nc_ServerIP nc) ''[]'', cl_port = Some (nc_TUICPort nc),
         cl_params = [(''allow_insecure'', ''1''), (''alpn'', ''h3''), (''congestion_control'', ''bbr''),
           (''sni'', SelfCertCN)],
         cl_name = Some (nodeName s u ''TUIC'')\<rparr>)"
  (is "(_ \<longrightarrow> ?vless) \<and> (_ \<longrightarrow> ?ss) \<and> (_ \<longrightarrow> ?vmess) \<and> (_ \<longrightarrow> ?trojan) \<and> (_ \<longrightarrow> ?hy2) \<and> (_ \<longrightarrow> ?tuic)")
proof (intro conjI impI)
  have port: "is_i64 p" "0 \<le> p" "p \<noteq> 0" if "valid_port p" for p
    using that by (simp_all add: valid_port_def)
  note parse = parse_link_shape [OF _ _ nc(3), folded hostPort_def]
  note shapes = link_shapes [OF nc(1,2)]
  show ?vless if "valid_port (nc_VLESSPort nc) \<and> list_all unreserved (l_UUID u)"
    unfolding generateVLESSUrl_shape [OF nc(1,2)] sort_vless_params [symmetric]
    using that port [of "nc_VLESSPort nc"] plain_user_unreserved [of "l_UUID u"]
    by (intro parse) (simp_all add: vless_params_def Set_value_def Let_def)
  show ?trojan if "valid_port (nc_TrojanPort nc)"
    unfolding generateTrojanUrl_shape [OF nc(1,2) port(3) [OF that]]
    by (subst parse) (simp_all add: port [OF that] plain_credentials)
  show ?hy2 if "valid_port (nc_Hysteria2Port nc)"
    unfolding generateHysteria2Url_shape [OF nc(1,2) port(3) [OF that]]
    by (subst parse) (simp_all add: port [OF that] plain_credentials)
  show ?tuic if "valid_port (nc_TUICPort nc)"
    unfolding generateTUICUrl_shape [OF nc(1,2) port(3) [OF that]]
    by (subst parse) (simp_all add: port [OF that] plain_credentials(3) [simplified])
  show ?ss if v: "valid_port (nc_SSPort nc) \<and> CHR '':'' \<notin> set (ss_method nc)"
  proof -
    let ?user = "URLEncoding (bytes_of_string (ss_method nc @ '':'' @ l_SSPassword u))"
    have "parse_link (generateSSUrl s u) =
        \<lparr>cl_scheme = ''ss'', cl_user = Some ?user, cl_host = Trim (nc_ServerIP nc) ''[]'',
         cl_port = Some (nc_SSPort nc), cl_params = [], cl_name = Some (nodeName s u ''Shadowsocks'')\<rparr>"
      unfolding generateSSUrl_shape [OF nc(1,2)] hostPort_def
      by (rule parse_link_parts [OF plain_credentials(4) nc(3)]) (use v port in auto)
    moreover have "read_ss_user ?user = (ss_method nc, l_SSPassword u)"
      using v until_after [of "CHR '':''" "ss_method nc" "l_SSPassword u"]
      by (simp add: read_ss_user_def decode_URLEncoding)
    ultimately show ?thesis
      by blast
  qed
  show ?vmess if "valid_port (nc_VMessPort nc)"
    using generateVMessUrl_read [OF nc(1,2) port(3) [OF that]] by (auto simp: vmess_object_def)
qed

definition sample_node :: NodeConfig where
  "sample_node = \<lparr>nc_NodeID = ''n1'', nc_ServerIP = ''[2001:db8::1]'', nc_ServerIPv6 = ''2001:db8::2'',
     nc_PublicKey = ''pub'', nc_ShortID = ''ab12'', nc_VLESSPort = 443, nc_SSPort = 8388,
     nc_SSMethod = '''', nc_RealitySNI = '''', nc_VMessPort = 10086, nc_TrojanPort = 8443,
     nc_Hysteria2Port = 8444, nc_TUICPort = 8445\<rparr>"

definition sample_subscriber :: LocalUser where
  "sample_subscriber = \<lparr>l_UUID = ''u1'', l_Name = ''Bob #1'', l_Protocols = [''vless'', ''tuic''],
     l_SSPassword = ''pw'', l_Enabled = True, l_TrafficLimit = 0, l_TrafficUsed = 0, l_ExpireAt = None,
     CreatedAt = 0, UpdatedAt = 0\<rparr>"

lemma sample_host: "Trim (nc_ServerIP sample_node) ''[]'' = ''2001:db8::1''" "plain_text ''2001:db8::1''"
  by (simp_all add: sample_node_def Trim_def plain_text_def)

text \<open>Three kinds of links of one node and user; the JSON library is one that knows this document only.\<close>

lemma share_links_roundtrip_witness:
  "parse_link (generateHysteria2Url (NewLocalAPIServer ''key'' (Some sample_node)) sample_subscriber) =
     \<lparr>cl_scheme = ''hysteria2'', cl_user = Some (Hysteria2Password ''u1''), cl_host = ''2001:db8::1'',
      cl_port = Some 8444, cl_params = [(''insecure'', ''1''), (''sni'', ''www.bing.com'')],
      cl_name = Some (''Bob #1'' @ mid_dot @ ''Hysteria2'')\<rparr> \<and>
   (\<exists>user. cl_user (parse_link (generateSSUrl (NewLocalAPIServer ''key'' (Some sample_node)) sample_subscriber)) = Some user \<and>
     read_ss_user user = (''chacha20-ietf-poly1305'', ''pw'')) \<and>
   (let s = NewLocalAPIServer ''key'' (Some sample_node)
    in \<exists>j. read_vmess (\<lambda>_. Some (vmess_object s sample_node sample_subscriber)) (generateVMessUrl (\<lambda>_. Some ''doc'') s sample_subscriber) =
      Some j \<and> jget ''port'' j = JStr (itoa 10086))"
proof -
  let ?s = "NewLocalAPIServer ''key'' (Some sample_node)"
  have "nodeConfig ?s = Some sample_node" "nc_ServerIP sample_node \<noteq> ''''" "plain_text (Trim (nc_ServerIP sample_node) ''[]'')"
    unfolding sample_host(1) by (simp_all add: NewLocalAPIServer_def sample_host(2)) (simp add: sample_node_def)
  note l = share_links_roundtrip [OF this, of sample_subscriber "\<lambda>_. Some ''doc''" "\<lambda>_. Some (vmess_object ?s sample_node sample_subscriber)"]
  have p: "valid_port (nc_Hysteria2Port sample_node)" "valid_port (nc_SSPort sample_node)" "valid_port (nc_VMessPort sample_node)"
      "ss_method sample_node = ''chacha20-ietf-poly1305''"
    by (simp_all add: sample_node_def valid_port_def is_i64_def ss_method_def)
  have "parse_link (generateHysteria2Url ?s sample_subscriber) =
     \<lparr>cl_scheme = ''hysteria2'', cl_user = Some (Hysteria2Password ''u1''), cl_host = ''2001:db8::1'',
      cl_port = Some 8444, cl_params = [(''insecure'', ''1''), (''sni'', ''www.bing.com'')],
      cl_name = Some (''Bob #1'' @ mid_dot @ ''Hysteria2'')\<rparr>"
    using l p(1) unfolding sample_host(1)
    by (simp add: sample_node_def sample_subscriber_def NewLocalAPIServer_def nodeName_def SelfCertCN_def)
  moreover have "\<exists>user. cl_user (parse_link (generateSSUrl ?s sample_subscriber)) = Some user \<and>
     read_ss_user user = (''chacha20-ietf-poly1305'', ''pw'')"
    using l p(2) unfolding p(4) by (auto simp: sample_subscriber_def)
  moreover have "\<exists>j. read_vmess (\<lambda>_. Some (vmess_object ?s sample_node sample_subscriber)) (generateVMessUrl (\<lambda>_. Some ''doc'') ?s sample_subscriber) =
      Some j \<and> jget ''port'' j = JStr (itoa (nc_VMessPort sample_node))"
    using l p(3) by blast
  moreover have "nc_VMessPort sample_node = 10086"
    by (simp add: sample_node_def)
  ultimately show ?thesis
    by (simp add: Let_def)
qed

section \<open>The subscription\<close>

text \<open>The link of one protocol; empty for a protocol without a link.\<close>

definition link_of ::
    "(json \<Rightarrow> string option) \<Rightarrow> LocalAPIServer \<Rightarrow> LocalUser \<Rightarrow> string \<Rightarrow> string" where
  "link_of marshal s u proto =
     (if proto = ''vless'' then generateVLESSUrl s u
      else if proto = ''shadowsocks'' then generateSSUrl s u
      else if proto = ''vmess'' then generateVMessUrl marshal s u
      else if proto = ''trojan'' then generateTrojanUrl s u
      else if proto = ''hysteria2'' then generateHysteria2Url s u
      else if proto = ''tuic'' then generateTUICUrl s u
      else '''')"

definition links_of ::
    "(json \<Rightarrow> string option) \<Rightarrow> LocalAPIServer \<Rightarrow> LocalUser \<Rightarrow> string list" where
  "links_of marshal s u = filter (\<lambda>l. l \<noteq> '''') (map (link_of marshal s u) (l_Protocols u))"

definition subscription_links ::
    "(json \<Rightarrow> string option) \<Rightarrow> LocalAPIServer \<Rightarrow> LocalUser \<Rightarrow> string list" where
  "subscription_links marshal s u =
     links_of marshal s u @ (case v6Server True s of None \<Rightarrow> [] | Some v6 \<Rightarrow> links_of marshal v6 u)"

lemma appendIf_filter: "appendIf links l = links @ filter (\<lambda>l. l \<noteq> '''') [l]"
  by (simp add: appendIf_def)

lemma snd_link:
  "snd (link_v4 marshal s u st proto) = snd st @ filter (\<lambda>l. l \<noteq> '''') [link_of marshal s u proto]"
  "snd (link_v6 marshal s u st proto) = snd st @ filter (\<lambda>l. l \<noteq> '''') [link_of marshal s u proto]"
  by (cases st; simp add: link_v4_def link_v6_def link_of_def Let_def appendIf_filter)+

lemma snd_foldl_link:
  "snd (foldl (link_v4 marshal s u) st ps) = snd st @ filter (\<lambda>l. l \<noteq> '''') (map (link_of marshal s u) ps)"
  "snd (foldl (link_v6 marshal s u) st ps) = snd st @ filter (\<lambda>l. l \<noteq> '''') (map (link_of marshal s u) ps)"
  by (induction ps arbitrary: st) (simp_all add: snd_link)

lemma SubscriptionUrl_link:
  "SubscriptionUrl (fst (link_v4 marshal s u st proto)) = SubscriptionUrl (fst st)"
  "SubscriptionUrl (fst (link_v6 marshal s u st proto)) = SubscriptionUrl (fst st)"
  by (simp_all add: link_v4_def link_v6_def Let_def split: prod.split)

lemma SubscriptionUrl_foldl_link:
  "SubscriptionUrl (fst (foldl (link_v4 marshal s u) st ps)) = SubscriptionUrl (fst st)"
  "SubscriptionUrl (fst (foldl (link_v6 marshal s u) st ps)) = SubscriptionUrl (fst st)"
  by (induction ps arbitrary: st) (simp_all add: SubscriptionUrl_link)

definition one_line :: "string \<Rightarrow> bool" where
  "one_line s \<longleftrightarrow> CHR 0x0A \<notin> set s"

lemma one_line_append [simp]: "one_line (a @ b) \<longleftrightarrow> one_line a \<and> one_line b"
  by (auto simp: one_line_def)

lemma one_line_Cons [simp]: "one_line (c # s) \<longleftrightarrow> c \<noteq> CHR 0x0A \<and> one_line s"
  by (auto simp: one_line_def)

lemma one_line_Nil [simp]: "one_line []"
  by (simp add: one_line_def)

lemma one_line_itoa [simp]: "one_line (itoa i)"
proof -
  have "c \<noteq> CHR 0x0A" if "c \<in> set (digits n)" for c n
    using digits_ok [of n] that by (auto simp: list_all_iff is_digit_def)
  then show ?thesis by (auto simp: itoa_def one_line_def)
qed

lemma one_line_escape [simp]: "one_line (escape mode s)" "one_line (Encode vs)"
  unfolding one_line_def
  by (rule not_in_escape, simp_all add: shouldEscape_def is_alnum_def)
    (rule Encode_no, simp_all add: shouldEscape_def is_alnum_def)

lemma one_line_hostPort: "one_line (nc_ServerIP nc) \<Longrightarrow> one_line (hostPort nc p)"
proof -
  have "set (Trim s cs) \<subseteq> set s" for s cs
    unfolding Trim_def by (metis set_dropWhileD set_rev subsetI)
  then show "one_line (nc_ServerIP nc) \<Longrightarrow> one_line (hostPort nc p)"
    by (auto simp: hostPort_def JoinHostPort_def one_line_def [of "nc_ServerIP nc"] one_line_def [of "Trim _ _"])
qed

lemma one_line_base64_raw: "length a = 64 \<Longrightarrow> one_line a \<Longrightarrow> one_line (base64_raw a bs)"
  unfolding one_line_def using set_base64_raw by blast

lemma one_line_base64 [simp]: "one_line (URLEncoding bs)" "one_line (StdEncoding bs)"
proof -
  have "one_line (replicate n CHR ''='')" for n
    by (simp add: one_line_def)
  moreover have "one_line b64_url" "one_line b64_std"
    by (simp_all add: b64_url_def b64_std_def)
  ultimately show "one_line (URLEncoding bs)" "one_line (StdEncoding bs)"
    by (simp_all add: URLEncoding_def StdEncoding_def base64_pad_def one_line_base64_raw)
qed

lemma one_line_credentials [simp]:
  "one_line (TrojanPassword u)" "one_line (Hysteria2Password u)" "one_line (TUICPassword u)" "one_line (TUICUUID u)"
  unfolding one_line_def by (simp_all add: credentials_no)

lemmas link_defs = generateVLESSUrl_def generateSSUrl_def generateVMessUrl_def generateTrojanUrl_def
  generateHysteria2Url_def generateTUICUrl_def

lemma one_line_links:
  assumes "\<And>nc. nodeConfig s = Some nc \<Longrightarrow> one_line (nc_ServerIP nc)" "one_line (l_UUID u)"
  shows "one_line (generateVLESSUrl s u)" "one_line (generateSSUrl s u)" "one_line (generateVMessUrl marshal s u)"
    "one_line (generateTrojanUrl s u)" "one_line (generateHysteria2Url s u)" "one_line (generateTUICUrl s u)"
  using assms(2) one_line_hostPort [OF assms(1)]
  by (simp_all add: link_defs Let_def split: option.split)

lemma one_line_link_of:
  assumes "\<And>nc. nodeConfig s = Some nc \<Longrightarrow> one_line (nc_ServerIP nc)" "one_line (l_UUID u)"
  shows "one_line (link_of marshal s u proto)"
  by (simp add: link_of_def one_line_links [OF assms])

lemma v6Server_Some:
  "v6Server label s = Some v6 \<longleftrightarrow>
     (\<exists>nc. nodeConfig s = Some nc \<and> nc_ServerIPv6 nc \<noteq> '''' \<and>
       v6 = \<lparr>apiKey = apiKey s, nodeConfig = Some (nc\<lparr>nc_ServerIP := nc_ServerIPv6 nc\<rparr>),
             ipv6Label = label, plainNames = plainNames s\<rparr>)"
  by (auto simp: v6Server_def split: option.splits)

lemma StdEncoding_Nil [simp]: "StdEncoding (bytes_of_string []) = []"
  by (simp add: StdEncoding_def base64_pad_def base64_raw_def bytes_of_string_def)

lemma SubscriptionUrl_toUserResponse:
  "SubscriptionUrl (toUserResponse marshal s u) =
     (let links = subscription_links marshal s u
      in if links = [] then '''' else StdEncoding (bytes_of_string (join newline links)))"
  by (simp add: toUserResponse_def Let_def split_beta subscription_links_def links_of_def snd_foldl_link
      SubscriptionUrl_foldl_link split: option.split)

text \<open>
  C34. The subscription a client downloads decodes to exactly the user's links: one per protocol
  of the user that has a link, in the order of the user's protocols, all the IPv4 links before
  all the IPv6 ones, and the IPv6 ones only when the node has a public IPv6 address.
\<close>

theorem subscription_roundtrip:
  assumes "nodeConfig s = Some nc" "one_line (nc_ServerIP nc)" "one_line (nc_ServerIPv6 nc)" "one_line (l_UUID u)"
    and "subscription_links marshal s u \<noteq> []"
  shows "Split (string_of_bytes (base64_decode b64_std (SubscriptionUrl (toUserResponse marshal s u)))) newline =
    links_of marshal s u @ (if nc_ServerIPv6 nc = '''' then []
      else links_of marshal (s\<lparr>nodeConfig := Some (nc\<lparr>nc_ServerIP := nc_ServerIPv6 nc\<rparr>), ipv6Label := True\<rparr>) u)"
proof -
  have eq: "subscription_links marshal s u = links_of marshal s u @ (if nc_ServerIPv6 nc = '''' then []
      else links_of marshal (s\<lparr>nodeConfig := Some (nc\<lparr>nc_ServerIP := nc_ServerIPv6 nc\<rparr>), ipv6Label := True\<rparr>) u)"
    using assms(1) by (cases s) (simp add: subscription_links_def v6Server_def)
  have "one_line l" if "l \<in> set (subscription_links marshal s u)" for l
    using that assms(1-4)
    by (auto simp: eq links_of_def intro!: one_line_link_of split: if_splits)
  then have "split_from newline [] (join newline (subscription_links marshal s u)) = subscription_links marshal s u"
    unfolding newline_def using assms(5) by (intro split_join) (auto simp: one_line_def)
  then show ?thesis
    using assms(5)
    by (simp add: SubscriptionUrl_toUserResponse Let_def StdEncoding_def base64_pad_def base64_decode_pad
        Split_def eq [symmetric])
qed

lemma subscription_roundtrip_witness:
  "Split (string_of_bytes (base64_decode b64_std (SubscriptionUrl
      (toUserResponse (\<lambda>_. None) (NewLocalAPIServer ''key'' (Some sample_node)) sample_subscriber)))) newline =
    [generateVLESSUrl (NewLocalAPIServer ''key'' (Some sample_node)) sample_subscriber,
     generateTUICUrl (NewLocalAPIServer ''key'' (Some sample_node)) sample_subscriber,
     generateVLESSUrl \<lparr>apiKey = ''key'', nodeConfig = Some (sample_node\<lparr>nc_ServerIP := ''2001:db8::2''\<rparr>),
       ipv6Label = True, plainNames = False\<rparr> sample_subscriber,
     generateTUICUrl \<lparr>apiKey = ''key'', nodeConfig = Some (sample_node\<lparr>nc_ServerIP := ''2001:db8::2''\<rparr>),
       ipv6Label = True, plainNames = False\<rparr> sample_subscriber]"
proof -
  let ?s = "NewLocalAPIServer ''key'' (Some sample_node)"
  have links: "links_of (\<lambda>_. None) s sample_subscriber = [generateVLESSUrl s sample_subscriber, generateTUICUrl s sample_subscriber]"
    if "nodeConfig s = Some (sample_node\<lparr>nc_ServerIP := ip\<rparr>)" "ip \<noteq> ''''" for s ip
    using that
    by (simp add: links_of_def link_of_def sample_subscriber_def generateVLESSUrl_def generateTUICUrl_def
        sample_node_def Let_def)
  have n: "nodeConfig ?s = Some (sample_node\<lparr>nc_ServerIP := ''[2001:db8::1]''\<rparr>)" "nodeConfig ?s = Some sample_node"
    by (simp_all add: NewLocalAPIServer_def sample_node_def)
  have l: "links_of (\<lambda>_. None) ?s sample_subscriber = [generateVLESSUrl ?s sample_subscriber, generateTUICUrl ?s sample_subscriber]"
    by (rule links [OF n(1)]) simp
  then have "subscription_links (\<lambda>_. None) ?s sample_subscriber \<noteq> []"
    by (simp add: subscription_links_def)
  moreover have ips: "nc_ServerIP sample_node = ''[2001:db8::1]''" "nc_ServerIPv6 sample_node = ''2001:db8::2''"
    "l_UUID sample_subscriber = ''u1''"
    by (simp_all add: sample_node_def sample_subscriber_def)
  moreover have "?s\<lparr>nodeConfig := Some (sample_node\<lparr>nc_ServerIP := ''2001:db8::2''\<rparr>), ipv6Label := True\<rparr> =
      \<lparr>apiKey = ''key'', nodeConfig = Some (sample_node\<lparr>nc_ServerIP := ''2001:db8::2''\<rparr>),
       ipv6Label = True, plainNames = False\<rparr>"
    by (simp add: NewLocalAPIServer_def)
  ultimately show ?thesis
    using subscription_roundtrip [OF n(2), of sample_subscriber "\<lambda>_. None"]
    by (simp add: one_line_def l links)
qed

section \<open>The OTun contract\<close>

definition vmess_link :: "(json \<Rightarrow> string option) \<Rightarrow> json \<Rightarrow> string" where
  "vmess_link marshal obj =
     (case marshal obj of None \<Rightarrow> '''' | Some data \<Rightarrow> ''vmess://'' @ StdEncoding (bytes_of_string data))"

lemma generateVMessUrl_link:
  "nodeConfig s = Some nc \<Longrightarrow> nc_ServerIP nc \<noteq> '''' \<Longrightarrow> nc_VMessPort nc \<noteq> 0 \<Longrightarrow>
     generateVMessUrl marshal s u = vmess_link marshal (vmess_object s nc u)"
  by (simp add: generateVMessUrl_def vmess_link_def)

lemma vmess_object_add:
  "vmess_object s (nc\<lparr>nc_ServerIP := a\<rparr>) u = jset ''add'' (JStr a) (vmess_object s nc u)"
  by (simp add: vmess_object_def)

text \<open>The entry of one generator.\<close>

definition otun_entry ::
    "LocalAPIServer \<Rightarrow> LocalAPIServer option \<Rightarrow> LocalUser \<Rightarrow> string \<Rightarrow> (LocalAPIServer \<Rightarrow> LocalUser \<Rightarrow> string) \<Rightarrow>
     OTunProtocol" where
  "otun_entry s v6 u name gen =
     \<lparr>ot_Protocol = name, ot_URL = gen s u,
      ot_URLV6 = (case v6 of None \<Rightarrow> '''' | Some v6 \<Rightarrow> if name \<in> set otunV6Protocols then gen v6 u else ''''),
      ot_Node = ''primary''\<rparr>"

lemma otun_step_entry:
  "otun_step s v6 u ps (name, gen) =
     ps @ (if userHasProtocol u name \<and> gen s u \<noteq> '''' then [otun_entry s v6 u name gen] else [])"
  by (simp add: otun_step_def otun_entry_def Let_def split: option.split)

lemma set_foldl_otun_step:
  "set (foldl (otun_step s v6 u) ps gs) = set ps \<union>
     {otun_entry s v6 u name gen | name gen. (name, gen) \<in> set gs \<and> userHasProtocol u name \<and> gen s u \<noteq> ''''}"
proof (induction gs arbitrary: ps)
  case (Cons g gs)
  obtain name gen where g: "g = (name, gen)"
    by (cases g)
  show ?case
    unfolding foldl.simps Cons.IH g otun_step_entry by (auto split: if_splits)
qed simp

text \<open>Two links that differ in the address only.\<close>

definition same_but_address :: "string \<Rightarrow> string \<Rightarrow> NodeConfig \<Rightarrow> bool" where
  "same_but_address url url6 nc \<longleftrightarrow>
     (\<exists>pre port post. url = pre @ hostPort nc port @ post \<and>
        url6 = pre @ hostPort (nc\<lparr>nc_ServerIP := nc_ServerIPv6 nc\<rparr>) port @ post)"

lemma same_but_address_shape:
  "same_but_address (link_shape sch user (hostPort nc p) ps name)
     (link_shape sch user (hostPort (nc\<lparr>nc_ServerIP := nc_ServerIPv6 nc\<rparr>) p) ps name) nc"
  unfolding same_but_address_def link_shape_def
  by (rule exI [of _ "sch @ ''://'' @ user @ ''@''"], rule exI [of _ p],
      rule exI [of _ "''?'' @ Encode ps @ ''#'' @ PathEscape name"]) simp

lemma nodeName_plain: "plainNames s \<Longrightarrow> nodeName s u p = l_Name u"
  by (simp add: nodeName_def)

lemma vless_params_ip [simp]: "vless_params (nc\<lparr>nc_ServerIP := a\<rparr>) = vless_params nc"
  by (simp add: vless_params_def)

lemma vmess_object_plain:
  "plainNames s \<Longrightarrow> plainNames s6 \<Longrightarrow> vmess_object s6 nc u = vmess_object s nc u"
  by (simp add: vmess_object_def nodeName_plain)

lemma v6_generators:
  assumes s: "nodeConfig s = Some nc" "plainNames s"
    and s6: "nodeConfig s6 = Some (nc\<lparr>nc_ServerIP := nc_ServerIPv6 nc\<rparr>)" "plainNames s6"
    and ip: "nc_ServerIP nc \<noteq> ''''" "nc_ServerIPv6 nc \<noteq> ''''"
  shows "same_but_address (generateVLESSUrl s u) (generateVLESSUrl s6 u) nc"
    "generateTrojanUrl s u \<noteq> '''' \<Longrightarrow> same_but_address (generateTrojanUrl s u) (generateTrojanUrl s6 u) nc"
    "generateVMessUrl marshal s u \<noteq> '''' \<Longrightarrow> \<exists>obj.
       generateVMessUrl marshal s u = vmess_link marshal (jset ''add'' (JStr (nc_ServerIP nc)) obj) \<and>
       generateVMessUrl marshal s6 u = vmess_link marshal (jset ''add'' (JStr (nc_ServerIPv6 nc)) obj)"
proof -
  let ?nc6 = "nc\<lparr>nc_ServerIP := nc_ServerIPv6 nc\<rparr>"
  have ip6: "nc_ServerIP ?nc6 \<noteq> ''''"
    using ip(2) by simp
  show "same_but_address (generateVLESSUrl s u) (generateVLESSUrl s6 u) nc"
    unfolding generateVLESSUrl_shape [OF s(1) ip(1)] generateVLESSUrl_shape [OF s6(1) ip6]
    using same_but_address_shape by (simp add: nodeName_plain s(2) s6(2))
  show "same_but_address (generateTrojanUrl s u) (generateTrojanUrl s6 u) nc" if "generateTrojanUrl s u \<noteq> ''''"
  proof -
    have port: "nc_TrojanPort nc \<noteq> 0" "nc_TrojanPort ?nc6 \<noteq> 0"
      using that s(1) by (auto simp: generateTrojanUrl_def)
    show ?thesis
      unfolding generateTrojanUrl_shape [OF s(1) ip(1) port(1)] generateTrojanUrl_shape [OF s6(1) ip6 port(2)]
      using same_but_address_shape by (simp add: nodeName_plain s(2) s6(2))
  qed
  show "\<exists>obj. generateVMessUrl marshal s u = vmess_link marshal (jset ''add'' (JStr (nc_ServerIP nc)) obj) \<and>
      generateVMessUrl marshal s6 u = vmess_link marshal (jset ''add'' (JStr (nc_ServerIPv6 nc)) obj)"
    if "generateVMessUrl marshal s u \<noteq> ''''"
  proof -
    have port: "nc_VMessPort nc \<noteq> 0" "nc_VMessPort ?nc6 \<noteq> 0"
      using that s(1) by (auto simp: generateVMessUrl_def)
    have "generateVMessUrl marshal s u = vmess_link marshal (vmess_object s nc u)"
      by (rule generateVMessUrl_link [OF s(1) ip(1) port(1)])
    also have "vmess_object s nc u = jset ''add'' (JStr (nc_ServerIP nc)) (vmess_object s nc u)"
      by (simp add: vmess_object_add [symmetric])
    finally have "generateVMessUrl marshal s u =
      vmess_link marshal (jset ''add'' (JStr (nc_ServerIP nc)) (vmess_object s nc u))" .
    moreover have "generateVMessUrl marshal s6 u =
        vmess_link marshal (jset ''add'' (JStr (nc_ServerIPv6 nc)) (vmess_object s nc u))"
      unfolding generateVMessUrl_link [OF s6(1) ip6 port(2)] vmess_object_add [symmetric]
      by (simp add: vmess_object_plain [OF s(2) s6(2)])
    ultimately show ?thesis by blast
  qed
qed

text \<open>
  C35. The delivery contract for IPv6: in the OTun subscription of a node with a public IPv6
  address every entry is a protocol of the user with a link; the IPv6 link of a VLESS or Trojan
  entry is its IPv4 link with another address and nothing else changed; that of a VMess entry
  encodes the same object with another address; the UDP protocols have none.
\<close>

theorem otun_url_v6_contract:
  assumes "nodeConfig s = Some nc" "nc_ServerIPv6 nc \<noteq> ''''"
    and "p \<in> set (os_Protocols (buildOTunSubscription marshal s u))"
  shows "ot_Protocol p \<in> set (l_Protocols u) \<and> ot_URL p \<noteq> '''' \<and>
    (if ot_Protocol p = ''vless'' \<or> ot_Protocol p = ''trojan''
     then same_but_address (ot_URL p) (ot_URLV6 p) nc
     else if ot_Protocol p = ''vmess''
     then \<exists>obj. ot_URL p = vmess_link marshal (jset ''add'' (JStr (nc_ServerIP nc)) obj) \<and>
                ot_URLV6 p = vmess_link marshal (jset ''add'' (JStr (nc_ServerIPv6 nc)) obj)
     else ot_URLV6 p = '''')"
proof -
  define plain where "plain = \<lparr>apiKey = apiKey s, nodeConfig = nodeConfig s, ipv6Label = False, plainNames = True\<rparr>"
  define s6 where "s6 = \<lparr>apiKey = apiKey s, nodeConfig = Some (nc\<lparr>nc_ServerIP := nc_ServerIPv6 nc\<rparr>),
    ipv6Label = False, plainNames = True\<rparr>"
  have v6: "v6Server False plain = Some s6"
    using assms(1,2) by (simp add: v6Server_def plain_def s6_def)
  have s: "nodeConfig plain = Some nc" "plainNames plain" "nodeConfig s6 = Some (nc\<lparr>nc_ServerIP := nc_ServerIPv6 nc\<rparr>)"
    "plainNames s6"
    using assms(1) by (simp_all add: plain_def s6_def)
  from assms(3) obtain name gen where g: "(name, gen) \<in> set (otun_gens marshal)"
    and has: "userHasProtocol u name" and url: "gen plain u \<noteq> ''''" and p: "p = otun_entry plain (Some s6) u name gen"
    unfolding buildOTunSubscription_def Let_def plain_def [symmetric] v6 OTunSubscription.simps set_foldl_otun_step
    by auto
  have ip: "nc_ServerIP nc \<noteq> ''''"
    using g url s(1) by (auto simp: otun_gens_def link_defs)
  have "ot_Protocol p = name" "ot_URL p = gen plain u"
    "ot_URLV6 p = (if name \<in> set otunV6Protocols then gen s6 u else '''')"
    by (simp_all add: p otun_entry_def)
  moreover have "name \<in> set (l_Protocols u)"
    using has by (simp add: userHasProtocol_def list_ex_iff)
  moreover note v6_generators(1,2) [OF s ip assms(2), of u] v6_generators(3) [OF s ip assms(2), of marshal u]
  ultimately show ?thesis
    using g url by (auto simp: otun_gens_def otunV6Protocols_def)
qed

lemma otun_url_v6_contract_witness:
  "\<exists>p. p \<in> set (os_Protocols (buildOTunSubscription (\<lambda>_. None) (NewLocalAPIServer ''key'' (Some sample_node)) sample_subscriber)) \<and>
     ot_Protocol p = ''vless'' \<and> same_but_address (ot_URL p) (ot_URLV6 p) sample_node"
proof -
  let ?s = "NewLocalAPIServer ''key'' (Some sample_node)"
  let ?plain = "\<lparr>apiKey = ''key'', nodeConfig = Some sample_node, ipv6Label = False, plainNames = True\<rparr>"
  let ?p = "otun_entry ?plain (v6Server False ?plain) sample_subscriber ''vless'' generateVLESSUrl"
  have n: "nodeConfig ?s = Some sample_node" "nc_ServerIPv6 sample_node \<noteq> ''''"
    by (simp_all add: NewLocalAPIServer_def sample_node_def)
  have "(''vless'', generateVLESSUrl) \<in> set (otun_gens (\<lambda>_. None))" "userHasProtocol sample_subscriber ''vless''"
    "generateVLESSUrl ?plain sample_subscriber \<noteq> ''''"
    by (simp_all add: otun_gens_def userHasProtocol_def sample_subscriber_def generateVLESSUrl_def sample_node_def)
  then have p: "?p \<in> set (os_Protocols (buildOTunSubscription (\<lambda>_. None) ?s sample_subscriber))"
    unfolding buildOTunSubscription_def Let_def OTunSubscription.simps set_foldl_otun_step
    by (auto simp: NewLocalAPIServer_def)
  moreover have "ot_Protocol ?p = ''vless''"
    by (simp add: otun_entry_def)
  moreover from otun_url_v6_contract [OF n p] this have "same_but_address (ot_URL ?p) (ot_URLV6 ?p) sample_node"
    by simp
  ultimately show ?thesis by blast
qed

end
