(* ===== verification/LocalApi.thy ===== *)
theory LocalApi
  imports Links
begin

text \<open>
  The HTTP side of \<^verbatim>\<open>internal/api/local.go\<close> and \<^verbatim>\<open>internal/api/health.go\<close>: routing,
  authentication, the handlers and the operations of the user store they call. A handler maps a
  request and the store to the new store and a response. What the handlers read from outside is
  collected in \<open>api_env\<close>: the decoded JSON body, the JSON printers, and the inputs of the store's
  operations. Response bodies that \<^verbatim>\<open>json.NewEncoder\<close> prints are kept as values.
\<close>

section \<open>Requests and responses\<close>

text \<open>\<^verbatim>\<open>r.URL.Path\<close> is decoded; an absent \<^verbatim>\<open>Authorization\<close> header reads as the empty string.\<close>

record Request =
  Method :: string
  Path :: string
  Authorization :: string
  Format :: string

datatype body =
    ErrorBody string
  | UserBody UserResponse
  | UsersBody "UserResponse list" int
  | DeletedBody string
  | ConfigBody "NodeConfig option"
  | StatsBody "(string \<times> string \<times> int \<times> int) list"
  | HealthBody string string
  | Text string
  | NoBody

record Response =
  Code :: int
  ContentType :: string
  Body :: body

datatype method_handler =
    HandleUsers
  | HandleUserByID
  | HandleConfig
  | HandleStats
  | HandleSubscription

datatype handler = Auth method_handler | PublicSubscription | Health | Ready

text \<open>
  \<open>decode_create\<close> and \<open>decode_update\<close> are the decoded request bodies, \<open>None\<close> for a body that
  does not decode; \<open>error_text\<close> is the text the operating system gives the failed save.
\<close>

record api_env =
  decode_create :: "CreateUserRequest option"
  decode_update :: "UpdateUserRequest option"
  marshal_vmess :: "json \<Rightarrow> string option"
  marshal_profile :: "json \<Rightarrow> string option"
  marshal_otun :: "OTunSubscription \<Rightarrow> string option"
  list_order :: "string list"
  new_uuid :: string
  random :: "byte list option"
  clock_expire :: time
  clock :: time
  save_env :: save_env
  os_error :: string

definition jsonSuccess :: "body \<Rightarrow> Response" where
  "jsonSuccess data = \<lparr>Code = 200, ContentType = ''application/json'', Body = data\<rparr>"

definition jsonError :: "int \<Rightarrow> string \<Rightarrow> Response" where
  "jsonError code message = \<lparr>Code = code, ContentType = ''application/json'', Body = ErrorBody message\<rparr>"

definition http_NotFound :: "string \<Rightarrow> Response" where
  "http_NotFound message =
     \<lparr>Code = 404, ContentType = ''text/plain; charset=utf-8'', Body = Text (message @ newline)\<rparr>"

definition plainText :: "string \<Rightarrow> Response" where
  "plainText t = \<lparr>Code = 200, ContentType = ''text/plain; charset=utf-8'', Body = Text t\<rparr>"

definition jsonText :: "string \<Rightarrow> Response" where
  "jsonText t = \<lparr>Code = 200, ContentType = ''application/json; charset=utf-8'', Body = Text t\<rparr>"

text \<open>\<^verbatim>\<open>err.Error()\<close> of the store's errors.\<close>

fun store_error_text :: "string \<Rightarrow> store_error \<Rightarrow> string" where
  "store_error_text os GeneratePassword = ''generate password: '' @ os"
| "store_error_text os SaveUsers = ''save users: '' @ os"
| "store_error_text os (UserNotFound uuid) = ''user not found: '' @ uuid"
| "store_error_text os UUIDRequired = ''uuid is required''"
| "store_error_text os ErrUserConflict = ''user exists with different attributes''"

text \<open>\<^verbatim>\<open>strings.Contains\<close>.\<close>

fun Contains :: "string \<Rightarrow> string \<Rightarrow> bool" where
  "Contains [] sub = (sub = [])"
| "Contains (c # cs) sub = (HasPrefix (c # cs) sub \<or> Contains cs sub)"

section \<open>Authentication\<close>

definition ascii_lower :: "char \<Rightarrow> char" where
  "ascii_lower c =
     (let n = (of_char c :: nat) in if 65 \<le> n \<and> n \<le> 90 then char_of (n + 32) else c)"

text \<open>\<^verbatim>\<open>strings.SplitN(s, " ", 2)\<close>.\<close>

definition SplitN2 :: "char \<Rightarrow> string \<Rightarrow> string list" where
  "SplitN2 c s = (if c \<in> set s then [until c s, after c s] else [s])"

text \<open>
  \<^verbatim>\<open>authMiddleware\<close>: the error, or \<open>None\<close> when the next handler runs. \<^verbatim>\<open>strings.ToLower\<close> is
  compared with an ASCII word without i and k, the only letters some other character lowers to.
\<close>

definition authMiddleware :: "LocalAPIServer \<Rightarrow> Request \<Rightarrow> Response option" where
  "authMiddleware s r =
     (let auth = Authorization r in
      if auth = '''' then Some (jsonError 401 ''missing authorization header'')
      else
        (let parts = SplitN2 (CHR '' '') auth in
         if length parts \<noteq> 2 \<or> map ascii_lower (parts ! 0) \<noteq> ''bearer''
         then Some (jsonError 401 ''invalid authorization format'')
         else if parts ! 1 \<noteq> apiKey s then Some (jsonError 401 ''invalid api key'')
         else None))"

section \<open>Handlers\<close>

definition toUR :: "api_env \<Rightarrow> LocalAPIServer \<Rightarrow> LocalUser \<Rightarrow> UserResponse" where
  "toUR env s u = toUserResponse (marshal_vmess env) s u"

definition listUsers :: "api_env \<Rightarrow> LocalAPIServer \<Rightarrow> Store \<Rightarrow> Store \<times> Response" where
  "listUsers env s st =
     (let users = ListUsers (list_order env) st;
          response = map (toUR env s) users
      in (st, jsonSuccess (UsersBody response (int (length response)))))"

definition createUser :: "api_env \<Rightarrow> LocalAPIServer \<Rightarrow> Store \<Rightarrow> Store \<times> Response" where
  "createUser env s st =
     (case decode_create env of
        None \<Rightarrow> (st, jsonError 400 ''invalid request body'')
      | Some req \<Rightarrow>
          if c_Name req = '''' then (st, jsonError 400 ''name is required'')
          else
            (case CreateUser (new_uuid env) (random env) (clock_expire env) (clock env) (save_env env) req st of
               (st', Inl err) \<Rightarrow> (st', jsonError 500 (store_error_text (os_error env) err))
             | (st', Inr user) \<Rightarrow> (st', jsonSuccess (UserBody (toUR env s user)))))"

definition getUser :: "api_env \<Rightarrow> LocalAPIServer \<Rightarrow> string \<Rightarrow> Store \<Rightarrow> Store \<times> Response" where
  "getUser env s uuid st =
     (case GetUser uuid st of
        None \<Rightarrow> (st, jsonError 404 ''user not found'')
      | Some user \<Rightarrow> (st, jsonSuccess (UserBody (toUR env s user))))"

definition store_failure :: "api_env \<Rightarrow> store_error \<Rightarrow> Response" where
  "store_failure env err =
     (let t = store_error_text (os_error env) err
      in if Contains t ''not found'' then jsonError 404 t else jsonError 500 t)"

definition updateUser :: "api_env \<Rightarrow> LocalAPIServer \<Rightarrow> string \<Rightarrow> Store \<Rightarrow> Store \<times> Response" where
  "updateUser env s uuid st =
     (case decode_update env of
        None \<Rightarrow> (st, jsonError 400 ''invalid request body'')
      | Some req \<Rightarrow>
          (case UpdateUser (clock_expire env) (clock env) (save_env env) uuid req st of
             (st', Inl err) \<Rightarrow> (st', store_failure env err)
           | (st', Inr user) \<Rightarrow> (st', jsonSuccess (UserBody (toUR env s user)))))"

definition deleteUser :: "api_env \<Rightarrow> string \<Rightarrow> Store \<Rightarrow> Store \<times> Response" where
  "deleteUser env uuid st =
     (case DeleteUser (save_env env) uuid st of
        (st', Some err) \<Rightarrow> (st', store_failure env err)
      | (st', None) \<Rightarrow> (st', jsonSuccess (DeletedBody uuid)))"

definition method_not_allowed :: Response where
  "method_not_allowed = jsonError 405 ''method not allowed''"

definition handleUsers :: "api_env \<Rightarrow> LocalAPIServer \<Rightarrow> Request \<Rightarrow> Store \<Rightarrow> Store \<times> Response" where
  "handleUsers env s r st =
     (if Method r = ''GET'' then listUsers env s st
      else if Method r = ''POST'' then createUser env s st
      else (st, method_not_allowed))"

definition handleUserByID :: "api_env \<Rightarrow> LocalAPIServer \<Rightarrow> Request \<Rightarrow> Store \<Rightarrow> Store \<times> Response" where
  "handleUserByID env s r st =
     (let uuid = TrimSuffix (TrimPrefix (Path r) ''/api/local/users/'') ''/'' in
      if uuid = '''' then (st, jsonError 400 ''missing user uuid'')
      else if Method r = ''GET'' then getUser env s uuid st
      else if Method r = ''PUT'' then updateUser env s uuid st
      else if Method r = ''DELETE'' then deleteUser env uuid st
      else (st, method_not_allowed))"

definition handleConfig :: "LocalAPIServer \<Rightarrow> Request \<Rightarrow> Store \<Rightarrow> Store \<times> Response" where
  "handleConfig s r st =
     (if Method r \<noteq> ''GET'' then (st, method_not_allowed)
      else (st, jsonSuccess (ConfigBody (nodeConfig s))))"

definition handleStats :: "api_env \<Rightarrow> Request \<Rightarrow> Store \<Rightarrow> Store \<times> Response" where
  "handleStats env r st =
     (if Method r \<noteq> ''GET'' then (st, method_not_allowed)
      else (st, jsonSuccess (StatsBody
        (map (\<lambda>u. (l_UUID u, l_Name u, l_TrafficUsed u, l_TrafficLimit u)) (ListUsers (list_order env) st)))))"

definition handleSubscription :: "api_env \<Rightarrow> LocalAPIServer \<Rightarrow> Request \<Rightarrow> Store \<Rightarrow> Store \<times> Response" where
  "handleSubscription env s r st =
     (if Method r \<noteq> ''GET'' then (st, method_not_allowed)
      else
        (let uuid = TrimSuffix (TrimPrefix (Path r) ''/api/local/subscription/'') ''/'' in
         if uuid = '''' then (st, jsonError 400 ''missing user uuid'')
         else (case GetUser uuid st of
                 None \<Rightarrow> (st, jsonError 404 ''user not found'')
               | Some user \<Rightarrow> (st, plainText (SubscriptionUrl (toUR env s user))))))"

text \<open>What the public subscription answers once the user is known.\<close>

definition public_answer :: "api_env \<Rightarrow> LocalAPIServer \<Rightarrow> Request \<Rightarrow> LocalUser \<Rightarrow> Response" where
  "public_answer env s r u =
     (let otun = (case (if Format r = ''otun'' then marshal_otun env (buildOTunSubscription (marshal_vmess env) s u)
                        else None) of
                    Some data \<Rightarrow> jsonText data
                  | None \<Rightarrow> plainText (SubscriptionUrl (toUR env s u)))
      in case (if Format r = ''singbox''
               then case nodeConfig s of
                      None \<Rightarrow> None
                    | Some nc \<Rightarrow> buildSingBoxProfile (marshal_profile env) nc u
               else None) of
           Some data \<Rightarrow> jsonText data
         | None \<Rightarrow> otun)"

definition handlePublicSubscription :: "api_env \<Rightarrow> LocalAPIServer \<Rightarrow> Request \<Rightarrow> Store \<Rightarrow> Store \<times> Response" where
  "handlePublicSubscription env s r st =
     (if Method r \<noteq> ''GET'' then (st, method_not_allowed)
      else
        (let token = TrimSuffix (TrimPrefix (Path r) ''/sub/'') ''/'' in
         if token = '''' then (st, http_NotFound ''not found'')
         else (case find (\<lambda>u. SubscriptionToken (l_UUID u) (l_SSPassword u) = token)
                     (ListUsers (list_order env) st) of
                 None \<Rightarrow> (st, http_NotFound ''not found'')
               | Some u \<Rightarrow> (st, public_answer env s r u))))"

text \<open>\<^verbatim>\<open>internal/api/health.go\<close>.\<close>

definition HandleHealth :: "bool \<Rightarrow> Response" where
  "HandleHealth healthy =
     (let (status, code) = (if \<not> healthy then (''unhealthy'', 503) else (''healthy'', 200))
      in \<lparr>Code = code, ContentType = ''application/json'', Body = HealthBody status ''1.1.0''\<rparr>)"

definition HandleReady :: Response where
  "HandleReady = \<lparr>Code = 200, ContentType = '''', Body = Text ''OK''\<rparr>"

section \<open>Routing\<close>

text \<open>
  \<^verbatim>\<open>http.ServeMux\<close> with the rules of Go 1.21, the version the module declares: the path is
  cleaned (a request whose path is not clean is redirected, \<^verbatim>\<open>CONNECT\<close> excepted), a path
  without its final slash is redirected when only the subtree is registered, then the exact
  pattern wins, then the longest registered subtree.
\<close>

definition clean_comps :: "string list \<Rightarrow> string list" where
  "clean_comps parts =
     foldl (\<lambda>acc c. if c = '''' \<or> c = ''.'' then acc
                    else if c = ''..'' then butlast acc else acc @ [c]) [] parts"

definition cleanPath :: "string \<Rightarrow> string" where
  "cleanPath p =
     (if p = '''' then ''/''
      else
        (let np = ''/'' @ join ''/'' (clean_comps (Split p ''/''))
         in if last p = CHR ''/'' \<and> np \<noteq> ''/'' then np @ ''/'' else np))"

type_synonym routes = "(string \<times> handler) list"

definition mux_match :: "routes \<Rightarrow> string \<Rightarrow> handler option" where
  "mux_match rs path =
     (case map_of rs path of
        Some h \<Rightarrow> Some h
      | None \<Rightarrow>
          (case rev (sort_key (\<lambda>(p, h). length p) (filter (\<lambda>(p, h). HasSuffix p ''/'' \<and> HasPrefix path p) rs)) of
             [] \<Rightarrow> None
           | (p, h) # _ \<Rightarrow> Some h))"

definition slash_redirect :: "routes \<Rightarrow> string \<Rightarrow> bool" where
  "slash_redirect rs path \<longleftrightarrow>
     map_of rs path = None \<and> path \<noteq> '''' \<and> map_of rs (path @ ''/'') \<noteq> None \<and> last path \<noteq> CHR ''/''"

datatype target = Redirect | NotFound | Found handler

definition mux_handler :: "routes \<Rightarrow> Request \<Rightarrow> target" where
  "mux_handler rs r =
     (let found = (\<lambda>p. case mux_match rs p of None \<Rightarrow> NotFound | Some h \<Rightarrow> Found h) in
      if Method r = ''CONNECT'' then (if slash_redirect rs (Path r) then Redirect else found (Path r))
      else
        (let path = cleanPath (Path r) in
         if slash_redirect rs path then Redirect
         else if path \<noteq> Path r then Redirect
         else found (Path r)))"

text \<open>\<^verbatim>\<open>RegisterRoutes\<close>, and the two routes \<^verbatim>\<open>startHTTPServer\<close> registers before it.\<close>

definition RegisterRoutes :: "routes \<Rightarrow> routes" where
  "RegisterRoutes mux =
     mux @ [(''/api/local/users'', Auth HandleUsers), (''/api/local/users/'', Auth HandleUserByID),
            (''/api/local/config'', Auth HandleConfig), (''/api/local/stats'', Auth HandleStats),
            (''/api/local/subscription/'', Auth HandleSubscription), (''/sub/'', PublicSubscription)]"

definition health_routes :: routes where
  "health_routes = [(''/health'', Health), (''/ready'', Ready)]"

fun handle_authorized ::
    "api_env \<Rightarrow> LocalAPIServer \<Rightarrow> method_handler \<Rightarrow> Request \<Rightarrow> Store \<Rightarrow> Store \<times> Response" where
  "handle_authorized env s HandleUsers r st = handleUsers env s r st"
| "handle_authorized env s HandleUserByID r st = handleUserByID env s r st"
| "handle_authorized env s HandleConfig r st = handleConfig s r st"
| "handle_authorized env s HandleStats r st = handleStats env r st"
| "handle_authorized env s HandleSubscription r st = handleSubscription env s r st"

fun run_handler ::
    "api_env \<Rightarrow> LocalAPIServer \<Rightarrow> bool \<Rightarrow> handler \<Rightarrow> Request \<Rightarrow> Store \<Rightarrow> Store \<times> Response" where
  "run_handler env s healthy (Auth h) r st =
     (case authMiddleware s r of Some resp \<Rightarrow> (st, resp) | None \<Rightarrow> handle_authorized env s h r st)"
| "run_handler env s healthy PublicSubscription r st = handlePublicSubscription env s r st"
| "run_handler env s healthy Health r st = (st, HandleHealth healthy)"
| "run_handler env s healthy Ready r st = (st, HandleReady)"

definition ServeHTTP ::
    "api_env \<Rightarrow> LocalAPIServer \<Rightarrow> bool \<Rightarrow> Request \<Rightarrow> Store \<Rightarrow> Store \<times> Response" where
  "ServeHTTP env s healthy r st =
     (case mux_handler (RegisterRoutes health_routes) r of
        Redirect \<Rightarrow> (st, \<lparr>Code = 301, ContentType = ''text/html; charset=utf-8'', Body = NoBody\<rparr>)
      | NotFound \<Rightarrow> (st, http_NotFound ''404 page not found'')
      | Found h \<Rightarrow> run_handler env s healthy h r st)"

section \<open>Who may do what\<close>

definition authorized :: "LocalAPIServer \<Rightarrow> Request \<Rightarrow> bool" where
  "authorized s r \<longleftrightarrow> (\<exists>w. Authorization r = w @ '' '' @ apiKey s \<and> map ascii_lower w = ''bearer'')"

lemma ascii_lower_blank [simp]: "ascii_lower (CHR '' '') = CHR '' ''"
  by (simp add: ascii_lower_def)

lemma bearer_no_blank: "map ascii_lower w = ''bearer'' \<Longrightarrow> CHR '' '' \<notin> set w"
proof
  assume "map ascii_lower w = ''bearer''" "CHR '' '' \<in> set w"
  then have "ascii_lower (CHR '' '') \<in> set ''bearer''"
    by (metis image_eqI list.set_map)
  then show False by simp
qed

lemma until_after_eq: "c \<in> set s \<Longrightarrow> until c s @ c # after c s = s"
  by (induction s) (auto simp: until_def after_def)

lemma authMiddleware_None: "authMiddleware s r = None \<longleftrightarrow> authorized s r"
proof
  assume "authMiddleware s r = None"
  then have a: "CHR '' '' \<in> set (Authorization r)" "map ascii_lower (until (CHR '' '') (Authorization r)) = ''bearer''"
    "after (CHR '' '') (Authorization r) = apiKey s"
    by (auto simp: authMiddleware_def SplitN2_def Let_def split: if_splits)
  then show "authorized s r"
    unfolding authorized_def using until_after_eq [OF a(1)]
    by (intro exI [of _ "until (CHR '' '') (Authorization r)"]) simp
next
  assume "authorized s r"
  then obtain w where w: "Authorization r = w @ CHR '' '' # apiKey s" "map ascii_lower w = ''bearer''"
    by (auto simp: authorized_def)
  then show "authMiddleware s r = None"
    using bearer_no_blank [OF w(2)] by (simp add: authMiddleware_def SplitN2_def Let_def)
qed

definition auth_errors :: "Response set" where
  "auth_errors = {jsonError 401 ''missing authorization header'', jsonError 401 ''invalid authorization format'',
     jsonError 401 ''invalid api key''}"

lemma authMiddleware_Some: "authMiddleware s r = Some resp \<Longrightarrow> resp \<in> auth_errors"
  by (auto simp: authMiddleware_def auth_errors_def Let_def split: if_splits)

lemma HasPrefix_refl [simp]: "HasPrefix s s"
  by (simp add: HasPrefix_def)

lemma HasPrefix_nth: "HasPrefix p q \<Longrightarrow> i < length q \<Longrightarrow> p ! i = q ! i"
  unfolding HasPrefix_def by (metis nth_take)

lemma mux_match_registered:
  assumes "mux_match rs p = Some h"
  shows "\<exists>q. (q, h) \<in> set rs \<and> HasPrefix p q"
proof (cases "map_of rs p")
  case None
  let ?c = "rev (sort_key (\<lambda>(p, h). length p) (filter (\<lambda>(q, h). HasSuffix q ''/'' \<and> HasPrefix p q) rs))"
  from None assms obtain q cs where "?c = (q, h) # cs"
    by (auto simp: mux_match_def split: list.splits)
  then have "(q, h) \<in> set ?c"
    by simp
  then show ?thesis by auto
next
  case (Some h')
  with assms have "map_of rs p = Some h"
    by (simp add: mux_match_def)
  then show ?thesis
    by (blast dest: map_of_SomeD intro: HasPrefix_refl)
qed

lemma mux_handler_registered:
  "mux_handler rs r = Found h \<Longrightarrow> \<exists>q. (q, h) \<in> set rs \<and> HasPrefix (Path r) q"
  by (auto simp: mux_handler_def Let_def split: if_splits option.splits dest!: mux_match_registered)

definition redirected :: Response where
  "redirected = \<lparr>Code = 301, ContentType = ''text/html; charset=utf-8'', Body = NoBody\<rparr>"

lemma api_path_handler:
  assumes "mux_handler (RegisterRoutes health_routes) r = Found h" "HasPrefix (Path r) ''/api/local/''"
  shows "\<exists>m. h = Auth m"
proof -
  from assms(1) obtain q where q: "(q, h) \<in> set (RegisterRoutes health_routes)" "HasPrefix (Path r) q"
    by (auto dest: mux_handler_registered)
  have "Path r ! 1 = CHR ''a''"
    using HasPrefix_nth [OF assms(2), of 1] by simp
  then have "1 < length q \<Longrightarrow> q ! 1 = CHR ''a''"
    using HasPrefix_nth [OF q(2), of 1] by simp
  with q(1) show ?thesis
    by (auto simp: RegisterRoutes_def health_routes_def)
qed

lemma handlers_read:
  "fst (listUsers env s st) = st" "fst (getUser env s uuid st) = st" "fst (handleConfig s r st) = st"
  "fst (handleStats env r st) = st" "fst (handleSubscription env s r st) = st"
  "fst (handlePublicSubscription env s r st) = st"
  by (simp_all add: listUsers_def getUser_def handleConfig_def handleStats_def handleSubscription_def
      handlePublicSubscription_def Let_def split: option.split)

definition changing_methods :: "string set" where
  "changing_methods = {''POST'', ''PUT'', ''DELETE''}"

lemma handle_authorized_read:
  "Method r \<notin> changing_methods \<Longrightarrow> fst (handle_authorized env s h r st) = st"
  by (cases h) (simp_all add: handlers_read handleUsers_def handleUserByID_def changing_methods_def Let_def)

lemma ServeHTTP_cases:
  obtains "ServeHTTP env s healthy r st = (st, redirected)"
  | "ServeHTTP env s healthy r st = (st, http_NotFound ''404 page not found'')"
  | h where "mux_handler (RegisterRoutes health_routes) r = Found h"
      "ServeHTTP env s healthy r st = run_handler env s healthy h r st"
  by (cases "mux_handler (RegisterRoutes health_routes) r") (simp_all add: ServeHTTP_def redirected_def)

lemma run_handler_unauthorized:
  assumes "\<not> authorized s r"
  shows "fst (run_handler env s healthy h r st) = st"
    and "\<exists>m. h = Auth m \<Longrightarrow> snd (run_handler env s healthy h r st) \<in> auth_errors"
proof -
  obtain resp where "authMiddleware s r = Some resp" "resp \<in> auth_errors"
    using assms authMiddleware_None [of s r] authMiddleware_Some [of s r] by fastforce
  then show "fst (run_handler env s healthy h r st) = st"
    "\<exists>m. h = Auth m \<Longrightarrow> snd (run_handler env s healthy h r st) \<in> auth_errors"
    by (cases h; auto simp: handlers_read)+
qed

text \<open>Without the key nothing changes and no data is disclosed.\<close>

lemma ServeHTTP_needs_key:
  "(\<not> authorized s r \<longrightarrow> fst (ServeHTTP env s healthy r st) = st \<and>
      (HasPrefix (Path r) ''/api/local/'' \<longrightarrow>
        snd (ServeHTTP env s healthy r st) \<in> auth_errors \<union> {redirected, http_NotFound ''404 page not found''})) \<and>
   (Method r \<notin> changing_methods \<longrightarrow> fst (ServeHTTP env s healthy r st) = st)"
proof (rule ServeHTTP_cases [of env s healthy r st])
  fix h
  assume h: "mux_handler (RegisterRoutes health_routes) r = Found h"
    "ServeHTTP env s healthy r st = run_handler env s healthy h r st"
  have "Method r \<notin> changing_methods \<Longrightarrow> fst (run_handler env s healthy h r st) = st"
    by (cases h) (simp_all add: handlers_read handle_authorized_read split: option.split)
  then show ?thesis
    using run_handler_unauthorized api_path_handler [OF h(1)] by (simp add: h(2))
qed simp_all

definition no_users_store :: Store where
  "no_users_store = \<lparr>s_users = Map.empty, disk = NoFile, has_onChange = True, changes = 0\<rparr>"

text \<open>
  C36. The public subscription needs no key, and discloses one user: the answer is 200 exactly
  when some user of the store has the token in the path, and is then computed from that user and
  the node alone; otherwise it is 404 and says nothing. Nobody is found without a token.
\<close>

theorem public_subscription_discloses_one_user:
  assumes "range_order (s_users st) (list_order env)" "store_wf st" "Method r = ''GET''"
    and "Path r = ''/sub/'' @ token" "token \<noteq> ''''" "last token \<noteq> CHR ''/''"
  shows "(\<exists>u. s_users st (l_UUID u) = Some u \<and> SubscriptionToken (l_UUID u) (l_SSPassword u) = token \<and>
       handlePublicSubscription env s r st = (st, public_answer env s r u)) \<or>
    ((\<nexists>u. s_users st (l_UUID u) = Some u \<and> SubscriptionToken (l_UUID u) (l_SSPassword u) = token) \<and>
       handlePublicSubscription env s r st = (st, http_NotFound ''not found''))"
proof -
  let ?P = "\<lambda>u. SubscriptionToken (l_UUID u) (l_SSPassword u) = token"
  have "\<not> HasSuffix token ''/''"
    using assms(5,6) by (cases token rule: rev_cases) (auto simp: HasSuffix_def)
  then have t: "TrimSuffix (TrimPrefix (Path r) ''/sub/'') ''/'' = token"
    using TrimPrefix_append [of "''/sub/''" token] by (simp add: assms(4) TrimSuffix_def)
  have users: "set (ListUsers (list_order env) st) = {u. s_users st (l_UUID u) = Some u}"
    using assms(2) set_range_values_order [OF assms(1)]
    by (auto simp: ListUsers_def ran_def store_wf_def)
  show ?thesis
  proof (cases "find ?P (ListUsers (list_order env) st)")
    case None
    then have "\<forall>u \<in> set (ListUsers (list_order env) st). \<not> ?P u"
      by (simp add: find_None_iff)
    moreover have "handlePublicSubscription env s r st = (st, http_NotFound ''not found'')"
      unfolding handlePublicSubscription_def t Let_def using None assms(3,5) by simp
    ultimately show ?thesis
      unfolding users by blast
  next
    case (Some u)
    then have "u \<in> set (ListUsers (list_order env) st)" "?P u"
      by (auto simp: find_Some_iff)
    moreover have "handlePublicSubscription env s r st = (st, public_answer env s r u)"
      unfolding handlePublicSubscription_def t Let_def using Some assms(3,5) by simp
    ultimately show ?thesis
      unfolding users by blast
  qed
qed

lemma public_subscription_discloses_one_user_witness:
  "\<forall>env s. handlePublicSubscription (env\<lparr>list_order := [''u1'']\<rparr>) s
      \<lparr>Method = ''GET'', Path = ''/sub/'' @ SubscriptionToken ''u1'' ''pw'', Authorization = '''', Format = ''''\<rparr>
      (put_user sample_subscriber no_users_store) =
    (put_user sample_subscriber no_users_store, public_answer (env\<lparr>list_order := [''u1'']\<rparr>) s
      \<lparr>Method = ''GET'', Path = ''/sub/'' @ SubscriptionToken ''u1'' ''pw'', Authorization = '''', Format = ''''\<rparr>
      sample_subscriber)"
proof (intro allI, goal_cases)
  case (1 env s)
  let ?st = "put_user sample_subscriber no_users_store"
  have st: "s_users ?st = [''u1'' \<mapsto> sample_subscriber]" "l_UUID sample_subscriber = ''u1''" "l_SSPassword sample_subscriber = ''pw''"
    by (simp_all add: put_user_def no_users_store_def sample_subscriber_def fun_eq_iff)
  have o: "range_order (s_users ?st) (list_order (env\<lparr>list_order := [''u1'']\<rparr>))" "store_wf ?st"
    by (auto simp: st range_order_def store_wf_def no_users_store_def split: if_splits)
  have tok: "SubscriptionToken ''u1'' ''pw'' \<noteq> ''''"
    using length_SubscriptionToken [of "''u1''" "''pw''"] by force
  have no: "CHR ''/'' \<notin> set b64_url"
    by (simp add: b64_url_def)
  have tok_last: "last (SubscriptionToken ''u1'' ''pw'') \<noteq> CHR ''/''"
  proof
    assume "last (SubscriptionToken ''u1'' ''pw'') = CHR ''/''"
    with subsetD [OF set_SubscriptionToken last_in_set [OF tok]] have "CHR ''/'' \<in> set b64_url"
      by (simp only:)
    with no show False ..
  qed
  note disclosed = public_subscription_discloses_one_user [OF o _ _ tok tok_last, of
      "\<lparr>Method = ''GET'', Path = ''/sub/'' @ SubscriptionToken ''u1'' ''pw'', Authorization = '''', Format = ''''\<rparr>" s,
      unfolded Request.simps, OF refl refl]
  have "s_users ?st (l_UUID sample_subscriber) = Some sample_subscriber \<and>
      SubscriptionToken (l_UUID sample_subscriber) (l_SSPassword sample_subscriber) = SubscriptionToken ''u1'' ''pw''"
    by (simp only: st fun_upd_same simp_thms)
  moreover have "u = sample_subscriber" if "s_users ?st k = Some u" for k u
    using that by (simp add: st no_users_store_def split: if_splits)
  ultimately show ?case
    using disclosed by blast
qed

section \<open>The answers of the management interface\<close>

lemma cleanPath_user:
  assumes "uuid \<noteq> ''''" "CHR ''/'' \<notin> set uuid" "uuid \<noteq> ''.''" "uuid \<noteq> ''..''"
  shows "cleanPath (''/api/local/users/'' @ uuid) = ''/api/local/users/'' @ uuid"
proof -
  have "Split (''/api/local/users/'' @ uuid) ''/'' = ['''', ''api'', ''local'', ''users'', uuid]"
    by (simp add: Split_def HasPrefix_def split_from_char(1) [OF assms(2)])
  moreover have "last uuid \<noteq> CHR ''/''"
    using assms(1,2) last_in_set by metis
  then have "last (''/api/local/users/'' @ uuid) \<noteq> CHR ''/''"
    using assms(1) by simp
  ultimately show ?thesis
    using assms by (simp add: cleanPath_def clean_comps_def Let_def)
qed

lemma route_user:
  assumes "uuid \<noteq> ''''" "CHR ''/'' \<notin> set uuid" "uuid \<noteq> ''.''" "uuid \<noteq> ''..''"
    and "Path r = ''/api/local/users/'' @ uuid"
  shows "mux_handler (RegisterRoutes health_routes) r = Found (Auth HandleUserByID)"
proof -
  let ?p = "''/api/local/users/'' @ uuid"
  have "\<not> slash_redirect (RegisterRoutes health_routes) ?p"
    by (simp add: slash_redirect_def RegisterRoutes_def health_routes_def)
  moreover have "mux_match (RegisterRoutes health_routes) ?p = Some (Auth HandleUserByID)"
    using assms(1) by (simp add: mux_match_def RegisterRoutes_def health_routes_def HasSuffix_def HasPrefix_def)
  ultimately show ?thesis
    using cleanPath_user [OF assms(1-4)] by (simp add: mux_handler_def assms(5) Let_def)
qed

lemma uuid_of_path:
  assumes "uuid \<noteq> ''''" "CHR ''/'' \<notin> set uuid"
  shows "TrimSuffix (TrimPrefix (''/api/local/users/'' @ uuid) ''/api/local/users/'') ''/'' = uuid"
proof -
  have "\<not> HasSuffix uuid ''/''"
    using assms by (cases uuid rule: rev_cases) (auto simp: HasSuffix_def)
  then show ?thesis
    using TrimPrefix_append [of "''/api/local/users/''" uuid] by (simp add: TrimSuffix_def)
qed

lemma Contains_prefix: "HasPrefix s sub \<Longrightarrow> Contains s sub"
  by (cases s) (simp_all add: HasPrefix_def)

lemma user_not_found_text: "Contains (''user not found: '' @ uuid) ''not found''"
  by (simp add: HasPrefix_def)

lemma save_cases:
  obtains s' where "save_fails e = None" "save e s = (s', True)"
  | s' where "save_fails e \<noteq> None" "save e s = (s', False)"
  using save_result [of e s] by (cases "save e s") auto

lemma deleteUser_cases:
  "deleteUser env uuid st =
     (fst (DeleteUser (save_env env) uuid st),
      if s_users st uuid = None then store_failure env (UserNotFound uuid)
      else if save_fails (save_env env) = None then jsonSuccess (DeletedBody uuid)
      else store_failure env SaveUsers)"
proof (cases "s_users st uuid")
  case (Some u)
  show ?thesis
    by (rule save_cases [of "save_env env" "drop_user uuid st"])
      (auto simp add: deleteUser_def DeleteUser_def Some)
qed (simp add: deleteUser_def DeleteUser_def)

lemma updateUser_cases:
  "updateUser env s uuid st =
     (case decode_update env of
        None \<Rightarrow> (st, jsonError 400 ''invalid request body'')
      | Some req \<Rightarrow>
          (fst (UpdateUser (clock_expire env) (clock env) (save_env env) uuid req st),
           case s_users st uuid of
             None \<Rightarrow> store_failure env (UserNotFound uuid)
           | Some u \<Rightarrow>
               if save_fails (save_env env) = None
               then jsonSuccess (UserBody (toUR env s (update_fields (clock_expire env) (clock env) req u)))
               else store_failure env SaveUsers))"
proof (cases "decode_update env")
  case (Some req)
  show ?thesis
  proof (cases "s_users st uuid")
    case None
    then show ?thesis by (simp add: updateUser_def UpdateUser_def Some)
  next
    case u: (Some u)
    let ?u = "update_fields (clock_expire env) (clock env) req u"
    show ?thesis
      by (rule save_cases [of "save_env env" "st\<lparr>s_users := (s_users st)(uuid \<mapsto> ?u)\<rparr>"])
        (auto simp add: updateUser_def UpdateUser_def Some u Let_def)
  qed
qed (simp add: updateUser_def)

text \<open>
  What the management interface answers about one user, to a request with the key: reading,
  replacing fields and deleting are the store's operations; a missing user is 404, a body that
  does not decode is 400, a write that fails is 500, and no other status occurs.
\<close>

theorem user_by_id_answers:
  assumes "authorized s r" "Path r = ''/api/local/users/'' @ uuid"
    and "uuid \<noteq> ''''" "CHR ''/'' \<notin> set uuid" "uuid \<noteq> ''.''" "uuid \<noteq> ''..''"
    and "\<not> Contains (''save users: '' @ os_error env) ''not found''"
  shows "ServeHTTP env s healthy (r\<lparr>Method := ''GET''\<rparr>) st =
      (st, case s_users st uuid of None \<Rightarrow> jsonError 404 ''user not found''
           | Some u \<Rightarrow> jsonSuccess (UserBody (toUR env s u))) \<and>
    ServeHTTP env s healthy (r\<lparr>Method := ''DELETE''\<rparr>) st =
      (fst (DeleteUser (save_env env) uuid st),
       if s_users st uuid = None then jsonError 404 (''user not found: '' @ uuid)
       else if save_fails (save_env env) = None then jsonSuccess (DeletedBody uuid)
       else jsonError 500 (''save users: '' @ os_error env)) \<and>
    ServeHTTP env s healthy (r\<lparr>Method := ''PUT''\<rparr>) st =
      (case decode_update env of
         None \<Rightarrow> (st, jsonError 400 ''invalid request body'')
       | Some req \<Rightarrow>
           (fst (UpdateUser (clock_expire env) (clock env) (save_env env) uuid req st),
            case s_users st uuid of
              None \<Rightarrow> jsonError 404 (''user not found: '' @ uuid)
            | Some u \<Rightarrow>
                if save_fails (save_env env) = None
                then jsonSuccess (UserBody (toUR env s (update_fields (clock_expire env) (clock env) req u)))
                else jsonError 500 (''save users: '' @ os_error env)))"
proof -
  have run: "ServeHTTP env s healthy (r\<lparr>Method := m\<rparr>) st = handleUserByID env s (r\<lparr>Method := m\<rparr>) st" for m
  proof -
    have "authMiddleware s (r\<lparr>Method := m\<rparr>) = None"
      using assms(1) by (simp add: authMiddleware_None authorized_def)
    then show ?thesis
      using route_user [OF assms(3-6), of "r\<lparr>Method := m\<rparr>"] assms(2) by (simp add: ServeHTTP_def)
  qed
  have uuid: "TrimSuffix (TrimPrefix (Path (r\<lparr>Method := m\<rparr>)) ''/api/local/users/'') ''/'' = uuid" for m
    using uuid_of_path [OF assms(3,4)] assms(2) by simp
  have methods: "handleUserByID env s (r\<lparr>Method := ''GET''\<rparr>) st = getUser env s uuid st"
    "handleUserByID env s (r\<lparr>Method := ''DELETE''\<rparr>) st = deleteUser env uuid st"
    "handleUserByID env s (r\<lparr>Method := ''PUT''\<rparr>) st = updateUser env s uuid st"
    unfolding handleUserByID_def uuid Let_def using assms(3) by simp_all
  have fail: "store_failure env (UserNotFound uuid) = jsonError 404 (''user not found: '' @ uuid)"
    "store_failure env SaveUsers = jsonError 500 (''save users: '' @ os_error env)"
    using user_not_found_text [of uuid] assms(7) by (simp_all only: store_failure_def Let_def store_error_text.simps if_True if_False)
  show ?thesis
    unfolding run methods
    by (simp add: getUser_def GetUser_def deleteUser_cases updateUser_cases fail split: option.split)
qed

lemma user_by_id_answers_witness:
  "ServeHTTP (env\<lparr>os_error := ''disk full''\<rparr>) (NewLocalAPIServer ''key'' (Some sample_node)) True
      \<lparr>Method = ''GET'', Path = ''/api/local/users/u9'', Authorization = ''bearer key'', Format = ''''\<rparr> no_users_store =
    (no_users_store, jsonError 404 ''user not found'')"
proof -
  let ?r = "\<lparr>Method = ''GET'', Path = ''/api/local/users/u9'', Authorization = ''bearer key'', Format = ''''\<rparr>"
  have "authorized (NewLocalAPIServer ''key'' (Some sample_node)) ?r"
    unfolding authorized_def by (rule exI [of _ "''bearer''"]) (simp add: NewLocalAPIServer_def ascii_lower_def)
  moreover have "Path ?r = ''/api/local/users/'' @ ''u9''"
    by simp
  moreover have "\<not> Contains (''save users: '' @ os_error (env\<lparr>os_error := ''disk full''\<rparr>)) ''not found''"
    by (simp add: HasPrefix_def)
  ultimately show ?thesis
    using user_by_id_answers [of _ ?r "''u9''" "env\<lparr>os_error := ''disk full''\<rparr>" True no_users_store]
    by (simp add: no_users_store_def)
qed

end
