(* ===== verification/SingboxManager.thy ===== *)
theory SingboxManager
  imports Prelude
begin

text \<open>
  \<^verbatim>\<open>internal/singbox/process.go\<close>: the manager of the sing-box process. \<open>Manager\<close> is the Go
  struct; \<open>world\<close> adds what the manager acts on: the running processes that were started with
  this configuration, the files, the goroutines the manager has started and not yet finished,
  and the clock. Each critical section of the Go code is one function on \<open>world\<close>; \<open>mstep\<close>
  lets the critical sections of all goroutines, process exits, file changes by the app and the
  passage of time interleave freely.

  \<^verbatim>\<open>generation\<close> is a \<^verbatim>\<open>uint64\<close> that is incremented once per start or stop; it is a natural
  number here, so the \<open>2^64\<close>-th increment is outside the model. A signal sent with \<^verbatim>\<open>KILL\<close> ends
  the process. Times are in nanoseconds.
\<close>

section \<open>State\<close>

definition initialRestartBackoff :: time where "initialRestartBackoff = 1000000000"
definition maxRestartBackoff :: time where "maxRestartBackoff = 30 * 1000000000"
definition maxConsecutiveFailures :: nat where "maxConsecutiveFailures = 10"
definition startSettleWindow :: time where "startSettleWindow = 5 * 1000000000"
definition ResidentialFile :: string where "ResidentialFile = ''residential.json''"
definition residentialMaxFailures :: nat where "residentialMaxFailures = 2"

text \<open>\<^verbatim>\<open>m.cmd\<close>: nil, a command that was not started (\<^verbatim>\<open>Process\<close> is nil), or a started process.\<close>

datatype cmdref = NoCmd | Unstarted | Proc nat

record Manager =
  binPath :: string
  configPath :: string
  cmd :: cmdref
  running :: bool
  generation :: nat
  consecutiveFailures :: nat
  stopped :: bool

record world =
  mgr :: Manager
  live :: "nat set"
  next_pid :: nat
  files :: "string set"
  launched :: "(nat \<times> string list) list"
  waiting :: "(nat \<times> nat) list"
  sleeping :: "(nat \<times> time) list"
  timers :: "(nat \<times> time) list"
  clock :: time

definition NewManager :: "string \<Rightarrow> string \<Rightarrow> Manager" where
  "NewManager bin config = \<lparr>binPath = bin, configPath = config, cmd = NoCmd, running = False,
     generation = 0, consecutiveFailures = 0, stopped = False\<rparr>"

datatype start_error = AlreadyRunning | ConfigNotFound string | BinaryNotFound string | StartFailed

section \<open>Files and arguments\<close>

text \<open>\<^verbatim>\<open>filepath.Dir\<close> and \<^verbatim>\<open>filepath.Join\<close> on clean paths.\<close>

definition filepath_Dir :: "string \<Rightarrow> string" where
  "filepath_Dir p =
     (let d = rev (dropWhile (\<lambda>c. c \<noteq> CHR ''/'') (rev p))
      in if d = [] then ''.'' else if d = ''/'' then ''/'' else butlast d)"

definition filepath_Join :: "string \<Rightarrow> string \<Rightarrow> string" where
  "filepath_Join d f = (if d = ''.'' then f else if d = ''/'' then ''/'' @ f else d @ ''/'' @ f)"

definition residentialPath :: "Manager \<Rightarrow> string" where
  "residentialPath m = filepath_Join (filepath_Dir (configPath m)) ResidentialFile"

definition args :: "string \<Rightarrow> world \<Rightarrow> string list" where
  "args sub w =
     (let a = [sub, ''-c'', configPath (mgr w)]
      in if residentialPath (mgr w) \<in> files w then a @ [''-c'', residentialPath (mgr w)] else a)"

text \<open>\<open>rename_ok\<close> is the outcome of \<^verbatim>\<open>os.Rename\<close>.\<close>

definition disableResidential :: "bool \<Rightarrow> world \<Rightarrow> world \<times> bool" where
  "disableResidential rename_ok w =
     (let p = residentialPath (mgr w)
      in if p \<notin> files w then (w, False)
         else if \<not> rename_ok then (w, False)
         else (w\<lparr>files := insert (p @ ''.failed'') (files w - {p})\<rparr>, True))"

section \<open>Critical sections\<close>

text \<open>
  What the operating system does during a start: whether \<^verbatim>\<open>pgrep\<close> works, and whether the new
  process can be created.
\<close>

record start_env =
  pgrep_ok :: bool
  spawn_ok :: bool

text \<open>
  \<^verbatim>\<open>reapStrays\<close>: with a working \<^verbatim>\<open>pgrep\<close> every process with this configuration is gone
  afterwards (\<^verbatim>\<open>TERM\<close>, three seconds, \<^verbatim>\<open>KILL\<close>).
\<close>

definition reapStrays :: "start_env \<Rightarrow> world \<Rightarrow> world \<times> nat" where
  "reapStrays env w =
     (if \<not> pgrep_ok env \<or> live w = {} then (w, 0) else (w\<lparr>live := {}\<rparr>, 1))"

definition startLocked :: "start_env \<Rightarrow> world \<Rightarrow> world \<times> start_error option" where
  "startLocked env w =
     (if running (mgr w) then (w, Some AlreadyRunning)
      else if configPath (mgr w) \<notin> files w then (w, Some (ConfigNotFound (configPath (mgr w))))
      else if binPath (mgr w) \<notin> files w then (w, Some (BinaryNotFound (binPath (mgr w))))
      else
        (let w = fst (reapStrays env w)
         in if \<not> spawn_ok env then (w\<lparr>mgr := (mgr w)\<lparr>cmd := Unstarted\<rparr>\<rparr>, Some StartFailed)
            else
              (let pid = next_pid w;
                   gen = Suc (generation (mgr w))
               in (w\<lparr>mgr := (mgr w)\<lparr>cmd := Proc pid, running := True, generation := gen\<rparr>,
                     live := insert pid (live w), next_pid := Suc pid,
                     launched := launched w @ [(pid, args ''run'' w)],
                     waiting := waiting w @ [(gen, pid)],
                     timers := timers w @ [(gen, clock w + startSettleWindow)]\<rparr>, None))))"

definition Start :: "start_env \<Rightarrow> world \<Rightarrow> world \<times> start_error option" where
  "Start env w = startLocked env w"

definition Stop :: "world \<Rightarrow> world" where
  "Stop w =
     (let w = w\<lparr>mgr := (mgr w)\<lparr>generation := Suc (generation (mgr w)), running := False\<rparr>\<rparr>
      in case cmd (mgr w) of
           NoCmd \<Rightarrow> w
         | Unstarted \<Rightarrow> w
         | Proc pid \<Rightarrow> w\<lparr>mgr := (mgr w)\<lparr>cmd := NoCmd\<rparr>, live := live w - {pid}\<rparr>)"

definition IsRunning :: "world \<Rightarrow> bool" where
  "IsRunning w = running (mgr w)"

definition GaveUp :: "world \<Rightarrow> bool" where
  "GaveUp w = stopped (mgr w)"

datatype reload_error = NotRunning | ReloadStart start_error

text \<open>\<^verbatim>\<open>Reload\<close>, when nothing else runs between its three critical sections; \<^verbatim>\<open>Stop\<close> never fails.\<close>

definition Reload :: "start_env \<Rightarrow> world \<Rightarrow> world \<times> reload_error option" where
  "Reload env w =
     (if \<not> IsRunning w then (w, Some NotRunning)
      else
        (let w = Stop w
         in case Start env w of
              (w, Some e) \<Rightarrow> (w, Some (ReloadStart e))
            | (w, None) \<Rightarrow> (w, None)))"

text \<open>The goroutine started by \<^verbatim>\<open>startLocked\<close>, when its sleep of \<^verbatim>\<open>startSettleWindow\<close> is over.\<close>

definition settle :: "nat \<Rightarrow> world \<Rightarrow> world" where
  "settle gen w =
     (if gen = generation (mgr w) \<and> running (mgr w)
      then w\<lparr>mgr := (mgr w)\<lparr>consecutiveFailures := 0, stopped := False\<rparr>\<rparr> else w)"

definition restart_backoff :: "nat \<Rightarrow> time" where
  "restart_backoff failures =
     (let backoff = i64 (push_bit (failures - 1) initialRestartBackoff)
      in if maxRestartBackoff < backoff then maxRestartBackoff else backoff)"

text \<open>
  The first critical section of \<^verbatim>\<open>monitor\<close>, entered when \<^verbatim>\<open>cmd.Wait()\<close> returns: the new world,
  and the time to sleep before the second critical section, or \<open>None\<close> when the goroutine ends.
\<close>

definition monitor_wake :: "bool \<Rightarrow> nat \<Rightarrow> world \<Rightarrow> world \<times> time option" where
  "monitor_wake rename_ok gen w =
     (if gen \<noteq> generation (mgr w) then (w, None)
      else
        (let w = w\<lparr>mgr := (mgr w)\<lparr>running := False, consecutiveFailures := Suc (consecutiveFailures (mgr w))\<rparr>\<rparr>;
             failures = consecutiveFailures (mgr w);
             (w1, disabled) = (if residentialMaxFailures \<le> failures then disableResidential rename_ok w
                               else (w, False));
             (w, failures) = (if disabled then (w1\<lparr>mgr := (mgr w1)\<lparr>consecutiveFailures := 0\<rparr>\<rparr>, 1)
                              else (w1, failures))
         in if maxConsecutiveFailures \<le> failures then (w\<lparr>mgr := (mgr w)\<lparr>stopped := True\<rparr>\<rparr>, None)
            else (w, Some (restart_backoff failures))))"

text \<open>The second critical section.\<close>

definition monitor_resume :: "start_env \<Rightarrow> nat \<Rightarrow> world \<Rightarrow> world" where
  "monitor_resume env gen w =
     (if gen \<noteq> generation (mgr w) then w else fst (startLocked env w))"

section \<open>Interleavings\<close>

datatype label =
    LStart | LStop | LCrash nat | LWake nat | LResume nat | LSettle nat | LTick | LFiles

inductive mstep :: "world \<Rightarrow> label \<Rightarrow> world \<Rightarrow> bool" where
  start: "mstep w LStart (fst (Start env w))"
| stop: "mstep w LStop (Stop w)"
| crash: "pid \<in> live w \<Longrightarrow> mstep w (LCrash pid) (w\<lparr>live := live w - {pid}\<rparr>)"
| wake: "(gen, pid) \<in> set (waiting w) \<Longrightarrow> pid \<notin> live w \<Longrightarrow>
    monitor_wake ok gen (w\<lparr>waiting := remove1 (gen, pid) (waiting w)\<rparr>) = (w1, d) \<Longrightarrow>
    mstep w (LWake gen) (case d of None \<Rightarrow> w1
      | Some t \<Rightarrow> w1\<lparr>sleeping := sleeping w1 @ [(gen, clock w1 + t)]\<rparr>)"
| resume: "(gen, due) \<in> set (sleeping w) \<Longrightarrow> due \<le> clock w \<Longrightarrow>
    mstep w (LResume gen) (monitor_resume env gen (w\<lparr>sleeping := remove1 (gen, due) (sleeping w)\<rparr>))"
| settle: "(gen, due) \<in> set (timers w) \<Longrightarrow> due \<le> clock w \<Longrightarrow>
    mstep w (LSettle gen) (settle gen (w\<lparr>timers := remove1 (gen, due) (timers w)\<rparr>))"
| tick: "0 \<le> d \<Longrightarrow> mstep w LTick (w\<lparr>clock := clock w + d\<rparr>)"
| app_files: "mstep w LFiles (w\<lparr>files := fs\<rparr>)"

text \<open>The agent starts with the processes that earlier runs left behind.\<close>

definition initial :: "string \<Rightarrow> string \<Rightarrow> nat set \<Rightarrow> string set \<Rightarrow> time \<Rightarrow> world" where
  "initial bin config strays fs t =
     \<lparr>mgr = NewManager bin config, live = strays, next_pid = (if strays = {} then 0 else Suc (Max strays)),
      files = fs, launched = [], waiting = [], sleeping = [], timers = [], clock = t\<rparr>"

inductive mreach :: "nat set \<Rightarrow> world \<Rightarrow> bool" for strays where
  init: "finite strays \<Longrightarrow> mreach strays (initial bin config strays fs t)"
| step: "mreach strays w \<Longrightarrow> mstep w l w' \<Longrightarrow> mreach strays w'"

section \<open>The invariant of reachable worlds\<close>

definition current :: "world \<Rightarrow> nat set" where
  "current w = (if running (mgr w) then (case cmd (mgr w) of Proc p \<Rightarrow> {p} | _ \<Rightarrow> {}) else {})"

definition pids_ok :: "nat set \<Rightarrow> world \<Rightarrow> bool" where
  "pids_ok strays w \<longleftrightarrow> finite (live w) \<and> (\<forall>p \<in> live w \<union> strays. p < next_pid w) \<and>
     live w \<subseteq> strays \<union> current w \<and> current w \<inter> strays = {}"

definition waiting_ok :: "world \<Rightarrow> bool" where
  "waiting_ok w \<longleftrightarrow> distinct (map fst (waiting w)) \<and>
     (\<forall>g \<in> fst ` set (waiting w). g \<le> generation (mgr w)) \<and>
     (\<forall>p. (generation (mgr w), p) \<in> set (waiting w) \<longleftrightarrow> p \<in> current w) \<and>
     (running (mgr w) \<longrightarrow> current w \<noteq> {})"

definition sleeping_ok :: "world \<Rightarrow> bool" where
  "sleeping_ok w \<longleftrightarrow> (\<forall>g \<in> fst ` set (sleeping w). g \<le> generation (mgr w)) \<and>
     distinct (map fst (sleeping w)) \<and>
     (running (mgr w) \<longrightarrow> generation (mgr w) \<notin> fst ` set (sleeping w))"

definition timers_ok :: "world \<Rightarrow> bool" where
  "timers_ok w \<longleftrightarrow> (\<forall>g \<in> fst ` set (timers w). g \<le> generation (mgr w))"

definition minv :: "nat set \<Rightarrow> world \<Rightarrow> bool" where
  "minv strays w \<longleftrightarrow> pids_ok strays w \<and> waiting_ok w \<and> sleeping_ok w \<and> timers_ok w"

lemmas minv_defs = minv_def pids_ok_def waiting_ok_def sleeping_ok_def timers_ok_def

lemma current_running [simp]: "\<not> running (mgr w) \<Longrightarrow> current w = {}"
  by (simp add: current_def)

lemma minv_initial:
  assumes "finite strays"
  shows "minv strays (initial bin config strays fs t)"
  using assms by (auto simp: minv_defs initial_def NewManager_def current_def less_Suc_eq_le)

lemma minv_Stop:
  assumes "minv strays w"
  shows "minv strays (Stop w)"
proof -
  have "live (Stop w) \<subseteq> live w - current w" "next_pid (Stop w) = next_pid w" "\<not> running (mgr (Stop w))"
    "generation (mgr (Stop w)) = Suc (generation (mgr w))" "waiting (Stop w) = waiting w"
    "sleeping (Stop w) = sleeping w" "timers (Stop w) = timers w"
    by (auto simp: Stop_def Let_def current_def split: cmdref.splits if_splits)
  note w' = this
  have new: "(Suc (generation (mgr w)), p) \<notin> set (waiting w)" for p
    using assms by (force simp: minv_defs)
  have "pids_ok strays (Stop w)"
    using assms w' by (auto simp: minv_defs intro: finite_subset)
  moreover have "waiting_ok (Stop w)"
    using assms w' new by (auto simp: minv_defs intro: le_SucI)
  moreover have "sleeping_ok (Stop w)" "timers_ok (Stop w)"
    using assms w' by (auto simp: minv_defs intro: le_SucI)
  ultimately show ?thesis
    by (simp add: minv_def)
qed

text \<open>A start either fails and leaves everything but \<^verbatim>\<open>m.cmd\<close> and possibly the strays alone, or starts one process.\<close>

definition started_world :: "start_env \<Rightarrow> world \<Rightarrow> world" where
  "started_world env w =
     (let w1 = fst (reapStrays env w); pid = next_pid w; gen = Suc (generation (mgr w))
      in w1\<lparr>mgr := (mgr w)\<lparr>cmd := Proc pid, running := True, generation := gen\<rparr>,
            live := insert pid (live w1), next_pid := Suc pid, launched := launched w @ [(pid, args ''run'' w)],
            waiting := waiting w @ [(gen, pid)], timers := timers w @ [(gen, clock w + startSettleWindow)]\<rparr>)"

lemma reapStrays_simps [simp]:
  "mgr (fst (reapStrays env w)) = mgr w" "next_pid (fst (reapStrays env w)) = next_pid w"
  "files (fst (reapStrays env w)) = files w" "launched (fst (reapStrays env w)) = launched w"
  "waiting (fst (reapStrays env w)) = waiting w" "sleeping (fst (reapStrays env w)) = sleeping w"
  "timers (fst (reapStrays env w)) = timers w" "clock (fst (reapStrays env w)) = clock w"
  "live (fst (reapStrays env w)) = (if pgrep_ok env then {} else live w)"
  by (simp_all add: reapStrays_def)

lemma startLocked_cases:
  obtains (failed) e where "startLocked env w = (w, Some e)"
  | (unspawned) "startLocked env w = ((fst (reapStrays env w))\<lparr>mgr := (mgr w)\<lparr>cmd := Unstarted\<rparr>\<rparr>, Some StartFailed)"
      "\<not> running (mgr w)"
  | (started) "startLocked env w = (started_world env w, None)" "\<not> running (mgr w)"
proof (cases "running (mgr w) \<or> configPath (mgr w) \<notin> files w \<or> binPath (mgr w) \<notin> files w")
  case True
  then show ?thesis
    by (intro failed [of "the (snd (startLocked env w))"]) (auto simp: startLocked_def)
next
  case False
  then show ?thesis
    using unspawned started
    by (cases "spawn_ok env") (simp_all add: startLocked_def started_world_def Let_def args_def)
qed

lemma minv_started:
  assumes "minv strays w" "\<not> running (mgr w)"
  shows "minv strays (started_world env w)"
proof -
  let ?w = "started_world env w" and ?g = "Suc (generation (mgr w))"
  have w': "live ?w \<subseteq> insert (next_pid w) (live w)" "next_pid ?w = Suc (next_pid w)" "running (mgr ?w)"
    "generation (mgr ?w) = ?g" "waiting ?w = waiting w @ [(?g, next_pid w)]"
    "sleeping ?w = sleeping w" "timers ?w = timers w @ [(?g, clock w + startSettleWindow)]"
    "current ?w = {next_pid w}" "finite (live w) \<longrightarrow> finite (live ?w)"
    by (auto simp: started_world_def Let_def current_def)
  have new: "(?g, p) \<notin> set (waiting w)" "(?g, t) \<notin> set (sleeping w)" for p t
    using assms by (force simp: minv_defs)+
  have "pids_ok strays ?w"
    using assms w' by (auto simp: minv_defs less_Suc_eq)
  moreover have "waiting_ok ?w"
    using assms w' new by (auto simp: minv_defs intro: le_SucI)
  moreover have "sleeping_ok ?w" "timers_ok ?w"
    using assms w' new by (auto simp: minv_defs intro: le_SucI)
  ultimately show ?thesis
    by (simp add: minv_def)
qed

lemma minv_startLocked:
  assumes "minv strays w"
  shows "minv strays (fst (startLocked env w))"
proof (cases rule: startLocked_cases [of env w])
  case unspawned
  with assms show ?thesis
    by (auto simp: minv_defs)
qed (use assms minv_started in simp_all)

lemma disableResidential_simps [simp]:
  "mgr (fst (disableResidential ok w)) = mgr w" "live (fst (disableResidential ok w)) = live w"
  "next_pid (fst (disableResidential ok w)) = next_pid w" "launched (fst (disableResidential ok w)) = launched w"
  "waiting (fst (disableResidential ok w)) = waiting w" "sleeping (fst (disableResidential ok w)) = sleeping w"
  "timers (fst (disableResidential ok w)) = timers w" "clock (fst (disableResidential ok w)) = clock w"
  by (simp_all add: disableResidential_def Let_def)

text \<open>What the first critical section of a monitor changes.\<close>

lemma monitor_wake_simps [simp]:
  "live (fst (monitor_wake ok gen w)) = live w" "next_pid (fst (monitor_wake ok gen w)) = next_pid w"
  "launched (fst (monitor_wake ok gen w)) = launched w" "waiting (fst (monitor_wake ok gen w)) = waiting w"
  "sleeping (fst (monitor_wake ok gen w)) = sleeping w" "timers (fst (monitor_wake ok gen w)) = timers w"
  "clock (fst (monitor_wake ok gen w)) = clock w"
  "generation (mgr (fst (monitor_wake ok gen w))) = generation (mgr w)"
  "cmd (mgr (fst (monitor_wake ok gen w))) = cmd (mgr w)"
  "running (mgr (fst (monitor_wake ok gen w))) = (running (mgr w) \<and> gen \<noteq> generation (mgr w))"
  by (simp_all add: monitor_wake_def Let_def split_beta)

lemma monitor_wake_stale: "gen \<noteq> generation (mgr w) \<Longrightarrow> monitor_wake ok gen w = (w, None)"
  by (simp add: monitor_wake_def)

lemma settle_simps [simp]:
  "live (settle gen w) = live w" "next_pid (settle gen w) = next_pid w" "launched (settle gen w) = launched w"
  "waiting (settle gen w) = waiting w" "sleeping (settle gen w) = sleeping w" "timers (settle gen w) = timers w"
  "clock (settle gen w) = clock w" "generation (mgr (settle gen w)) = generation (mgr w)"
  "cmd (mgr (settle gen w)) = cmd (mgr w)" "running (mgr (settle gen w)) = running (mgr w)"
  "files (settle gen w) = files w"
  by (simp_all add: settle_def)

lemma current_cong: "running (mgr v) = running (mgr w) \<Longrightarrow> cmd (mgr v) = cmd (mgr w) \<Longrightarrow> current v = current w"
  by (simp add: current_def)

lemma minv_cong:
  assumes "minv strays w" "live v \<subseteq> live w" "next_pid v = next_pid w" "running (mgr v) = running (mgr w)"
    "cmd (mgr v) = cmd (mgr w)" "generation (mgr v) = generation (mgr w)" "waiting v = waiting w"
    "sleeping v = sleeping w" "set (timers v) \<subseteq> set (timers w)"
  shows "minv strays v"
proof -
  note cur = current_cong [OF assms(4,5)]
  have "pids_ok strays v"
    using assms(1,2,3) cur finite_subset [OF assms(2)] unfolding minv_def pids_ok_def
    by (metis Un_iff subset_iff)
  moreover have "waiting_ok v" "sleeping_ok v"
    using assms(1) by (simp_all add: minv_def waiting_ok_def sleeping_ok_def cur assms(4,6,7,8))
  moreover have "timers_ok v"
    using assms(1,6,9) unfolding minv_def timers_ok_def by auto
  ultimately show ?thesis by (simp add: minv_def)
qed

lemma distinct_fst_remove1:
  assumes "distinct (map fst xs)"
  shows "distinct (map fst (remove1 x xs))" "set (remove1 x xs) = set xs - {x}"
    "(g, p) \<in> set xs \<Longrightarrow> (g, q) \<in> set xs \<Longrightarrow> p = q"
proof -
  have xs: "distinct xs" "inj_on fst (set xs)"
    using assms by (simp_all add: distinct_map)
  then show "set (remove1 x xs) = set xs - {x}"
    by simp
  with xs show "distinct (map fst (remove1 x xs))"
    by (simp add: distinct_map inj_on_diff)
  show "(g, p) \<in> set xs \<Longrightarrow> (g, q) \<in> set xs \<Longrightarrow> p = q"
    using inj_onD [OF xs(2), of "(g, p)" "(g, q)"] by simp
qed

lemma minv_wake:
  assumes "minv strays w" "(gen, pid) \<in> set (waiting w)" "pid \<notin> live w"
    and "monitor_wake ok gen (w\<lparr>waiting := remove1 (gen, pid) (waiting w)\<rparr>) = (w1, d)"
  shows "minv strays (case d of None \<Rightarrow> w1 | Some t \<Rightarrow> w1\<lparr>sleeping := sleeping w1 @ [(gen, clock w1 + t)]\<rparr>)"
proof -
  define w0 where "w0 = w\<lparr>waiting := remove1 (gen, pid) (waiting w)\<rparr>"
  have w1: "w1 = fst (monitor_wake ok gen w0)" "d = snd (monitor_wake ok gen w0)"
    using assms(4) by (simp_all add: w0_def)
  have dist: "distinct (map fst (waiting w))"
    using assms(1) by (simp add: minv_defs)
  note rm = distinct_fst_remove1(1,2) [OF dist, of "(gen, pid)"]
  have uniq: "(gen, p) \<in> set (waiting w) \<longleftrightarrow> p = pid" for p
    using distinct_fst_remove1(3) [OF dist] assms(2) by blast
  show ?thesis
  proof (cases "gen = generation (mgr w)")
    case False
    then have eq: "w1 = w0" "d = None"
      by (simp_all add: w1 w0_def monitor_wake_stale)
    have cur: "current w0 = current w"
      by (rule current_cong) (simp_all add: w0_def)
    have "pids_ok strays w0" "sleeping_ok w0" "timers_ok w0"
      using assms(1) by (simp_all add: minv_def pids_ok_def sleeping_ok_def timers_ok_def cur) (simp_all add: w0_def)
    moreover have "waiting_ok w0"
      using assms(1) False unfolding minv_def waiting_ok_def cur by (auto simp: w0_def rm)
    ultimately show ?thesis
      by (simp add: eq minv_def)
  next
    case True
    define w' where "w' = (case d of None \<Rightarrow> w1 | Some t \<Rightarrow> w1\<lparr>sleeping := sleeping w1 @ [(gen, clock w1 + t)]\<rparr>)"
    have cur: "current w = {pid}"
      using assms(1,2) True by (auto simp: minv_defs current_def split: cmdref.splits if_splits)
    have run: "running (mgr w)"
      using cur by (auto simp: current_def split: if_splits)
    have facts: "\<not> running (mgr w')" "generation (mgr w') = gen" "live w' = live w" "next_pid w' = next_pid w"
      "waiting w' = remove1 (gen, pid) (waiting w)" "timers w' = timers w"
      "sleeping w' = sleeping w \<or> (\<exists>t. sleeping w' = sleeping w @ [(gen, t)])"
      using True by (auto simp: w'_def w1 w0_def split: option.splits)
    have "pids_ok strays w'"
      using assms(1,3) facts(1,3,4) cur by (auto simp: minv_def pids_ok_def)
    moreover have "waiting_ok w'"
      using assms(1) facts(1,2,5) True [symmetric] uniq by (auto simp: minv_def waiting_ok_def rm)
    moreover have "sleeping_ok w'" "timers_ok w'"
      using assms(1) facts(1,2,6,7) run True by (auto simp: minv_def sleeping_ok_def timers_ok_def)
    ultimately show ?thesis
      by (simp add: minv_def w'_def)
  qed
qed

lemma minv_remove_sleeper:
  assumes "minv strays w"
  shows "minv strays (w\<lparr>sleeping := remove1 x (sleeping w)\<rparr>)"
proof -
  have "distinct (map fst (sleeping w))"
    using assms by (simp add: minv_defs)
  note rm = distinct_fst_remove1(1,2) [OF this, of x]
  have "current (w\<lparr>sleeping := remove1 x (sleeping w)\<rparr>) = current w"
    by (rule current_cong) simp_all
  then show ?thesis
    using assms by (auto simp: minv_defs rm)
qed

lemma minv_step: "mstep w l w' \<Longrightarrow> minv strays w \<Longrightarrow> minv strays w'"
proof (induction rule: mstep.induct)
  case (start w env)
  then show ?case by (simp add: Start_def minv_startLocked)
next
  case (stop w)
  then show ?case by (rule minv_Stop)
next
  case (crash pid w)
  show ?case by (rule minv_cong [OF crash.prems]) auto
next
  case (wake gen pid w ok w1 d)
  then show ?case by (intro minv_wake)
next
  case (resume gen due w env)
  then show ?case
    by (simp add: monitor_resume_def minv_startLocked minv_remove_sleeper)
next
  case (settle gen due w)
  show ?case by (rule minv_cong [OF settle.prems]) (simp_all add: set_remove1_subset)
next
  case (tick d w)
  show ?case by (rule minv_cong [OF tick.prems]) simp_all
next
  case (app_files w fs)
  show ?case by (rule minv_cong [OF app_files.prems]) simp_all
qed

lemma minv_reach: "mreach strays w \<Longrightarrow> minv strays w"
  by (induction rule: mreach.induct) (auto intro: minv_initial minv_step)

text \<open>
  C3. However starts, stops, crashes, restarts and file changes interleave, of the processes
  the manager has started at most one is alive, it is the one the manager calls running, and
  its monitor is the only one whose generation is current. After a start with a working
  \<^verbatim>\<open>pgrep\<close> the processes left behind by earlier agents are gone too.
\<close>

theorem one_process_at_a_time:
  assumes "mreach strays w"
  shows "live w - strays \<subseteq> current w \<and> finite (current w) \<and> card (current w) \<le> 1 \<and>
    {p. (generation (mgr w), p) \<in> set (waiting w)} = current w \<and>
    (pgrep_ok env \<and> snd (Start env w) = None \<longrightarrow> live (fst (Start env w)) = current (fst (Start env w)))"
proof -
  have inv: "minv strays w"
    using assms by (rule minv_reach)
  have "finite (current w) \<and> card (current w) \<le> 1"
    by (auto simp: current_def split: cmdref.split)
  moreover have "live (fst (Start env w)) = current (fst (Start env w))"
    if "pgrep_ok env" "snd (Start env w) = None"
  proof (cases rule: startLocked_cases [of env w])
    case started
    with that show ?thesis
      by (simp add: Start_def started_world_def Let_def current_def)
  qed (use that in \<open>simp_all add: Start_def\<close>)
  ultimately show ?thesis
    using inv by (auto simp: minv_defs)
qed

section \<open>A stop is final\<close>

text \<open>Nothing in flight can start a process: everything pending belongs to an older generation.\<close>

definition quiet :: "world \<Rightarrow> bool" where
  "quiet w \<longleftrightarrow> \<not> running (mgr w) \<and> (\<forall>g \<in> fst ` set (waiting w) \<union> fst ` set (sleeping w). g < generation (mgr w))"

lemma quiet_Stop: "minv strays w \<Longrightarrow> quiet (Stop w)"
  by (auto simp: quiet_def Stop_def Let_def minv_defs less_Suc_eq_le split: cmdref.splits)

lemma quiet_step:
  assumes "mstep w l w'" "quiet w" "l \<noteq> LStart"
  shows "quiet w' \<and> launched w' = launched w \<and> live w' \<subseteq> live w"
  using assms
proof (induction rule: mstep.induct)
  case (stop w)
  then show ?case
    by (auto simp: quiet_def Stop_def Let_def less_SucI split: cmdref.splits)
next
  case (wake gen pid w ok w1 d)
  then have "gen \<noteq> generation (mgr w)"
    by (force simp: quiet_def)
  with wake have "w1 = w\<lparr>waiting := remove1 (gen, pid) (waiting w)\<rparr>" "d = None"
    by (simp_all add: monitor_wake_stale)
  with wake.prems show ?case
    using set_remove1_subset [of "(gen, pid)" "waiting w"] by (auto simp: quiet_def)
next
  case (resume gen due w env)
  then have "gen \<noteq> generation (mgr w)"
    by (force simp: quiet_def)
  with resume.prems show ?case
    using set_remove1_subset [of "(gen, due)" "sleeping w"] by (auto simp: quiet_def monitor_resume_def)
qed (auto simp: quiet_def)

inductive msteps :: "world \<Rightarrow> label list \<Rightarrow> world \<Rightarrow> bool" where
  none: "msteps w [] w"
| more: "mstep w l w' \<Longrightarrow> msteps w' ls w'' \<Longrightarrow> msteps w (l # ls) w''"

lemma quiet_steps:
  "msteps w ls w' \<Longrightarrow> quiet w \<Longrightarrow> LStart \<notin> set ls \<Longrightarrow> \<not> running (mgr w') \<and> launched w' = launched w \<and> live w' \<subseteq> live w"
proof (induction rule: msteps.induct)
  case (more w l w' ls w'')
  then show ?case using quiet_step [OF more.hyps(1)] by auto
qed (simp add: quiet_def)

text \<open>
  C4. A stop is final: whatever monitors, sleeping restarts and settle timers are in flight,
  until somebody calls \<^verbatim>\<open>Start\<close> no process is launched, the manager does not report running,
  and no process of the manager is alive.
\<close>

theorem Stop_is_final:
  assumes "mreach strays w" "msteps (Stop w) ls w'" "LStart \<notin> set ls"
  shows "\<not> running (mgr w') \<and> launched w' = launched w \<and> live w' \<subseteq> strays"
proof -
  have inv: "minv strays (Stop w)"
    using assms(1) minv_reach minv_Stop by blast
  have "quiet (Stop w)"
    using assms(1) minv_reach quiet_Stop by blast
  from quiet_steps [OF assms(2) this assms(3)]
  have "\<not> running (mgr w')" "launched w' = launched (Stop w)" "live w' \<subseteq> live (Stop w)"
    by auto
  moreover have "launched (Stop w) = launched w" "\<not> running (mgr (Stop w))"
    by (simp_all add: Stop_def Let_def split: cmdref.split)
  moreover from this inv have "live (Stop w) \<subseteq> strays"
    by (auto simp: minv_defs)
  ultimately show ?thesis by auto
qed

definition good_env :: start_env where
  "good_env = \<lparr>pgrep_ok = True, spawn_ok = True\<rparr>"

definition demo :: world where
  "demo = initial ''/sb'' ''/c'' {7} {''/sb'', ''/c''} 0"

lemmas demo_defs = demo_def initial_def NewManager_def good_env_def Start_def startLocked_def reapStrays_def
  args_def residentialPath_def filepath_Dir_def filepath_Join_def ResidentialFile_def startSettleWindow_def Let_def

lemma one_process_at_a_time_witness: "live (fst (Start good_env demo)) = {8}"
proof -
  have "mreach {7} demo"
    unfolding demo_def by (rule mreach.init) simp
  moreover have "pgrep_ok good_env \<and> snd (Start good_env demo) = None"
    by (simp add: demo_defs)
  ultimately have "live (fst (Start good_env demo)) = current (fst (Start good_env demo))"
    using one_process_at_a_time by blast
  then show ?thesis
    by (simp add: current_def demo_defs)
qed

lemma Stop_is_final_witness:
  "\<exists>w. mreach {7} w \<and> running (mgr w) \<and>
     (\<exists>w'. msteps (Stop w) [LWake 1] w' \<and> live w' = {} \<and> launched w' = launched w)"
proof -
  define w where "w = fst (Start good_env demo)"
  have w: "mreach {7} w"
    unfolding w_def demo_def by (rule mreach.step [OF mreach.init start]) simp
  have run: "running (mgr w)" "waiting w = [(1, 8)]" "live (Stop w) = {}" "generation (mgr (Stop w)) = 2"
    "waiting (Stop w) = [(1, 8)]"
    by (simp_all add: w_def Stop_def demo_defs)
  define v where "v = (Stop w)\<lparr>waiting := []\<rparr>"
  have "monitor_wake True 1 (Stop w\<lparr>waiting := remove1 (1, 8) (waiting (Stop w))\<rparr>) = (v, None)"
    by (subst monitor_wake_stale) (simp_all add: run(4,5) v_def)
  from wake [OF _ _ this] have "mstep (Stop w) (LWake 1) v"
    by (simp add: run(3,5))
  then have w': "msteps (Stop w) [LWake 1] v"
    by (rule msteps.more) (rule msteps.none)
  have "\<not> running (mgr v) \<and> launched v = launched w \<and> live v \<subseteq> {7}"
    by (rule Stop_is_final [OF w w']) simp
  moreover have "live v = {}"
    by (simp add: v_def run(3))
  ultimately show ?thesis
    using w w' run(1) by blast
qed

section \<open>Back-off and giving up\<close>

lemma restart_backoff_values:
  "restart_backoff 1 = 1000000000" "restart_backoff 2 = 2000000000" "restart_backoff 3 = 4000000000"
  "restart_backoff 4 = 8000000000" "restart_backoff 5 = 16000000000" "restart_backoff 6 = 30000000000"
  "restart_backoff 7 = 30000000000" "restart_backoff 8 = 30000000000" "restart_backoff 9 = 30000000000"
  by (simp_all add: restart_backoff_def initialRestartBackoff_def maxRestartBackoff_def push_bit_eq_mult
      i64_id is_i64_def Let_def)

lemma restart_backoff_range:
  assumes "1 \<le> f" "f < maxConsecutiveFailures"
  shows "initialRestartBackoff \<le> restart_backoff f \<and> restart_backoff f \<le> maxRestartBackoff"
proof -
  have "f \<in> {1, 2, 3, 4, 5, 6, 7, 8, 9}"
    using assms by (auto simp: maxConsecutiveFailures_def)
  then show ?thesis
    by (elim insertE emptyE)
      (simp_all only: restart_backoff_values initialRestartBackoff_def maxRestartBackoff_def, simp_all)
qed

text \<open>
  What the monitor does when the current process exits: it counts the failure; at the
  second failure in a row with a residential configuration present it moves that file away and
  starts counting anew; at the tenth it gives up for good; otherwise it sleeps between one and
  thirty seconds before it restarts.
\<close>

theorem monitor_wake_spec:
  assumes "monitor_wake ok (generation (mgr w)) w = (w', d)" "consecutiveFailures (mgr w) < maxConsecutiveFailures"
  shows "let f = Suc (consecutiveFailures (mgr w)); p = residentialPath (mgr w);
             disable = (2 \<le> f \<and> p \<in> files w \<and> ok)
         in \<not> running (mgr w') \<and>
            files w' = (if disable then insert (p @ ''.failed'') (files w - {p}) else files w) \<and>
            consecutiveFailures (mgr w') = (if disable then 0 else f) \<and>
            stopped (mgr w') = (stopped (mgr w) \<or> (f = 10 \<and> \<not> disable)) \<and>
            (case d of None \<Rightarrow> f = 10 \<and> \<not> disable
             | Some t \<Rightarrow> t = restart_backoff (if disable then 1 else f) \<and> (f < 10 \<or> disable) \<and>
                 1000000000 \<le> t \<and> t \<le> 30000000000)"
proof -
  have [simp]: "residentialPath (m\<lparr>running := a, consecutiveFailures := b\<rparr>) = residentialPath m" for m a b
    by (simp add: residentialPath_def)
  have range: "1 \<le> f \<Longrightarrow> f < 10 \<Longrightarrow> 1000000000 \<le> restart_backoff f \<and> restart_backoff f \<le> 30000000000" for f
    using restart_backoff_range [of f]
    by (simp add: maxConsecutiveFailures_def initialRestartBackoff_def maxRestartBackoff_def)
  show ?thesis
    using assms range [of 1] range [of "Suc (consecutiveFailures (mgr w))"]
    by (auto simp: monitor_wake_def disableResidential_def residentialMaxFailures_def maxConsecutiveFailures_def
        Let_def split: if_splits)
qed

definition demo_failed :: world where
  "demo_failed = (fst (Start good_env demo))\<lparr>files := {''/sb'', ''/c'', ''/residential.json''},
    mgr := (mgr (fst (Start good_env demo)))\<lparr>consecutiveFailures := 1\<rparr>\<rparr>"

lemma monitor_wake_spec_witness:
  "files (fst (monitor_wake True 1 demo_failed)) = {''/sb'', ''/c'', ''/residential.json.failed''} \<and>
   snd (monitor_wake True 1 demo_failed) = Some 1000000000"
proof -
  define w where "w = demo_failed"
  have w: "generation (mgr w) = 1" "consecutiveFailures (mgr w) = 1"
    "residentialPath (mgr w) = ''/residential.json''" "files w = {''/sb'', ''/c'', ''/residential.json''}"
    by (simp_all add: w_def demo_failed_def demo_defs)
  have "monitor_wake True (generation (mgr w)) w = (fst (monitor_wake True 1 w), snd (monitor_wake True 1 w))"
    by (simp add: w(1))
  from monitor_wake_spec [OF this] have "files (fst (monitor_wake True 1 w)) =
        insert ''/residential.json.failed'' (files w - {''/residential.json''}) \<and>
      (case snd (monitor_wake True 1 w) of None \<Rightarrow> False | Some t \<Rightarrow> t = restart_backoff 1)"
    by (auto simp: Let_def w(2,3,4) maxConsecutiveFailures_def split: option.splits)
  moreover have "insert ''/residential.json.failed'' (files w - {''/residential.json''}) =
      {''/sb'', ''/c'', ''/residential.json.failed''}"
    by (auto simp: w(4))
  ultimately show ?thesis
    by (simp add: w_def restart_backoff_values(1) [simplified] split: option.splits)
qed

text \<open>
  A crash loop: processes exit, monitors wake and restart, and no process lives long enough for
  its settle timer to count; nobody calls \<^verbatim>\<open>Start\<close> or \<^verbatim>\<open>Stop\<close> or writes files.
\<close>

fun in_crash_loop :: "world \<Rightarrow> label \<Rightarrow> bool" where
  "in_crash_loop w (LCrash pid) = True"
| "in_crash_loop w (LWake gen) = True"
| "in_crash_loop w (LResume gen) = True"
| "in_crash_loop w (LSettle gen) = (gen \<noteq> generation (mgr w) \<or> \<not> running (mgr w))"
| "in_crash_loop w LTick = True"
| "in_crash_loop w _ = False"

inductive crash_loop :: "world \<Rightarrow> label list \<Rightarrow> world \<Rightarrow> bool" where
  loop_nil: "crash_loop w [] w"
| loop_step: "mstep w l w' \<Longrightarrow> in_crash_loop w l \<Longrightarrow> crash_loop w' ls w'' \<Longrightarrow> crash_loop w (l # ls) w''"

definition potential :: "world \<Rightarrow> nat" where
  "potential w = (if residentialPath (mgr w) \<in> files w then 70 else 0) +
     6 * (10 - consecutiveFailures (mgr w)) + length (timers w) + length (waiting w) + card (live w) +
     5 * length (sleeping w)"

lemma residentialPath_cong: "configPath m = configPath n \<Longrightarrow> residentialPath m = residentialPath n"
  by (simp add: residentialPath_def)

lemma length_remove1_less: "x \<in> set xs \<Longrightarrow> length xs = Suc (length (remove1 x xs))"
  by (metis One_nat_def Suc_pred length_pos_if_in_set length_remove1)

lemma monitor_wake_effect:
  fixes w :: world and ok :: bool
  defines "w' \<equiv> fst (monitor_wake ok (generation (mgr w)) w)"
    and "d \<equiv> snd (monitor_wake ok (generation (mgr w)) w)"
    and "disable \<equiv> 1 \<le> consecutiveFailures (mgr w) \<and> residentialPath (mgr w) \<in> files w \<and> ok"
  shows "residentialPath (mgr w') = residentialPath (mgr w)"
    and "files w' = (if disable then insert (residentialPath (mgr w) @ ''.failed'') (files w - {residentialPath (mgr w)})
          else files w)"
    and "consecutiveFailures (mgr w') = (if disable then 0 else Suc (consecutiveFailures (mgr w)))"
    and "d = None \<longleftrightarrow> 9 \<le> consecutiveFailures (mgr w) \<and> \<not> disable"
proof -
  have [simp]: "residentialPath (m\<lparr>running := a, consecutiveFailures := b\<rparr>) = residentialPath m" for m a b
    by (simp add: residentialPath_def)
  have [simp]: "residentialPath (m\<lparr>running := a, consecutiveFailures := b, stopped := c\<rparr>) = residentialPath m" for m a b c
    by (simp add: residentialPath_def)
  note defs = monitor_wake_def disableResidential_def residentialMaxFailures_def maxConsecutiveFailures_def Let_def
  show "residentialPath (mgr w') = residentialPath (mgr w)"
    unfolding w'_def by (simp add: defs)
  show "files w' = (if disable then insert (residentialPath (mgr w) @ ''.failed'') (files w - {residentialPath (mgr w)})
      else files w)"
    unfolding w'_def disable_def by (simp add: defs)
  show "consecutiveFailures (mgr w') = (if disable then 0 else Suc (consecutiveFailures (mgr w)))"
    unfolding w'_def disable_def by (simp add: defs)
  show "d = None \<longleftrightarrow> 9 \<le> consecutiveFailures (mgr w) \<and> \<not> disable"
    unfolding d_def disable_def by (simp add: defs)
qed

lemma potential_wake:
  assumes "(gen, pid) \<in> set (waiting w)"
    and "monitor_wake ok gen (w\<lparr>waiting := remove1 (gen, pid) (waiting w)\<rparr>) = (w1, d)"
  shows "potential (case d of None \<Rightarrow> w1 | Some t \<Rightarrow> w1\<lparr>sleeping := sleeping w1 @ [(gen, clock w1 + t)]\<rparr>) < potential w"
proof -
  define w0 where "w0 = w\<lparr>waiting := remove1 (gen, pid) (waiting w)\<rparr>"
  have w1: "w1 = fst (monitor_wake ok gen w0)" "d = snd (monitor_wake ok gen w0)"
    using assms(2) by (simp_all add: w0_def)
  have p0: "potential w = Suc (potential w0)"
    using length_remove1_less [OF assms(1)] by (simp add: potential_def w0_def)
  have "potential w1 + (case d of None \<Rightarrow> 0 | Some _ \<Rightarrow> 5) \<le> potential w0"
  proof (cases "gen = generation (mgr w0)")
    case True
    let ?p = "residentialPath (mgr w0)" and ?c = "consecutiveFailures (mgr w0)"
    have p1: "residentialPath (mgr w1) = ?p"
      using monitor_wake_effect(1) [where w = w0 and ok = ok] True by (simp add: w1)
    note eff = monitor_wake_effect(2-) [where w = w0 and ok = ok, folded True, folded w1]
    show ?thesis
    proof (cases "1 \<le> ?c \<and> ?p \<in> files w0 \<and> ok")
      case True
      then have "?p \<notin> files w1" "consecutiveFailures (mgr w1) = 0"
        using eff by auto
      with True show ?thesis
        unfolding potential_def p1 by (simp add: w1 split: option.split)
    next
      case False
      then have "files w1 = files w0" "consecutiveFailures (mgr w1) = Suc ?c" "d = None \<or> ?c < 9"
        using eff by auto
      then show ?thesis
        unfolding potential_def p1 by (auto simp: w1 split: option.split)
    qed
  qed (simp add: w1 monitor_wake_stale)
  moreover have "potential (w1\<lparr>sleeping := sleeping w1 @ [x]\<rparr>) = potential w1 + 5" for x
    by (simp add: potential_def)
  ultimately show ?thesis
    using p0 by (auto split: option.splits)
qed

lemma potential_startLocked:
  "finite (live w) \<Longrightarrow> potential (fst (startLocked env w)) \<le> potential w + 3"
proof (cases rule: startLocked_cases [of env w])
  case unspawned
  then show "finite (live w) \<Longrightarrow> ?thesis"
    by (simp add: potential_def residentialPath_def)
next
  case started
  have "finite (live w) \<Longrightarrow> card (insert (next_pid w) (live w)) \<le> Suc (card (live w))"
    by (simp add: card_insert_if)
  with started show "finite (live w) \<Longrightarrow> ?thesis"
    by (simp add: potential_def residentialPath_def started_world_def Let_def)
qed simp

text \<open>
  C24. A crash loop ends: without a new \<^verbatim>\<open>Start\<close> or \<^verbatim>\<open>Stop\<close> and without a process that settles, at
  most \<open>potential w\<close> process exits, restarts and timers can happen, however they interleave; so
  the agent stops restarting instead of spinning.
\<close>

theorem crash_loop_ends:
  assumes "mreach strays w" "crash_loop w ls w'"
  shows "length (filter (\<lambda>l. l \<noteq> LTick) ls) \<le> potential w"
  using assms(2) minv_reach [OF assms(1)]
proof (induction rule: crash_loop.induct)
  case (loop_step w l w' ls w'')
  have inv': "minv strays w'"
    using loop_step minv_step by blast
  have fin: "finite (live w)"
    using loop_step.prems by (simp add: minv_defs)
  have "potential w' + (if l = LTick then 0 else 1) \<le> potential w"
    using loop_step.hyps(1,2) fin
  proof (induction rule: mstep.induct)
    case (crash pid w)
    then show ?case
      by (simp add: potential_def card_Diff_singleton) (metis Suc_pred card_gt_0_iff empty_iff le_refl)
  next
    case (wake gen pid w ok w1 d)
    then show ?case using potential_wake [OF wake(1,3)] by simp
  next
    case (resume gen due w env)
    let ?w = "w\<lparr>sleeping := remove1 (gen, due) (sleeping w)\<rparr>"
    have "potential w = potential ?w + 5"
      using length_remove1_less [OF resume(1)] by (simp add: potential_def)
    moreover have "potential (monitor_resume env gen ?w) \<le> potential ?w + 3"
      using potential_startLocked [of ?w env] resume.prems unfolding monitor_resume_def by auto
    ultimately show ?case by simp
  next
    case (settle gen due w)
    then have "SingboxManager.settle gen (w\<lparr>timers := remove1 (gen, due) (timers w)\<rparr>) =
        w\<lparr>timers := remove1 (gen, due) (timers w)\<rparr>"
      by (auto simp: SingboxManager.settle_def)
    then show ?case
      using length_remove1_less [OF settle(1)] by (simp add: potential_def)
  qed (simp_all add: potential_def)
  with loop_step.IH [OF inv'] show ?case
    by (simp split: if_splits)
qed simp

text \<open>The bound for an agent that has just started its first process.\<close>

lemma potential_initial:
  "potential (fst (Start good_env (initial bin config strays fs t))) \<le> 133 + card strays"
  by (simp add: potential_def initial_def NewManager_def Start_def startLocked_def reapStrays_def good_env_def
      Let_def)

lemma crash_loop_ends_witness:
  "\<exists>w w'. mreach {} w \<and> crash_loop w [LCrash 0, LTick] w' \<and>
     length (filter (\<lambda>l. l \<noteq> LTick) [LCrash 0, LTick]) \<le> potential w"
proof -
  define w where "w = fst (Start good_env (initial ''/sb'' ''/c'' {} {''/sb'', ''/c''} 0))"
  have w: "mreach {} w"
    unfolding w_def by (rule mreach.step [OF mreach.init start]) simp
  have "live w = {0}"
    by (simp add: w_def demo_defs)
  then have "mstep w (LCrash 0) (w\<lparr>live := live w - {0}\<rparr>)"
    by (intro crash) simp
  moreover have "mstep (w\<lparr>live := live w - {0}\<rparr>) LTick (w\<lparr>live := live w - {0}, clock := clock w + 5\<rparr>)"
    using tick [of 5 "w\<lparr>live := live w - {0}\<rparr>"] by simp
  ultimately have "crash_loop w [LCrash 0, LTick] (w\<lparr>live := live w - {0}, clock := clock w + 5\<rparr>)"
    by (auto intro: crash_loop.loop_step [OF _ _ crash_loop.loop_step [OF _ _ crash_loop.loop_nil]])
  with w crash_loop_ends [OF w this] show ?thesis by blast
qed

text \<open>
  \<^verbatim>\<open>CheckConfig\<close>: \<open>run\<close> executes a command with arguments and returns its output, \<open>Inl\<close> when it
  fails.
\<close>

definition CheckConfig :: "(string \<Rightarrow> string list \<Rightarrow> string + string) \<Rightarrow> world \<Rightarrow> string option" where
  "CheckConfig run w =
     (case run (binPath (mgr w)) (args ''check'' w) of
        Inl output \<Rightarrow> Some (''config check failed: '' @ output)
      | Inr _ \<Rightarrow> None)"

end
