(* ===== verification/Quota.thy ===== *)
theory Quota
  imports UserConfig
begin

text \<open>
  \<^verbatim>\<open>internal/quota/monitor.go\<close>: the monitor that watches quotas and expiry. Every operation
  runs under the monitor's lock, so operations are atomic state transformers. The callback
  \<^verbatim>\<open>onRemove\<close> is started with \<^verbatim>\<open>go\<close>; the calls that were started are recorded in \<open>started\<close>.
\<close>

record UserQuota =
  q_UUID :: string
  q_TrafficLimit :: int
  q_TrafficUsed :: int
  SessionTraffic :: int
  q_ExpireAt :: "time option"
  q_Enabled :: bool

record Monitor =
  q_users :: "string \<rightharpoonup> UserQuota"
  has_onRemove :: bool
  started :: "(string \<times> string) list"

definition NewMonitor :: "bool \<Rightarrow> Monitor" where
  "NewMonitor onRemove = \<lparr>q_users = Map.empty, has_onRemove = onRemove, started = []\<rparr>"

definition update_user ::
    "(string \<rightharpoonup> UserQuota) \<Rightarrow> (string \<rightharpoonup> UserQuota) \<Rightarrow> User \<Rightarrow> (string \<rightharpoonup> UserQuota)" where
  "update_user old newUsers u =
     (if \<not> Enabled u then newUsers
      else
        let sessionTraffic = (case old (UUID u) of Some existing \<Rightarrow> SessionTraffic existing | None \<Rightarrow> 0)
        in newUsers(UUID u \<mapsto>
             \<lparr>q_UUID = UUID u, q_TrafficLimit = TrafficLimit u, q_TrafficUsed = TrafficUsed u,
              SessionTraffic = sessionTraffic, q_ExpireAt = ExpireAt u, q_Enabled = Enabled u\<rparr>))"

definition UpdateUsers :: "User list \<Rightarrow> Monitor \<Rightarrow> Monitor" where
  "UpdateUsers us m = m\<lparr>q_users := foldl (update_user (q_users m)) Map.empty us\<rparr>"

definition quota_expired :: "UserQuota \<Rightarrow> time \<Rightarrow> bool" where
  "quota_expired q now = (case q_ExpireAt q of None \<Rightarrow> False | Some t \<Rightarrow> t < now)"

text \<open>\<^verbatim>\<open>delete(m.users, uuid)\<close> followed by \<^verbatim>\<open>go m.onRemove(uuid, reason)\<close>.\<close>

definition remove_user :: "string \<Rightarrow> string \<Rightarrow> Monitor \<Rightarrow> Monitor" where
  "remove_user uuid reason m =
     m\<lparr>q_users := (q_users m)(uuid := None),
       started := (if has_onRemove m then started m @ [(uuid, reason)] else started m)\<rparr>"

definition CheckUser :: "time \<Rightarrow> string \<Rightarrow> int \<Rightarrow> Monitor \<Rightarrow> Monitor \<times> bool" where
  "CheckUser now uuid additionalTraffic m =
     (case q_users m uuid of
        None \<Rightarrow> (m, False)
      | Some user \<Rightarrow>
          (let user = user\<lparr>SessionTraffic := i64 (SessionTraffic user + additionalTraffic)\<rparr>;
               m = m\<lparr>q_users := (q_users m)(uuid \<mapsto> user)\<rparr>
           in if quota_expired user now then (remove_user uuid ''expired'' m, False)
              else if 0 < q_TrafficLimit user \<and>
                      q_TrafficLimit user \<le> i64 (q_TrafficUsed user + SessionTraffic user)
              then (remove_user uuid ''quota_exceeded'' m, False)
              else (m, True)))"

definition GetSessionTraffic :: "string \<Rightarrow> Monitor \<Rightarrow> int" where
  "GetSessionTraffic uuid m = (case q_users m uuid of Some user \<Rightarrow> SessionTraffic user | None \<Rightarrow> 0)"

definition GetAllSessionTraffic :: "string list \<Rightarrow> Monitor \<Rightarrow> (string \<rightharpoonup> int)" where
  "GetAllSessionTraffic ks m =
     foldl (\<lambda>result (uuid, user).
        if 0 < SessionTraffic user then result(uuid \<mapsto> SessionTraffic user) else result)
       Map.empty (range_entries (q_users m) ks)"

definition ResetSessionTraffic :: "Monitor \<Rightarrow> Monitor" where
  "ResetSessionTraffic m =
     m\<lparr>q_users := (\<lambda>uuid. map_option (\<lambda>user. user\<lparr>SessionTraffic := 0\<rparr>) (q_users m uuid))\<rparr>"

text \<open>
  The periodic check ranges over the map while it deletes from it. Go visits an entry at most
  once and never one that was already deleted; the loop only deletes the entry it is at.
\<close>

definition check_visit :: "time \<Rightarrow> Monitor \<Rightarrow> string \<times> UserQuota \<Rightarrow> Monitor" where
  "check_visit now m e =
     (if quota_expired (snd e) now then remove_user (fst e) ''expired'' m else m)"

definition CheckAllUsers :: "time \<Rightarrow> string list \<Rightarrow> Monitor \<Rightarrow> Monitor" where
  "CheckAllUsers now ks m = foldl (check_visit now) m (range_entries (q_users m) ks)"

definition GetUserCount :: "Monitor \<Rightarrow> nat" where
  "GetUserCount m = card (dom (q_users m))"

section \<open>Functional behaviour\<close>

lemma remove_user_simps [simp]:
  "q_users (remove_user uuid reason m) = (q_users m)(uuid := None)"
  "has_onRemove (remove_user uuid reason m) = has_onRemove m"
  by (simp_all add: remove_user_def)

lemma foldl_update_user:
  "foldl (update_user old) new us uuid =
     (case find (\<lambda>u. Enabled u \<and> UUID u = uuid) (rev us) of
        None \<Rightarrow> new uuid
      | Some u \<Rightarrow> Some \<lparr>q_UUID = uuid, q_TrafficLimit = TrafficLimit u, q_TrafficUsed = TrafficUsed u,
           SessionTraffic = (case old uuid of Some e \<Rightarrow> SessionTraffic e | None \<Rightarrow> 0),
           q_ExpireAt = ExpireAt u, q_Enabled = True\<rparr>)"
proof (induction us rule: rev_induct)
  case (snoc u us)
  then show ?case
    by (cases "Enabled u \<and> UUID u = uuid") (auto simp: update_user_def Let_def)
qed simp

text \<open>
  A sync replaces the watched users by the enabled users of the list (the last entry of a
  uuid wins) and keeps the session traffic of the users that stay.
\<close>

theorem UpdateUsers_spec:
  "dom (q_users (UpdateUsers us m)) = {UUID u | u. u \<in> set us \<and> Enabled u} \<and>
   (\<forall>uuid \<in> dom (q_users (UpdateUsers us m)).
      GetSessionTraffic uuid (UpdateUsers us m) = GetSessionTraffic uuid m)"
proof -
  have eq: "q_users (UpdateUsers us m) = foldl (update_user (q_users m)) Map.empty us"
    by (simp add: UpdateUsers_def)
  have "dom (q_users (UpdateUsers us m)) = {UUID u | u. u \<in> set us \<and> Enabled u}"
    by (auto simp: eq foldl_update_user dom_def find_None_iff split: option.splits)
  moreover have "GetSessionTraffic uuid (UpdateUsers us m) = GetSessionTraffic uuid m"
    if "uuid \<in> dom (q_users (UpdateUsers us m))" for uuid
    using that by (auto simp: GetSessionTraffic_def eq foldl_update_user split: option.splits)
  ultimately show ?thesis by blast
qed

definition quota_user :: "string \<Rightarrow> int \<Rightarrow> time option \<Rightarrow> User" where
  "quota_user uuid limit expire =
     \<lparr>UUID = uuid, Protocols = [''vless''], SSPassword = ''pw'', Enabled = True, TrafficLimit = limit,
      TrafficUsed = 0, ExpireAt = expire, DeviceID = ''''\<rparr>"

definition sample_monitor :: Monitor where
  "sample_monitor = UpdateUsers [quota_user ''a'' 100 None, quota_user ''b'' 0 (Some 50)] (NewMonitor True)"

lemma UpdateUsers_spec_witness:
  "GetSessionTraffic ''a'' (UpdateUsers [quota_user ''a'' 500 None]
     (fst (CheckUser 10 ''a'' 40 sample_monitor))) = 40"
proof -
  let ?m = "fst (CheckUser 10 ''a'' 40 sample_monitor)"
  have "''a'' \<in> dom (q_users (UpdateUsers [quota_user ''a'' 500 None] ?m))"
    using UpdateUsers_spec [where us = "[quota_user ''a'' 500 None]" and m = ?m]
    by (simp add: quota_user_def)
  then have "GetSessionTraffic ''a'' (UpdateUsers [quota_user ''a'' 500 None] ?m) = GetSessionTraffic ''a'' ?m"
    using UpdateUsers_spec [where us = "[quota_user ''a'' 500 None]" and m = ?m] by blast
  also have "\<dots> = 40"
    by (simp add: GetSessionTraffic_def CheckUser_def sample_monitor_def UpdateUsers_def update_user_def
        quota_user_def NewMonitor_def Let_def quota_expired_def i64_id is_i64_def)
  finally show ?thesis .
qed

lemma q_users_check_visits:
  "q_users (foldl (check_visit now) m es) =
     (\<lambda>k. if \<exists>q. (k, q) \<in> set es \<and> quota_expired q now then None else q_users m k)"
proof (induction es arbitrary: m)
  case (Cons e es)
  show ?case
    unfolding foldl_Cons Cons.IH by (cases e) (auto simp: check_visit_def fun_eq_iff)
qed simp

lemma started_check_visits:
  "has_onRemove m \<Longrightarrow> started (foldl (check_visit now) m es) =
     started m @ map (\<lambda>e. (fst e, ''expired'')) (filter (\<lambda>e. quota_expired (snd e) now) es)"
proof (induction es arbitrary: m)
  case (Cons e es)
  then show ?case by (auto simp: check_visit_def remove_user_def)
qed simp

text \<open>
  The periodic check removes exactly the expired users, whatever the order the map is
  visited in, and starts the removal callback once for each of them.
\<close>

theorem CheckAllUsers_spec:
  assumes "range_order (q_users m) ks" "has_onRemove m"
  shows "q_users (CheckAllUsers now ks m) =
      (\<lambda>k. case q_users m k of Some q \<Rightarrow> (if quota_expired q now then None else Some q) | None \<Rightarrow> None) \<and>
    (\<exists>rs. started (CheckAllUsers now ks m) = started m @ map (\<lambda>k. (k, ''expired'')) rs \<and>
      distinct rs \<and> set rs = {k. \<exists>q. q_users m k = Some q \<and> quota_expired q now})"
proof -
  have es: "set (range_entries (q_users m) ks) = {(k, q). q_users m k = Some q}"
    using assms(1) by (rule set_range_entries_order)
  have "q_users (CheckAllUsers now ks m) =
      (\<lambda>k. case q_users m k of Some q \<Rightarrow> (if quota_expired q now then None else Some q) | None \<Rightarrow> None)"
    by (auto simp: CheckAllUsers_def q_users_check_visits es fun_eq_iff split: option.splits)
  moreover let ?rs = "map fst (filter (\<lambda>e. quota_expired (snd e) now) (range_entries (q_users m) ks))"
  have "distinct ?rs"
    using assms by (simp add: distinct_map_filter distinct_range_entries range_order_def)
  moreover have "set ?rs = {k. \<exists>q. q_users m k = Some q \<and> quota_expired q now}"
    by (auto simp: es image_iff)
  moreover have "started (CheckAllUsers now ks m) = started m @ map (\<lambda>k. (k, ''expired'')) ?rs"
    by (simp add: CheckAllUsers_def started_check_visits assms(2) comp_def)
  ultimately show ?thesis by blast
qed

lemma CheckAllUsers_spec_witness:
  "q_users (CheckAllUsers 60 [''b'', ''a''] sample_monitor) ''b'' = None"
proof -
  have m: "q_users sample_monitor = [''a'' \<mapsto> \<lparr>q_UUID = ''a'', q_TrafficLimit = 100, q_TrafficUsed = 0,
        SessionTraffic = 0, q_ExpireAt = None, q_Enabled = True\<rparr>,
      ''b'' \<mapsto> \<lparr>q_UUID = ''b'', q_TrafficLimit = 0, q_TrafficUsed = 0,
        SessionTraffic = 0, q_ExpireAt = Some 50, q_Enabled = True\<rparr>]"
    by (simp add: sample_monitor_def UpdateUsers_def update_user_def quota_user_def NewMonitor_def Let_def)
  have "range_order (q_users sample_monitor) [''b'', ''a'']"
    by (auto simp: range_order_def m)
  moreover have "has_onRemove sample_monitor"
    by (simp add: sample_monitor_def UpdateUsers_def NewMonitor_def)
  ultimately have "q_users (CheckAllUsers 60 [''b'', ''a''] sample_monitor) =
      (\<lambda>k. case q_users sample_monitor k of
         Some q \<Rightarrow> (if quota_expired q 60 then None else Some q) | None \<Rightarrow> None)"
    using CheckAllUsers_spec [where m = sample_monitor and now = 60] by blast
  then show ?thesis by (simp add: m quota_expired_def)
qed

section \<open>Nobody over the limit is let through\<close>

text \<open>
  \<^verbatim>\<open>CheckUser\<close> adds the traffic to the session, lets the user go on only when he is watched,
  not expired and below his limit, and otherwise stops watching him and starts the removal
  callback exactly once with the reason; a user it has removed stays refused.
\<close>

theorem CheckUser_spec:
  assumes q: "q_users m uuid = Some q"
    and fits: "is_i64 (SessionTraffic q + t)" "is_i64 (q_TrafficUsed q + (SessionTraffic q + t))"
    and on: "has_onRemove m"
    and res: "CheckUser now uuid t m = (m', ok)"
  shows "let total = q_TrafficUsed q + SessionTraffic q + t;
             over = (0 < q_TrafficLimit q \<and> q_TrafficLimit q \<le> total)
         in ok = (\<not> quota_expired q now \<and> \<not> over) \<and>
            (if ok then q_users m' = (q_users m)(uuid \<mapsto> q\<lparr>SessionTraffic := SessionTraffic q + t\<rparr>) \<and>
                        started m' = started m
             else q_users m' = (q_users m)(uuid := None) \<and>
                  started m' = started m @ [(uuid, if quota_expired q now then ''expired'' else ''quota_exceeded'')] \<and>
                  (\<forall>later s. \<not> snd (CheckUser later uuid s m')))"
  using res fits on
  by (auto simp: CheckUser_def q Let_def i64_id quota_expired_def remove_user_def split: if_splits)

lemma CheckUser_spec_witness:
  "\<not> snd (CheckUser 10 ''a'' 100 sample_monitor)"
proof -
  let ?q = "\<lparr>q_UUID = ''a'', q_TrafficLimit = 100, q_TrafficUsed = 0,
        SessionTraffic = 0, q_ExpireAt = None, q_Enabled = True\<rparr>"
  have m: "q_users sample_monitor ''a'' = Some ?q" "has_onRemove sample_monitor"
    by (simp_all add: sample_monitor_def UpdateUsers_def update_user_def quota_user_def NewMonitor_def Let_def)
  have "CheckUser 10 ''a'' 100 sample_monitor =
      (fst (CheckUser 10 ''a'' 100 sample_monitor), snd (CheckUser 10 ''a'' 100 sample_monitor))"
    by simp
  from CheckUser_spec [OF m(1) _ _ m(2) this] show ?thesis
    by (simp add: is_i64_def Let_def)
qed

end
