(* ===== verification/AgentEnv.thy ===== *)
theory AgentEnv
  imports UserConfig Strconv
begin

text \<open>
  \<^verbatim>\<open>internal/config/env.go\<close> and \<^verbatim>\<open>internal/config/keys.go\<close>: the agent's settings, read from the
  environment (\<open>env k\<close> is \<^verbatim>\<open>os.Getenv(k)\<close>, the empty string when unset), and the node's
  secrets, read from \<^verbatim>\<open>secrets.json\<close> or generated once and saved.
\<close>

section \<open>Settings\<close>

type_synonym ManagementMode = string

definition ModeLocal :: ManagementMode where "ModeLocal = ''local''"
definition ModeRemote :: ManagementMode where "ModeRemote = ''remote''"
definition ModeHybrid :: ManagementMode where "ModeHybrid = ''hybrid''"

record AgentConfig =
  APIURL :: string
  NodeAPIKey :: string
  NodeID :: string
  SyncInterval :: int
  StatsInterval :: int
  VLESSPort :: int
  SSPort :: int
  VMessPort :: int
  TrojanPort :: int
  Hysteria2Port :: int
  TUICPort :: int
  SingboxBin :: string
  SingboxConfig :: string
  LogLevel :: string
  Management :: ManagementMode
  ServerIP :: string
  ServerIPv6 :: string
  RealitySNI :: string

definition getEnv :: "(string \<Rightarrow> string) \<Rightarrow> string \<Rightarrow> string \<Rightarrow> string" where
  "getEnv env key defaultVal = (if env key \<noteq> '''' then env key else defaultVal)"

definition getIntEnv :: "(string \<Rightarrow> string) \<Rightarrow> string \<Rightarrow> int \<Rightarrow> int" where
  "getIntEnv env key defaultVal =
     (if env key \<noteq> '''' then (case Atoi (env key) of Some i \<Rightarrow> i | None \<Rightarrow> defaultVal) else defaultVal)"

definition getDurationEnv :: "(string \<Rightarrow> string) \<Rightarrow> string \<Rightarrow> int \<Rightarrow> int" where
  "getDurationEnv env key defaultVal = getIntEnv env key defaultVal"

definition time_Second :: int where
  "time_Second = 1000000000"

definition LoadFromEnv :: "(string \<Rightarrow> string) \<Rightarrow> AgentConfig" where
  "LoadFromEnv env =
     (let mode = getEnv env ''MANAGEMENT_MODE'' ''local'';
          mode = (if mode \<noteq> ModeLocal \<and> mode \<noteq> ModeRemote \<and> mode \<noteq> ModeHybrid then ModeLocal else mode)
      in \<lparr>APIURL = getEnv env ''OTUN_API_URL'' ''https://saasapi.situstechnologies.com'',
          NodeAPIKey = getEnv env ''NODE_API_KEY'' '''',
          NodeID = getEnv env ''NODE_ID'' ''node-default'',
          SyncInterval = i64 (getDurationEnv env ''SYNC_INTERVAL'' 60 * time_Second),
          StatsInterval = i64 (getDurationEnv env ''STATS_INTERVAL'' 300 * time_Second),
          VLESSPort = getIntEnv env ''VLESS_PORT'' 443,
          SSPort = getIntEnv env ''SS_PORT'' 8388,
          VMessPort = getIntEnv env ''VMESS_PORT'' 0,
          TrojanPort = getIntEnv env ''TROJAN_PORT'' 0,
          Hysteria2Port = getIntEnv env ''HYSTERIA2_PORT'' 0,
          TUICPort = getIntEnv env ''TUIC_PORT'' 0,
          SingboxBin = getEnv env ''SINGBOX_BIN'' ''/usr/local/bin/sing-box'',
          SingboxConfig = getEnv env ''SINGBOX_CONFIG'' ''/etc/sing-box/config.json'',
          LogLevel = getEnv env ''LOG_LEVEL'' ''info'',
          Management = mode,
          ServerIP = getEnv env ''SERVER_IP'' '''',
          ServerIPv6 = getEnv env ''SERVER_IPV6'' '''',
          RealitySNI = getEnv env ''REALITY_SNI'' ''www.apple.com''\<rparr>)"

section \<open>Node secrets\<close>

record NodeSecrets =
  PrivateKey :: string
  PublicKey :: string
  ShortIDs :: "string list"
  sec_SSPort :: int

datatype secrets_error = GenPrivateKey | GenShortID | GenSSPort | SaveSecrets

text \<open>
  The random source: 32 and 8 bytes from \<^verbatim>\<open>rand.Read\<close>, and the value of \<^verbatim>\<open>rand.Int\<close> below
  \<open>n\<close>; \<open>None\<close> when the source fails.
\<close>

record entropy =
  rand_key :: "byte list option"
  rand_id :: "byte list option"
  rand_int :: "int \<Rightarrow> int option"

definition randomPort :: "entropy \<Rightarrow> int \<Rightarrow> int \<Rightarrow> int option" where
  "randomPort r mn mx = map_option (\<lambda>n. n + mn) (rand_int r (mx - mn))"

text \<open>\<open>base_mult\<close> is \<^verbatim>\<open>curve25519.ScalarBaseMult\<close>.\<close>

definition GenerateKeyPair ::
    "(byte list \<Rightarrow> byte list) \<Rightarrow> entropy \<Rightarrow> secrets_error + NodeSecrets" where
  "GenerateKeyPair base_mult r =
     (case rand_key r of None \<Rightarrow> Inl GenPrivateKey
      | Some priv \<Rightarrow>
          (let pub = base_mult priv in
           case rand_id r of None \<Rightarrow> Inl GenShortID
           | Some shortID \<Rightarrow>
               (case randomPort r 10000 60000 of None \<Rightarrow> Inl GenSSPort
                | Some ssPort \<Rightarrow>
                    Inr \<lparr>PrivateKey = RawURLEncoding priv, PublicKey = RawURLEncoding pub,
                         ShortIDs = [hex_encode shortID], sec_SSPort = ssPort\<rparr>)))"

text \<open>
  \<open>file\<close> is the content of \<^verbatim>\<open>secrets.json\<close>, \<open>None\<close> when it cannot be read; \<open>osWrite\<close> is the
  effect of \<^verbatim>\<open>os.WriteFile\<close> on it and whether the call succeeded.
\<close>

definition LoadOrGenerateSecrets ::
    "(NodeSecrets \<Rightarrow> string) \<Rightarrow> (string \<Rightarrow> NodeSecrets option) \<Rightarrow> (byte list \<Rightarrow> byte list) \<Rightarrow> entropy \<Rightarrow>
     (string \<Rightarrow> string option \<Rightarrow> string option \<times> bool) \<Rightarrow> string option \<Rightarrow>
     string option \<times> (secrets_error + NodeSecrets)" where
  "LoadOrGenerateSecrets marshal unmarshal base_mult r osWrite file =
     (case Option.bind file unmarshal of
        Some secrets \<Rightarrow>
          if sec_SSPort secrets = 0 then
            let port = (case randomPort r 10000 60000 of Some p \<Rightarrow> p | None \<Rightarrow> 0);
                secrets = secrets\<lparr>sec_SSPort := port\<rparr>
            in (fst (osWrite (marshal secrets) file), Inr secrets)
          else (file, Inr secrets)
      | None \<Rightarrow>
          (case GenerateKeyPair base_mult r of
             Inl e \<Rightarrow> (file, Inl e)
           | Inr secrets \<Rightarrow>
               (case osWrite (marshal secrets) file of
                  (file', False) \<Rightarrow> (file', Inl SaveSecrets)
                | (file', True) \<Rightarrow> (file', Inr secrets))))"

text \<open>A write that reports success has written what it was given.\<close>

definition honest_write :: "(string \<Rightarrow> string option \<Rightarrow> string option \<times> bool) \<Rightarrow> bool" where
  "honest_write osWrite \<longleftrightarrow> (\<forall>d f. snd (osWrite d f) \<longrightarrow> fst (osWrite d f) = Some d)"

definition rand_in_range :: "entropy \<Rightarrow> bool" where
  "rand_in_range r \<longleftrightarrow> (\<forall>n k. rand_int r n = Some k \<longrightarrow> 0 \<le> k \<and> k < n)"

lemma randomPort_range:
  "rand_in_range r \<Longrightarrow> randomPort r mn mx = Some p \<Longrightarrow> mn \<le> p \<and> p < mx"
  by (auto simp: randomPort_def rand_in_range_def) fastforce+

lemma GenerateKeyPair_port:
  assumes "rand_in_range r" "GenerateKeyPair bm r = Inr s"
  shows "10000 \<le> sec_SSPort s \<and> sec_SSPort s < 60000"
  using assms(2) randomPort_range [OF assms(1)]
  by (auto simp: GenerateKeyPair_def Let_def split: option.splits)

text \<open>
  The node's identity survives restarts: when secrets are loaded or generated and the
  write did not fail, every later start (with whatever random source) finds the same keys,
  short ids and Shadowsocks port, and leaves the file alone.
\<close>

theorem secrets_stable:
  assumes json: "unmarshal (marshal s) = Some s"
    and honest: "honest_write osWrite" "snd (osWrite (marshal s) file)"
    and rand: "rand_in_range r" "randomPort r 10000 60000 \<noteq> None"
    and first: "LoadOrGenerateSecrets marshal unmarshal bm r osWrite file = (file', Inr s)"
  shows "LoadOrGenerateSecrets marshal unmarshal bm' r' osWrite' file' = (file', Inr s)"
proof -
  have port: "\<exists>p. randomPort r 10000 60000 = Some p \<and> p \<noteq> 0"
    using rand(2) randomPort_range [OF rand(1), of 10000 60000] by fastforce
  have "Option.bind file' unmarshal = Some s \<and> sec_SSPort s \<noteq> 0"
  proof (cases "Option.bind file unmarshal")
    case None
    with first have gen: "GenerateKeyPair bm r = Inr s" "osWrite (marshal s) file = (file', True)"
      by (auto simp: LoadOrGenerateSecrets_def split: sum.splits prod.splits bool.splits)
    moreover have "file' = Some (marshal s)"
      using honest gen(2) by (metis fst_conv honest_write_def)
    ultimately show ?thesis
      using json GenerateKeyPair_port [OF rand(1) gen(1)] by simp
  next
    case (Some s0)
    show ?thesis
    proof (cases "sec_SSPort s0 = 0")
      case True
      with Some first port have "sec_SSPort s \<noteq> 0" "file' = fst (osWrite (marshal s) file)"
        by (auto simp: LoadOrGenerateSecrets_def Let_def)
      moreover have "fst (osWrite (marshal s) file) = Some (marshal s)"
        using honest by (simp add: honest_write_def)
      ultimately show ?thesis
        using json by simp
    next
      case False
      with Some first show ?thesis
        by (simp add: LoadOrGenerateSecrets_def)
    qed
  qed
  then show ?thesis
    by (simp add: LoadOrGenerateSecrets_def)
qed

definition sample_entropy :: entropy where
  "sample_entropy = \<lparr>rand_key = Some [1, 2], rand_id = Some [3], rand_int = (\<lambda>n. if 5 < n then Some 5 else None)\<rparr>"

definition sample_secrets :: NodeSecrets where
  "sample_secrets = \<lparr>PrivateKey = RawURLEncoding [1, 2], PublicKey = RawURLEncoding [1, 2],
     ShortIDs = [hex_encode [3]], sec_SSPort = 10005\<rparr>"

lemma secrets_stable_witness:
  "let marshal = (\<lambda>_. ''doc'');
       unmarshal = (\<lambda>d. if d = ''doc'' then Some sample_secrets else None);
       write = (\<lambda>d f. (Some d, True))
   in LoadOrGenerateSecrets marshal unmarshal id sample_entropy write None = (Some ''doc'', Inr sample_secrets) \<and>
      LoadOrGenerateSecrets marshal unmarshal id sample_entropy write (Some ''doc'') =
        (Some ''doc'', Inr sample_secrets)"
proof -
  let ?un = "\<lambda>d. if d = ''doc'' then Some sample_secrets else None"
  have first: "LoadOrGenerateSecrets (\<lambda>_. ''doc'') ?un id sample_entropy (\<lambda>d f. (Some d, True)) None =
      (Some ''doc'', Inr sample_secrets)"
    by (simp add: LoadOrGenerateSecrets_def GenerateKeyPair_def sample_entropy_def sample_secrets_def randomPort_def)
  have "LoadOrGenerateSecrets (\<lambda>_. ''doc'') ?un id sample_entropy (\<lambda>d f. (Some d, True)) (Some ''doc'') =
      (Some ''doc'', Inr sample_secrets)"
    by (rule secrets_stable [OF _ _ _ _ _ first])
      (auto simp: honest_write_def rand_in_range_def sample_entropy_def randomPort_def split: if_splits)
  with first show ?thesis by (simp add: Let_def)
qed

section \<open>Any history of starts\<close>

definition secrets_boot where
  "secrets_boot marshal unmarshal e file =
     (case e of (bm, r, osWrite) \<Rightarrow> LoadOrGenerateSecrets marshal unmarshal bm r osWrite file)"

definition secrets_sane where
  "secrets_sane marshal unmarshal e \<longleftrightarrow>
     (case e of (bm, r, osWrite) \<Rightarrow> (\<forall>s. unmarshal (marshal s) = Some s) \<and> honest_write osWrite \<and>
        (\<forall>d f. snd (osWrite d f)) \<and> rand_in_range r \<and> randomPort r 10000 60000 \<noteq> None)"

interpretation node_secrets: made_once "secrets_boot marshal unmarshal" "\<lambda>s. s" "secrets_sane marshal unmarshal"
proof (unfold_locales, goal_cases)
  case (1 e e' f f' v)
  then show ?case
    by (cases e; cases e') (auto simp: secrets_boot_def secrets_sane_def intro!: secrets_stable)
qed

end
