(* ===== verification/Semver.thy ===== *)
theory Semver
  imports Strconv
begin

text \<open>
  \<^verbatim>\<open>internal/enroll/version.go\<close>: release versions and the test that an upgrade goes up, and the
  test that a tunnel goes to the agent's own backend. Versions are ordered as triples; the
  instantiation makes the library's order automation available.
\<close>

datatype semver = SemVer int int int

instantiation semver :: linorder
begin

fun less_semver :: "semver \<Rightarrow> semver \<Rightarrow> bool" where
  "less_semver (SemVer a b c) (SemVer a' b' c') \<longleftrightarrow> a < a' \<or> (a = a' \<and> (b < b' \<or> (b = b' \<and> c < c')))"

definition less_eq_semver :: "semver \<Rightarrow> semver \<Rightarrow> bool" where
  "less_eq_semver v w \<longleftrightarrow> v < w \<or> v = w"

instance
proof
  fix u v w :: semver
  show "(v < w) = (v \<le> w \<and> \<not> w \<le> v)"
    by (cases v; cases w) (auto simp: less_eq_semver_def)
  show "v \<le> v"
    by (simp add: less_eq_semver_def)
  show "u \<le> v \<Longrightarrow> v \<le> w \<Longrightarrow> u \<le> w"
    by (cases u; cases v; cases w) (auto simp: less_eq_semver_def)
  show "v \<le> w \<Longrightarrow> w \<le> v \<Longrightarrow> v = w"
    by (cases v; cases w) (auto simp: less_eq_semver_def)
  show "v \<le> w \<or> w \<le> v"
    by (cases v; cases w) (auto simp: less_eq_semver_def)
qed

end

text \<open>The loop over the three parts, which returns at the first part that is no number.\<close>

fun parse_parts :: "string list \<Rightarrow> int list option" where
  "parse_parts [] = Some []"
| "parse_parts (p # ps) =
     (case Atoi p of
        None \<Rightarrow> None
      | Some n \<Rightarrow> if n < 0 \<or> p = '''' then None else map_option (\<lambda>ns. n # ns) (parse_parts ps))"

definition parseSemver :: "string \<Rightarrow> semver option" where
  "parseSemver s =
     (let parts = Split (TrimPrefix s ''v'') ''.''
      in if length parts \<noteq> 3 then None
         else case parse_parts parts of
           Some [a, b, c] \<Rightarrow> Some (SemVer a b c)
         | _ \<Rightarrow> None)"

text \<open>The comparison loop over the three components.\<close>

fun newer_loop :: "int list \<Rightarrow> int list \<Rightarrow> bool" where
  "newer_loop (t # ts) (c # cs) = (if t \<noteq> c then c < t else newer_loop ts cs)"
| "newer_loop _ _ = False"

fun components :: "semver \<Rightarrow> int list" where
  "components (SemVer a b c) = [a, b, c]"

definition isNewerRelease :: "string \<Rightarrow> string \<Rightarrow> bool" where
  "isNewerRelease target current =
     (case parseSemver target of
        None \<Rightarrow> False
      | Some t \<Rightarrow>
          (case parseSemver current of
             None \<Rightarrow> False
           | Some c \<Rightarrow> newer_loop (components t) (components c)))"

text \<open>
  \<^verbatim>\<open>sameHost\<close>: \<open>hostname\<close> is the host name of a URL as \<^verbatim>\<open>net/url\<close> parses it (\<open>None\<close> for a parse
  error), \<open>equalFold\<close> is \<^verbatim>\<open>strings.EqualFold\<close> with its Unicode tables.
\<close>

definition sameHost ::
    "(string \<Rightarrow> string option) \<Rightarrow> (string \<Rightarrow> string \<Rightarrow> bool) \<Rightarrow> string \<Rightarrow> string \<Rightarrow> bool" where
  "sameHost hostname equalFold rawURL host =
     (if host = '''' then False
      else case hostname rawURL of
        None \<Rightarrow> False
      | Some h \<Rightarrow> if h = '''' then False else equalFold h host)"

lemma newer_loop_less: "newer_loop (components t) (components c) \<longleftrightarrow> c < t"
  by (cases t; cases c) auto

lemma isNewerRelease_iff:
  "isNewerRelease target current \<longleftrightarrow>
     (\<exists>t c. parseSemver target = Some t \<and> parseSemver current = Some c \<and> c < t)"
  by (auto simp: isNewerRelease_def newer_loop_less split: option.splits)

definition show_semver :: "nat \<Rightarrow> nat \<Rightarrow> nat \<Rightarrow> string" where
  "show_semver a b c = ''v'' @ itoa (int a) @ ''.'' @ itoa (int b) @ ''.'' @ itoa (int c)"

lemma itoa_no_dot: "CHR ''.'' \<notin> set (itoa (int n))"
proof -
  have "\<not> is_digit (CHR ''.'')"
    by (simp add: is_digit_def)
  then show ?thesis
    using digits_ok [of n] by (auto simp: itoa_def list_all_iff)
qed

lemma parseSemver_show:
  assumes "is_i64 (int a)" "is_i64 (int b)" "is_i64 (int c)"
  shows "parseSemver (show_semver a b c) = Some (SemVer (int a) (int b) (int c))"
proof -
  have "Split (itoa (int a) @ ''.'' @ itoa (int b) @ ''.'' @ itoa (int c)) ''.'' =
      [itoa (int a), itoa (int b), itoa (int c)]"
    by (simp add: Split_def split_from_char itoa_no_dot)
  moreover have "itoa (int n) \<noteq> []" for n
    by (simp add: itoa_def)
  ultimately show ?thesis
    using assms by (simp add: parseSemver_def show_semver_def Atoi_itoa TrimPrefix_append [of "''v''", simplified])
qed

text \<open>
  Upgrades only go up: the accepted upgrades are exactly those between two proper release
  versions whose numbers increase in the order of versions, so no sequence of accepted
  upgrades ever returns to a version it has left, and neither a floating name nor a
  development build takes part.
\<close>

theorem isNewerRelease_strict_order:
  shows "(isNewerRelease t c \<longleftrightarrow> (\<exists>v w. parseSemver t = Some v \<and> parseSemver c = Some w \<and> w < v)) \<and>
    \<not> isNewerRelease t t \<and>
    (isNewerRelease t c \<and> isNewerRelease u t \<longrightarrow> isNewerRelease u c) \<and>
    (parseSemver u = None \<longrightarrow> \<not> isNewerRelease u c \<and> \<not> isNewerRelease t u)"
  by (auto simp: isNewerRelease_iff)

lemma isNewerRelease_strict_order_witness:
  "isNewerRelease ''v1.10.0'' ''1.9.3'' \<and> \<not> isNewerRelease ''latest'' ''1.9.3''"
proof -
  have d: "digit_val (CHR ''0'') = 0" "digit_val (CHR ''1'') = 1" "digit_val (CHR ''3'') = 3" "digit_val (CHR ''9'') = 9"
    "is_digit (CHR ''0'')" "is_digit (CHR ''1'')" "is_digit (CHR ''3'')" "is_digit (CHR ''9'')"
    by (simp_all add: digit_val_def is_digit_def)
  have p: "parseSemver ''v1.10.0'' = Some (SemVer 1 10 0)" "parseSemver ''1.9.3'' = Some (SemVer 1 9 3)"
    "parseSemver ''latest'' = None"
    by (simp_all add: parseSemver_def Split_def HasPrefix_def TrimPrefix_def Atoi_def Atou_def dec_value_def d
        is_i64_def Let_def)
  have "SemVer 1 9 3 < SemVer 1 10 0"
    by simp
  then have "isNewerRelease ''v1.10.0'' ''1.9.3''"
    using isNewerRelease_strict_order [THEN conjunct1, of "''v1.10.0''" "''1.9.3''"] p by blast
  moreover have "\<not> isNewerRelease ''latest'' ''1.9.3''"
    using isNewerRelease_strict_order [of "''1.9.3''" "''1.9.3''" "''latest''"] p(3) by blast
  ultimately show ?thesis by blast
qed

end
