(* ===== verification/Upgrade.thy ===== *)
theory Upgrade
  imports Encoding
begin

text \<open>
  \<^verbatim>\<open>internal/enroll/upgrade.go\<close>: putting a new agent binary in place, and the way back. The
  file system maps paths to contents. \<open>up_env\<close> is what the network and the system do during
  one upgrade: the download (its content on success, what it leaves behind on failure),
  whether the temporary file can be read and made executable, which renames fail, and which
  removals do (their errors are ignored by the code).
\<close>

type_synonym fsys = "string \<rightharpoonup> byte list"

definition prevSuffix :: string where
  "prevSuffix = ''.prev''"

record UpgradePlan =
  ReleaseTag :: string
  SHA256 :: "string \<rightharpoonup> string"

record up_env =
  goarch :: string
  download :: "(byte list option) + byte list"
  tmp_readable :: bool
  chmod_ok :: bool
  backup_ok :: bool
  replace_ok :: bool
  restore_ok :: bool
  rm_prev_ok :: bool
  rm_tmp_ok :: bool

datatype upgrade_error =
    EmptyTag
  | MissingSHA256 string
  | DownloadFailed
  | HashUnreadable
  | HashMismatch string string
  | ChmodFailed
  | BackupFailed
  | NoExecutableLeft
  | ReplaceFailed

definition assetName :: "up_env \<Rightarrow> string" where
  "assetName env = ''agent-linux-'' @ goarch env"

text \<open>\<^verbatim>\<open>os.Rename\<close> of an existing file; \<open>None\<close> when the source does not exist.\<close>

definition rename :: "string \<Rightarrow> string \<Rightarrow> fsys \<Rightarrow> fsys option" where
  "rename from to fs = map_option (\<lambda>b. fs(from := None, to := Some b)) (fs from)"

definition downloadTo :: "up_env \<Rightarrow> string \<Rightarrow> fsys \<Rightarrow> fsys \<times> bool" where
  "downloadTo env dest fs =
     (case download env of
        Inl None \<Rightarrow> (fs, False)
      | Inl (Some partial) \<Rightarrow> (fs(dest \<mapsto> partial), False)
      | Inr content \<Rightarrow> (fs(dest \<mapsto> content), True))"

definition fileSHA256 :: "up_env \<Rightarrow> string \<Rightarrow> fsys \<Rightarrow> string option" where
  "fileSHA256 env path fs =
     (if \<not> tmp_readable env then None else map_option (\<lambda>b. hex_encode (sha256 b)) (fs path))"

text \<open>\<^verbatim>\<open>os.Remove\<close> where the code ignores its error: a removal that fails leaves the file.\<close>

definition remove_file :: "bool \<Rightarrow> string \<Rightarrow> fsys \<Rightarrow> fsys" where
  "remove_file ok path fs = (if ok then fs(path := None) else fs)"

text \<open>The body of \<^verbatim>\<open>prepareFrom\<close> up to its deferred \<^verbatim>\<open>os.Remove(tmp)\<close>.\<close>

definition prepare_body :: "up_env \<Rightarrow> string \<Rightarrow> string \<Rightarrow> fsys \<Rightarrow> fsys \<times> upgrade_error option" where
  "prepare_body env want exePath fs =
     (let tmp = exePath @ ''.new''; (fs, ok) = downloadTo env tmp fs
      in if \<not> ok then (fs, Some DownloadFailed)
         else case fileSHA256 env tmp fs of
           None \<Rightarrow> (fs, Some HashUnreadable)
         | Some got \<Rightarrow>
             if got \<noteq> want then (fs, Some (HashMismatch want got))
             else if \<not> chmod_ok env then (fs, Some ChmodFailed)
             else
               (let prev = exePath @ prevSuffix;
                    fs = remove_file (rm_prev_ok env) prev fs
                in if fs exePath \<noteq> None \<and> \<not> backup_ok env then (fs, Some BackupFailed)
                   else
                     (let fs = (case rename exePath prev fs of Some fs' \<Rightarrow> fs' | None \<Rightarrow> fs)
                      in case (if replace_ok env then rename tmp exePath fs else None) of
                           Some fs' \<Rightarrow> (fs', None)
                         | None \<Rightarrow>
                             (case (if restore_ok env then rename prev exePath fs else None) of
                                None \<Rightarrow> (fs, Some NoExecutableLeft)
                              | Some fs' \<Rightarrow> (fs', Some ReplaceFailed)))))"

definition prepareFrom :: "up_env \<Rightarrow> string \<Rightarrow> string \<Rightarrow> fsys \<Rightarrow> fsys \<times> upgrade_error option" where
  "prepareFrom env want exePath fs =
     (let (fs', r) = prepare_body env want exePath fs in (remove_file (rm_tmp_ok env) (exePath @ ''.new'') fs', r))"

definition PrepareUpgrade :: "up_env \<Rightarrow> UpgradePlan \<Rightarrow> string \<Rightarrow> fsys \<Rightarrow> fsys \<times> upgrade_error option" where
  "PrepareUpgrade env plan exePath fs =
     (if ReleaseTag plan = '''' then (fs, Some EmptyTag)
      else let name = assetName env in
        case SHA256 plan name of
          None \<Rightarrow> (fs, Some (MissingSHA256 name))
        | Some want \<Rightarrow>
            if want = '''' then (fs, Some (MissingSHA256 name)) else prepareFrom env want exePath fs)"

datatype rollback_error = NothingToRollBack | RollbackFailed

definition Rollback :: "bool \<Rightarrow> string \<Rightarrow> fsys \<Rightarrow> fsys \<times> rollback_error option" where
  "Rollback rename_ok exePath fs =
     (let prev = exePath @ prevSuffix
      in if fs prev = None then (fs, Some NothingToRollBack)
         else case (if rename_ok then rename prev exePath fs else None) of
           None \<Rightarrow> (fs, Some RollbackFailed)
         | Some fs' \<Rightarrow> (fs', None))"

definition HasPrevVersion :: "string \<Rightarrow> fsys \<Rightarrow> bool" where
  "HasPrevVersion exePath fs \<longleftrightarrow> fs (exePath @ prevSuffix) \<noteq> None"

definition ClearPrevVersion :: "bool \<Rightarrow> string \<Rightarrow> fsys \<Rightarrow> fsys" where
  "ClearPrevVersion rm_ok exePath fs = remove_file rm_ok (exePath @ prevSuffix) fs"

lemma suffix_distinct [simp]:
  "exe @ ''.new'' \<noteq> exe" "exe @ prevSuffix \<noteq> exe" "exe @ ''.new'' \<noteq> exe @ prevSuffix"
  "exe \<noteq> exe @ ''.new''" "exe \<noteq> exe @ prevSuffix" "exe @ prevSuffix \<noteq> exe @ ''.new''"
  "prevSuffix \<noteq> []" "''.new'' \<noteq> prevSuffix" "prevSuffix \<noteq> ''.new''"
  by (simp_all add: prevSuffix_def)

text \<open>
  C25. An upgrade is all or nothing. When it succeeds, the executable is a file with the
  checksum the plan names for this architecture, and the previous executable is kept beside
  it, so a rollback brings the old version back byte for byte. When it fails, the executable
  is untouched, unless both moving the new file in and moving the old one back failed, which is
  reported as its own error. The temporary file is gone after a success, whatever the final
  removal does, and after a failure if the removal works.
\<close>

theorem PrepareUpgrade_all_or_nothing:
  assumes res: "PrepareUpgrade env plan exe fs = (fs', r)" and exe: "fs exe = Some old"
    and tmp: "fs (exe @ ''.new'') = None"
  shows "(r = None \<or> rm_tmp_ok env \<longrightarrow> fs' (exe @ ''.new'') = None) \<and>
    (case r of
       None \<Rightarrow> (\<exists>new. fs' exe = Some new \<and> SHA256 plan (assetName env) = Some (hex_encode (sha256 new))) \<and>
         fs' (exe @ prevSuffix) = Some old \<and>
         (\<exists>fs''. Rollback True exe fs' = (fs'', None) \<and> fs'' exe = Some old \<and> \<not> HasPrevVersion exe fs'')
     | Some e \<Rightarrow> e = NoExecutableLeft \<or> fs' exe = Some old)"
proof -
  note defs = PrepareUpgrade_def prepareFrom_def prepare_body_def downloadTo_def fileSHA256_def rename_def
    remove_file_def Rollback_def HasPrevVersion_def
  show ?thesis
    using res exe tmp
    by (cases r; cases "download env"; cases "SHA256 plan (assetName env)")
      (auto simp: defs Let_def split_beta split: option.splits if_splits)
qed

definition sample_env :: "byte list \<Rightarrow> up_env" where
  "sample_env new = \<lparr>goarch = ''amd64'', download = Inr new, tmp_readable = True, chmod_ok = True,
     backup_ok = True, replace_ok = True, restore_ok = True, rm_prev_ok = True, rm_tmp_ok = False\<rparr>"

definition sample_plan :: "byte list \<Rightarrow> UpgradePlan" where
  "sample_plan new = \<lparr>ReleaseTag = ''v2.0.0'', SHA256 = [''agent-linux-amd64'' \<mapsto> hex_encode (sha256 new)]\<rparr>"

lemma PrepareUpgrade_sample:
  "PrepareUpgrade (sample_env new) (sample_plan new) ''a'' [''a'' \<mapsto> old] =
     ([''a'' \<mapsto> new, ''a.prev'' \<mapsto> old], None)"
proof -
  have "hex_encode (sha256 new) \<noteq> []"
    using length_hex_encode [of "sha256 new"] by (metis length_sha256 list.size(3) mult_is_0 zero_neq_numeral)
  then show ?thesis
    by (auto simp: PrepareUpgrade_def prepareFrom_def prepare_body_def downloadTo_def fileSHA256_def rename_def
        remove_file_def sample_env_def sample_plan_def assetName_def prevSuffix_def Let_def)
qed

lemma PrepareUpgrade_all_or_nothing_witness:
  "\<exists>fs''. Rollback True ''a'' [''a'' \<mapsto> [2], ''a.prev'' \<mapsto> [1]] = (fs'', None) \<and> fs'' ''a'' = Some [1]"
  using PrepareUpgrade_all_or_nothing [OF PrepareUpgrade_sample [of "[2]" "[1]"]] by auto

end
