(* ===== verification/Executor.thy ===== *)
theory Executor
  imports Json Semver Upgrade
begin

text \<open>
  \<^verbatim>\<open>internal/enroll/executor.go\<close> and the command types of \<^verbatim>\<open>wire.go\<close>: the commands the backend may
  give the agent, their execution, and the cache that makes redelivery harmless. Effects on
  the rest of the agent are recorded in \<open>performed\<close>; their outcomes are inputs (\<open>exec_env\<close>).
  The human-readable \<^verbatim>\<open>Detail\<close> of a reply is one constructor per message.
\<close>

section \<open>Commands and acknowledgements\<close>

record Command =
  CommandID :: string
  CmdType :: string
  CmdCreatedAt :: time
  CmdExpiresAt :: "time option"
  Payload :: json

datatype detail =
    NoDetail
  | MsgExpired
  | MsgUnsupportedType string
  | MsgReloadUnwired
  | MsgNoTunnel
  | MsgNoUpgrade
  | MsgFieldsRequired
  | MsgForeignHost
  | MsgNotNewer string string
  | MsgError string

record CommandAck =
  ack_CommandID :: string
  Result :: string
  ack_Error :: string
  Detail :: detail
  Data :: json

definition ResultDone :: string where "ResultDone = ''done''"
definition ResultFailed :: string where "ResultFailed = ''failed''"
definition ErrExpired :: string where "ErrExpired = ''expired''"
definition ErrInvalidPayload :: string where "ErrInvalidPayload = ''invalid_payload''"
definition ErrSingboxApplyFailed :: string where "ErrSingboxApplyFailed = ''singbox_apply_failed''"
definition ErrUnsupportedType :: string where "ErrUnsupportedType = ''unsupported_type''"
definition ErrTunnelConnectFailed :: string where "ErrTunnelConnectFailed = ''tunnel_connect_failed''"
definition ErrInternal :: string where "ErrInternal = ''internal''"

definition CmdGetConfig :: string where "CmdGetConfig = ''get_config''"
definition CmdReload :: string where "CmdReload = ''reload''"
definition CmdPing :: string where "CmdPing = ''ping''"
definition CmdUpgradeAgent :: string where "CmdUpgradeAgent = ''upgrade_agent''"
definition CmdOpenTunnel :: string where "CmdOpenTunnel = ''open_tunnel''"

definition ack_done :: "json \<Rightarrow> CommandAck" where
  "ack_done data = \<lparr>ack_CommandID = '''', Result = ResultDone, ack_Error = '''', Detail = NoDetail, Data = data\<rparr>"

definition ack_failed :: "string \<Rightarrow> detail \<Rightarrow> CommandAck" where
  "ack_failed code d = \<lparr>ack_CommandID = '''', Result = ResultFailed, ack_Error = code, Detail = d, Data = JNull\<rparr>"

section \<open>State and inputs\<close>

record openTunnelPayload =
  op_SessionID :: string
  op_TunnelURL :: string
  op_ExpiresAt :: "time option"

record UpgradeConfig =
  Repo :: string
  ExePath :: string

datatype effect = DoReload | DoOpenTunnel string string | DoUpgrade UpgradePlan

record Executor =
  agentVersion :: string
  has_reload :: bool
  upgrade :: "UpgradeConfig option"
  pendingExit :: bool
  has_tunnel :: bool
  tunnelHost :: string
  recent :: "string \<rightharpoonup> CommandAck"
  order :: "string list"
  performed :: "effect list"
  exe_fs :: fsys

text \<open>
  The other parts of the agent as one execution sees them: the node's parameters, the JSON
  decoders of the two payloads, the URL parser, and what the reload, the tunnel and the upgrade
  answer.
\<close>

record exec_env =
  listen_ports :: json
  node_secrets :: json
  singbox_version :: string
  decode_tunnel :: "json \<Rightarrow> string + openTunnelPayload"
  decode_plan :: "json \<Rightarrow> string + UpgradePlan"
  url_hostname :: "string \<Rightarrow> string option"
  equal_fold :: "string \<Rightarrow> string \<Rightarrow> bool"
  reload_result :: "string option"
  open_result :: "string \<Rightarrow> string \<Rightarrow> string option"
  upgrade_env :: up_env
  upgrade_text :: "upgrade_error \<Rightarrow> string"

definition maxRecent :: nat where
  "maxRecent = 200"

definition NewExecutor :: "string \<Rightarrow> bool \<Rightarrow> fsys \<Rightarrow> Executor" where
  "NewExecutor version reload fs =
     \<lparr>agentVersion = version, has_reload = reload, upgrade = None, pendingExit = False, has_tunnel = False,
      tunnelHost = '''', recent = Map.empty, order = [], performed = [], exe_fs = fs\<rparr>"

definition EnableTunnel :: "string \<Rightarrow> Executor \<Rightarrow> Executor" where
  "EnableTunnel allowedHost e = e\<lparr>has_tunnel := True, tunnelHost := allowedHost\<rparr>"

definition EnableUpgrade :: "UpgradeConfig option \<Rightarrow> Executor \<Rightarrow> Executor" where
  "EnableUpgrade cfg e = e\<lparr>upgrade := cfg\<rparr>"

section \<open>Operations\<close>

definition perform :: "effect \<Rightarrow> Executor \<Rightarrow> Executor" where
  "perform x e = e\<lparr>performed := performed e @ [x]\<rparr>"

definition getConfig :: "exec_env \<Rightarrow> Executor \<Rightarrow> CommandAck" where
  "getConfig env e = ack_done (JObj [(''listen_ports'', listen_ports env), (''secrets'', node_secrets env),
     (''singbox_version'', JStr (singbox_version env)), (''agent_version'', JStr (agentVersion e))])"

definition doReload :: "exec_env \<Rightarrow> Executor \<Rightarrow> Executor \<times> CommandAck" where
  "doReload env e =
     (if \<not> has_reload e then (e, ack_failed ErrInternal MsgReloadUnwired)
      else
        (let e = perform DoReload e
         in case reload_result env of
              Some err \<Rightarrow> (e, ack_failed ErrSingboxApplyFailed (MsgError err))
            | None \<Rightarrow> (e, ack_done JNull)))"

definition openTunnel :: "exec_env \<Rightarrow> Command \<Rightarrow> Executor \<Rightarrow> Executor \<times> CommandAck" where
  "openTunnel env cmd e =
     (if \<not> has_tunnel e then (e, ack_failed ErrUnsupportedType MsgNoTunnel)
      else case decode_tunnel env (Payload cmd) of
        Inl err \<Rightarrow> (e, ack_failed ErrInvalidPayload (MsgError err))
      | Inr p \<Rightarrow>
          if op_SessionID p = '''' \<or> op_TunnelURL p = '''' then (e, ack_failed ErrInvalidPayload MsgFieldsRequired)
          else if \<not> sameHost (url_hostname env) (equal_fold env) (op_TunnelURL p) (tunnelHost e)
          then (e, ack_failed ErrInvalidPayload MsgForeignHost)
          else
            (let e = perform (DoOpenTunnel (op_SessionID p) (op_TunnelURL p)) e
             in case open_result env (op_SessionID p) (op_TunnelURL p) of
                  Some err \<Rightarrow> (e, ack_failed ErrTunnelConnectFailed (MsgError err))
                | None \<Rightarrow> (e, ack_done (JObj [(''session_id'', JStr (op_SessionID p))]))))"

definition upgradeAgent :: "exec_env \<Rightarrow> Command \<Rightarrow> Executor \<Rightarrow> Executor \<times> CommandAck" where
  "upgradeAgent env cmd e =
     (case upgrade e of
        None \<Rightarrow> (e, ack_failed ErrUnsupportedType MsgNoUpgrade)
      | Some cfg \<Rightarrow>
          (case decode_plan env (Payload cmd) of
             Inl err \<Rightarrow> (e, ack_failed ErrInvalidPayload (MsgError err))
           | Inr plan \<Rightarrow>
               if ReleaseTag plan = agentVersion e then
                 (e, ack_done (JObj [(''from'', JStr (agentVersion e)), (''to'', JStr (ReleaseTag plan))]))
               else if \<not> isNewerRelease (ReleaseTag plan) (agentVersion e) then
                 (e, ack_failed ErrInvalidPayload (MsgNotNewer (ReleaseTag plan) (agentVersion e)))
               else
                 (let e = perform (DoUpgrade plan) e;
                      (fs, r) = PrepareUpgrade (upgrade_env env) plan (ExePath cfg) (exe_fs e);
                      e = e\<lparr>exe_fs := fs\<rparr>
                  in case r of
                       Some err \<Rightarrow> (e, ack_failed ErrInternal (MsgError (upgrade_text env err)))
                     | None \<Rightarrow>
                         (e\<lparr>pendingExit := True\<rparr>,
                          ack_done (JObj [(''from'', JStr (agentVersion e)), (''to'', JStr (ReleaseTag plan))])))))"

definition execute :: "exec_env \<Rightarrow> time \<Rightarrow> Command \<Rightarrow> Executor \<Rightarrow> Executor \<times> CommandAck" where
  "execute env serverTime cmd e =
     (if (case CmdExpiresAt cmd of Some t \<Rightarrow> t < serverTime | None \<Rightarrow> False)
      then (e, ack_failed ErrExpired MsgExpired)
      else if CmdType cmd = CmdGetConfig then (e, getConfig env e)
      else if CmdType cmd = CmdReload then doReload env e
      else if CmdType cmd = CmdPing then (e, ack_done JNull)
      else if CmdType cmd = CmdUpgradeAgent then upgradeAgent env cmd e
      else if CmdType cmd = CmdOpenTunnel then openTunnel env cmd e
      else (e, ack_failed ErrUnsupportedType (MsgUnsupportedType (CmdType cmd))))"

definition replay :: "string \<Rightarrow> Executor \<Rightarrow> CommandAck option" where
  "replay cid e = recent e cid"

text \<open>The eviction loop of \<^verbatim>\<open>remember\<close>.\<close>

function evict :: "Executor \<Rightarrow> Executor" where
  "evict e = (if maxRecent < length (order e)
     then evict (e\<lparr>recent := (recent e)(order e ! 0 := None), order := drop 1 (order e)\<rparr>) else e)"
  by auto
termination
  by (relation "measure (\<lambda>e. length (order e))") auto

declare evict.simps [simp del]

definition remember :: "CommandAck \<Rightarrow> Executor \<Rightarrow> Executor" where
  "remember ack e =
     (let e = (if recent e (ack_CommandID ack) = None
               then e\<lparr>order := order e @ [ack_CommandID ack]\<rparr> else e);
          e = e\<lparr>recent := (recent e)(ack_CommandID ack \<mapsto> ack)\<rparr>
      in evict e)"

definition Execute :: "exec_env \<Rightarrow> time \<Rightarrow> Command \<Rightarrow> Executor \<Rightarrow> Executor \<times> CommandAck" where
  "Execute env serverTime cmd e =
     (case replay (CommandID cmd) e of
        Some ack \<Rightarrow> (e, ack)
      | None \<Rightarrow>
          (let (e, ack) = execute env serverTime cmd e;
               ack = ack\<lparr>ack_CommandID := CommandID cmd\<rparr>
           in (remember ack e, ack)))"

definition PendingExit :: "Executor \<Rightarrow> bool" where
  "PendingExit e = pendingExit e"

section \<open>The interface the poll loop relies on\<close>

text \<open>
  What the poll loop knows of an executor: every execution keeps its invariant and answers with
  an acknowledgement that carries the command's id. \<open>run_all\<close> is the loop over the commands of
  one response.
\<close>

locale command_executor =
  fixes exec :: "'c \<Rightarrow> 'e \<Rightarrow> 'e \<times> 'a"
    and cid :: "'c \<Rightarrow> string"
    and aid :: "'a \<Rightarrow> string"
    and inv :: "'e \<Rightarrow> bool"
  assumes inv_exec: "inv e \<Longrightarrow> inv (fst (exec c e))"
    and tagged: "inv e \<Longrightarrow> aid (snd (exec c e)) = cid c"
begin

fun run_all :: "'c list \<Rightarrow> 'e \<Rightarrow> 'e \<times> 'a list" where
  "run_all [] e = (e, [])"
| "run_all (c # cs) e = (let (e, a) = exec c e; (e, as) = run_all cs e in (e, a # as))"

lemma run_all_inv: "inv e \<Longrightarrow> inv (fst (run_all cs e))"
proof (induction cs arbitrary: e)
  case (Cons c cs)
  then show ?case using inv_exec [of e c] by (simp add: split_beta)
qed simp

lemma run_all_acks: "inv e \<Longrightarrow> map aid (snd (run_all cs e)) = map cid cs"
proof (induction cs arbitrary: e)
  case (Cons c cs)
  then show ?case using inv_exec [of e c] tagged [of e c] by (simp add: split_beta)
qed simp

end

section \<open>The cache of acknowledgements\<close>

definition exec_wf :: "Executor \<Rightarrow> bool" where
  "exec_wf e \<longleftrightarrow> distinct (order e) \<and> set (order e) = dom (recent e) \<and> length (order e) \<le> maxRecent \<and>
     (\<forall>cid a. recent e cid = Some a \<longrightarrow> ack_CommandID a = cid)"

lemma evict_small: "length (order e) \<le> maxRecent \<Longrightarrow> evict e = e"
  by (subst evict.simps) simp

lemma evict_one: "length (order e) = Suc maxRecent \<Longrightarrow>
    evict e = e\<lparr>recent := (recent e)(order e ! 0 := None), order := drop 1 (order e)\<rparr>"
  by (subst evict.simps) (simp add: evict_small)

lemma evict_form: "\<exists>r q. evict e = e\<lparr>recent := r, order := q\<rparr>"
proof (induction e rule: evict.induct)
  case (1 e)
  show ?case
  proof (cases "maxRecent < length (order e)")
    case True
    with 1 obtain r q where "evict (e\<lparr>recent := (recent e)(order e ! 0 := None), order := drop 1 (order e)\<rparr>) =
        e\<lparr>recent := (recent e)(order e ! 0 := None), order := drop 1 (order e)\<rparr>\<lparr>recent := r, order := q\<rparr>"
      by blast
    with True have "evict e = e\<lparr>recent := r, order := q\<rparr>"
      by (subst evict.simps) simp
    then show ?thesis by blast
  next
    case False
    then have "evict e = e\<lparr>recent := recent e, order := order e\<rparr>"
      by (subst evict.simps) simp
    then show ?thesis by blast
  qed
qed

lemma evict_other [simp]:
  "performed (evict e) = performed e" "agentVersion (evict e) = agentVersion e" "upgrade (evict e) = upgrade e"
  "has_tunnel (evict e) = has_tunnel e" "tunnelHost (evict e) = tunnelHost e" "pendingExit (evict e) = pendingExit e"
  "exe_fs (evict e) = exe_fs e" "has_reload (evict e) = has_reload e"
proof -
  obtain r q where "evict e = e\<lparr>recent := r, order := q\<rparr>"
    using evict_form by blast
  then show "performed (evict e) = performed e" "agentVersion (evict e) = agentVersion e"
    "upgrade (evict e) = upgrade e" "has_tunnel (evict e) = has_tunnel e" "tunnelHost (evict e) = tunnelHost e"
    "pendingExit (evict e) = pendingExit e" "exe_fs (evict e) = exe_fs e" "has_reload (evict e) = has_reload e"
    by simp_all
qed

text \<open>Executing a command does not touch the cache.\<close>

lemma perform_cache [simp]: "recent (perform x e) = recent e" "order (perform x e) = order e"
  by (simp_all add: perform_def)

lemma doReload_cache [simp]:
  "recent (fst (doReload env e)) = recent e" "order (fst (doReload env e)) = order e"
  by (simp_all add: doReload_def Let_def split: option.split)

lemma openTunnel_cache [simp]:
  "recent (fst (openTunnel env c e)) = recent e" "order (fst (openTunnel env c e)) = order e"
  by (simp_all add: openTunnel_def Let_def split: option.split sum.split)

lemma upgradeAgent_cache [simp]:
  "recent (fst (upgradeAgent env c e)) = recent e" "order (fst (upgradeAgent env c e)) = order e"
  by (auto simp: upgradeAgent_def Let_def split_beta split: option.split sum.split)

lemma execute_cache [simp]:
  "recent (fst (execute env t c e)) = recent e" "order (fst (execute env t c e)) = order e"
  by (simp_all add: execute_def)

lemma remember_fresh:
  assumes "exec_wf e" "recent e (ack_CommandID a) = None"
  shows "order (remember a e) = (if length (order e) = maxRecent then drop 1 (order e) else order e) @ [ack_CommandID a] \<and>
    recent (remember a e) = (if length (order e) = maxRecent then (recent e)(order e ! 0 := None) else recent e)
      (ack_CommandID a \<mapsto> a)"
proof (cases "length (order e) = maxRecent")
  case True
  then have ne: "order e \<noteq> []"
    by (auto simp: maxRecent_def)
  then have "order e ! 0 \<in> dom (recent e)"
    using assms(1) by (metis exec_wf_def length_greater_0_conv nth_mem)
  then have "order e ! 0 \<noteq> ack_CommandID a"
    using assms(2) by auto
  with True ne assms show ?thesis
    by (simp add: remember_def Let_def evict_one nth_append fun_upd_twist maxRecent_def)
next
  case False
  with assms show ?thesis
    by (simp add: remember_def Let_def evict_small exec_wf_def)
qed

lemma exec_wf_remember:
  assumes wf: "exec_wf e" and new: "recent e (ack_CommandID a) = None"
  shows "exec_wf (remember a e)"
proof -
  have dom: "distinct (order e)" "set (order e) = dom (recent e)" "length (order e) \<le> maxRecent"
    "ack_CommandID a \<notin> set (order e)"
    using assms by (auto simp: exec_wf_def)
  note r = remember_fresh [OF assms]
  show ?thesis
  proof (cases "length (order e) = maxRecent")
    case True
    then obtain x xs where o: "order e = x # xs"
      by (cases "order e") (auto simp: maxRecent_def)
    with True r dom show ?thesis
      using wf by (auto simp: exec_wf_def)
  next
    case False
    with r dom show ?thesis
      using wf by (auto simp: exec_wf_def)
  qed
qed

lemma exec_wf_execute [simp]: "exec_wf (fst (execute env t c e)) = exec_wf e"
  by (simp add: exec_wf_def)

lemma Execute_fresh:
  assumes "recent e (CommandID c) = None"
  obtains a where "Execute env t c e = (remember a (fst (execute env t c e)), a)" "ack_CommandID a = CommandID c"
  using assms that [of "(snd (execute env t c e))\<lparr>ack_CommandID := CommandID c\<rparr>"]
  by (simp add: Execute_def replay_def split_beta Let_def)

lemma Execute_replay: "recent e (CommandID c) = Some a \<Longrightarrow> Execute env t c e = (e, a)"
  by (simp add: Execute_def replay_def)

lemma exec_wf_Execute:
  assumes "exec_wf e"
  shows "exec_wf (fst (Execute env t c e)) \<and> ack_CommandID (snd (Execute env t c e)) = CommandID c"
proof (cases "recent e (CommandID c)")
  case None
  then obtain a where a: "Execute env t c e = (remember a (fst (execute env t c e)), a)" "ack_CommandID a = CommandID c"
    by (rule Execute_fresh)
  moreover have "exec_wf (remember a (fst (execute env t c e)))"
    using assms None a(2) by (intro exec_wf_remember) simp_all
  ultimately show ?thesis by simp
next
  case (Some a)
  with assms show ?thesis by (auto simp: Execute_replay exec_wf_def)
qed

type_synonym delivery = "exec_env \<times> time \<times> Command"

interpretation executor: command_executor
  "\<lambda>(env, t, c). Execute env t c" "\<lambda>(env, t, c). CommandID c" ack_CommandID exec_wf
  by unfold_locales (auto simp: exec_wf_Execute)

section \<open>Redelivery\<close>

text \<open>
  The acknowledgement \<open>a\<close> of command \<open>cid\<close> is cached, and only ids of \<open>S\<close> have been added to
  the eviction queue after it.
\<close>

definition recalls :: "string \<Rightarrow> CommandAck \<Rightarrow> string set \<Rightarrow> Executor \<Rightarrow> bool" where
  "recalls cid a S e \<longleftrightarrow> exec_wf e \<and> recent e cid = Some a \<and>
     (\<exists>pre post. order e = pre @ cid # post \<and> set post \<subseteq> S)"

lemma length_le_card: "distinct xs \<Longrightarrow> set xs \<subseteq> S \<Longrightarrow> finite S \<Longrightarrow> length xs \<le> card S"
  by (metis card_mono distinct_card)

lemma recallsI:
  "exec_wf e \<Longrightarrow> recent e cid = Some a \<Longrightarrow> order e = pre @ cid # post \<Longrightarrow> set post \<subseteq> S \<Longrightarrow> recalls cid a S e"
  unfolding recalls_def by blast

lemma recalls_Execute_fresh:
  assumes wf: "exec_wf e" and new: "recent e (CommandID c) = None"
  shows "recalls (CommandID c) (snd (Execute env t c e)) {} (fst (Execute env t c e))"
proof -
  obtain a where a: "Execute env t c e = (remember a (fst (execute env t c e)), a)" "ack_CommandID a = CommandID c"
    using Execute_fresh [OF new] .
  have "order (remember a (fst (execute env t c e))) =
      (if length (order e) = maxRecent then drop 1 (order e) else order e) @ [CommandID c]"
    "recent (remember a (fst (execute env t c e))) (CommandID c) = Some a"
    using remember_fresh [of "fst (execute env t c e)" a] wf new a(2) by simp_all
  with a exec_wf_Execute [OF wf, of env t c] show ?thesis
    unfolding recalls_def by force
qed

lemma recalls_Execute:
  assumes r: "recalls cid a S e" and small: "card (insert (CommandID c) S - {cid}) < maxRecent" and fin: "finite S"
  shows "recalls cid a (insert (CommandID c) S - {cid}) (fst (Execute env t c e))"
proof (cases "recent e (CommandID c)")
  case (Some b)
  from r obtain pre post where o: "order e = pre @ cid # post" "set post \<subseteq> S" "distinct (order e)"
    by (auto simp: recalls_def exec_wf_def)
  then have "set post \<subseteq> insert (CommandID c) S - {cid}"
    by auto
  with r o Some show ?thesis
    by (auto simp: recalls_def Execute_replay)
next
  case None
  from r obtain pre post where o: "order e = pre @ cid # post" "set post \<subseteq> S"
    and wf: "exec_wf e" and a: "recent e cid = Some a"
    by (auto simp: recalls_def)
  obtain b where b: "Execute env t c e = (remember b (fst (execute env t c e)), b)" "ack_CommandID b = CommandID c"
    using Execute_fresh [OF None] .
  let ?e = "remember b (fst (execute env t c e))" and ?S = "insert (CommandID c) S - {cid}"
  have ne: "cid \<noteq> CommandID c"
    using a None by auto
  have dist: "distinct (pre @ cid # post)"
    using wf o by (simp add: exec_wf_def)
  note rf = remember_fresh [of "fst (execute env t c e)" b]
  have wf': "exec_wf ?e"
    using exec_wf_Execute [OF wf, of env t c] b by simp
  show ?thesis
  proof (cases "length (order e) = maxRecent")
    case False
    then have "order ?e = pre @ cid # (post @ [CommandID c])" "recent ?e cid = Some a"
      using rf wf None b(2) o a ne by simp_all
    moreover have "set (post @ [CommandID c]) \<subseteq> ?S"
      using o(2) dist ne by auto
    ultimately show ?thesis
      unfolding b(1) fst_conv using wf' by (intro recallsI)
  next
    case True
    have "CommandID c \<notin> set post"
      using wf None o by (auto simp: exec_wf_def)
    then have "length (CommandID c # post) \<le> card ?S"
      using o(2) dist ne fin by (intro length_le_card) auto
    then have "Suc (length post) < maxRecent"
      using small by simp
    then obtain x pre' where pre: "pre = x # pre'"
      using True o by (cases pre) auto
    have "order ?e = pre' @ cid # (post @ [CommandID c])" "recent ?e cid = Some a"
      using rf wf None b(2) o a ne True dist pre by auto
    moreover have "set (post @ [CommandID c]) \<subseteq> ?S"
      using o(2) dist ne by auto
    ultimately show ?thesis
      unfolding b(1) fst_conv using wf' by (intro recallsI)
  qed
qed

lemma recalls_mono: "recalls cid a S e \<Longrightarrow> S \<subseteq> T \<Longrightarrow> recalls cid a T e"
  unfolding recalls_def by blast

lemma recalls_run_all:
  assumes "recalls cid a S e" "finite S" "S \<subseteq> T" "(\<lambda>(env, t, c). CommandID c) ` set ds - {cid} \<subseteq> T"
    and "finite T" "card T < maxRecent" "cid \<notin> T"
  shows "recalls cid a T (fst (executor.run_all ds e))"
  using assms
proof (induction ds arbitrary: e S)
  case Nil
  then show ?case by (auto intro: recalls_mono)
next
  case (Cons d ds)
  obtain env t c where d: "d = (env, t, c)" by (cases d)
  let ?S = "insert (CommandID c) S - {cid}"
  have sub: "?S \<subseteq> T"
    using Cons.prems(3,4) by (auto simp: d)
  then have "card ?S < maxRecent"
    using Cons.prems(5,6) by (meson card_mono le_less_trans)
  then have "recalls cid a ?S (fst (Execute env t c e))"
    using Cons.prems(1,2) by (intro recalls_Execute)
  moreover have "fst (executor.run_all (d # ds) e) = fst (executor.run_all ds (fst (Execute env t c e)))"
    by (simp add: d split: prod.split)
  moreover have "(\<lambda>(env, t, c). CommandID c) ` set ds - {cid} \<subseteq> T"
    using Cons.prems(4) by auto
  ultimately show ?case
    using Cons.IH [OF _ _ sub, of "fst (Execute env t c e)"] Cons.prems(2,5-7) by simp
qed

text \<open>
  C14. At most once: when the backend redelivers a command because the reply was lost, in
  whatever form and at whatever time, and fewer than 200 other commands have come in between,
  the agent answers with the original acknowledgement and does nothing: no reload, no tunnel,
  no upgrade happens a second time.
\<close>

theorem redelivery_is_harmless:
  assumes "exec_wf e" "recent e (CommandID c) = None" "Execute env t c e = (e1, a)"
    and "executor.run_all ds e1 = (e2, as)"
    and "card ((\<lambda>(env, t, c). CommandID c) ` set ds - {CommandID c}) < 200"
    and "CommandID c' = CommandID c"
  shows "Execute env' t' c' e2 = (e2, a)"
proof -
  let ?T = "(\<lambda>(env, t, c). CommandID c) ` set ds - {CommandID c}"
  have "recalls (CommandID c) a {} e1"
    using recalls_Execute_fresh [OF assms(1,2), of env t] assms(3) by simp
  then have "recalls (CommandID c) a ?T (fst (executor.run_all ds e1))"
    by (rule recalls_run_all) (use assms(5) in \<open>auto simp: maxRecent_def\<close>)
  then have "recent e2 (CommandID c) = Some a"
    by (simp add: assms(4) recalls_def)
  then show ?thesis
    using assms(6) by (simp add: Execute_replay)
qed

text \<open>
  C15. The whitelist: executing one delivered command has at most one effect, and only if the
  command is new and not expired by the server's clock. A reload needs the reload command; a
  tunnel is only opened by that command and only to the host the agent was configured with; an
  upgrade only happens when upgrades are enabled, and only to a strictly newer release. Any
  other type is refused as unsupported.
\<close>

theorem Execute_whitelist:
  assumes "Execute env t c e = (e', a)"
  shows "(performed e' = performed e \<or>
      (\<exists>x. performed e' = performed e @ [x] \<and> recent e (CommandID c) = None \<and>
         \<not> (\<exists>d. CmdExpiresAt c = Some d \<and> d < t) \<and>
         (case x of
            DoReload \<Rightarrow> CmdType c = ''reload''
          | DoOpenTunnel sid url \<Rightarrow> CmdType c = ''open_tunnel'' \<and> has_tunnel e \<and> sid \<noteq> '''' \<and> tunnelHost e \<noteq> '''' \<and>
              (\<exists>h. url_hostname env url = Some h \<and> h \<noteq> '''' \<and> equal_fold env h (tunnelHost e))
          | DoUpgrade plan \<Rightarrow> CmdType c = ''upgrade_agent'' \<and> upgrade e \<noteq> None \<and>
              isNewerRelease (ReleaseTag plan) (agentVersion e)))) \<and>
    (CmdType c \<notin> {''get_config'', ''reload'', ''ping'', ''upgrade_agent'', ''open_tunnel''} \<and>
       recent e (CommandID c) = None \<and> CmdExpiresAt c = None \<longrightarrow>
       Result a = ''failed'' \<and> ack_Error a = ''unsupported_type'')"
proof (cases "recent e (CommandID c)")
  case (Some b)
  with assms show ?thesis
    by (simp add: Execute_replay)
next
  case None
  obtain e1 b where ex: "execute env t c e = (e1, b)"
    by (cases "execute env t c e")
  have perf: "performed e' = performed e1" and a: "a = b\<lparr>ack_CommandID := CommandID c\<rparr>"
    using assms None ex by (auto simp: Execute_def replay_def Let_def remember_def split_beta)
  show ?thesis
    unfolding perf a using ex None
    by (auto simp: execute_def doReload_def openTunnel_def upgradeAgent_def perform_def sameHost_def Let_def
        split_beta CmdGetConfig_def CmdReload_def CmdPing_def CmdUpgradeAgent_def CmdOpenTunnel_def
        ack_failed_def ResultFailed_def ErrUnsupportedType_def split: option.splits if_splits sum.splits)
qed

definition sample_exec_env :: exec_env where
  "sample_exec_env = \<lparr>listen_ports = JObj [], node_secrets = JObj [], singbox_version = ''1.12'',
     decode_tunnel = (\<lambda>_. Inr \<lparr>op_SessionID = ''s1'', op_TunnelURL = ''wss://api/t'', op_ExpiresAt = None\<rparr>),
     decode_plan = (\<lambda>_. Inl ''bad''), url_hostname = (\<lambda>_. Some ''api''), equal_fold = (=),
     reload_result = None, open_result = (\<lambda>_ _. None), upgrade_env = sample_env [], upgrade_text = (\<lambda>_. '''')\<rparr>"

definition sample_command :: "string \<Rightarrow> string \<Rightarrow> Command" where
  "sample_command cid ty = \<lparr>CommandID = cid, CmdType = ty, CmdCreatedAt = 0, CmdExpiresAt = None, Payload = JNull\<rparr>"

definition sample_executor :: Executor where
  "sample_executor = EnableTunnel ''api'' (NewExecutor ''v1.0.0'' True Map.empty)"

lemma sample_executor_wf: "exec_wf sample_executor" "recent sample_executor = Map.empty"
  by (simp_all add: exec_wf_def sample_executor_def EnableTunnel_def NewExecutor_def)

lemma redelivery_is_harmless_witness:
  "let e1 = fst (Execute sample_exec_env 5 (sample_command ''c1'' ''reload'') sample_executor);
       e2 = fst (executor.run_all [(sample_exec_env, 6, sample_command ''c2'' ''ping'')] e1)
   in Execute sample_exec_env 7 (sample_command ''c1'' ''reload'') e2 =
        (e2, snd (Execute sample_exec_env 5 (sample_command ''c1'' ''reload'') sample_executor))"
  unfolding Let_def
proof (rule redelivery_is_harmless [OF sample_executor_wf(1)])
  let ?c = "sample_command ''c1'' ''reload''"
  show "recent sample_executor (CommandID ?c) = None"
    by (simp add: sample_executor_wf(2))
  show "Execute sample_exec_env 5 ?c sample_executor =
      (fst (Execute sample_exec_env 5 ?c sample_executor), snd (Execute sample_exec_env 5 ?c sample_executor))"
    by simp
  show "executor.run_all [(sample_exec_env, 6, sample_command ''c2'' ''ping'')] (fst (Execute sample_exec_env 5 ?c sample_executor)) =
      (fst (executor.run_all [(sample_exec_env, 6, sample_command ''c2'' ''ping'')] (fst (Execute sample_exec_env 5 ?c sample_executor))),
       snd (executor.run_all [(sample_exec_env, 6, sample_command ''c2'' ''ping'')] (fst (Execute sample_exec_env 5 ?c sample_executor))))"
    by simp
  show "card ((\<lambda>(env, t, c). CommandID c) ` set [(sample_exec_env, 6 :: time, sample_command ''c2'' ''ping'')] - {CommandID ?c}) < 200"
    by (simp add: sample_command_def)
qed simp

lemma Execute_whitelist_witness:
  "performed (fst (Execute sample_exec_env 5 (sample_command ''c1'' ''open_tunnel'') sample_executor)) =
     [DoOpenTunnel ''s1'' ''wss://api/t''] \<and>
   ack_Error (snd (Execute sample_exec_env 5 (sample_command ''c1'' ''rm'') sample_executor)) = ''unsupported_type''"
proof -
  let ?r = "Execute sample_exec_env 5 (sample_command ''c1'' ''rm'') sample_executor"
  have "ack_Error (snd ?r) = ''unsupported_type''"
    using Execute_whitelist [of sample_exec_env 5 "sample_command ''c1'' ''rm''" sample_executor "fst ?r" "snd ?r"]
    by (simp add: sample_executor_wf(2) sample_command_def)
  moreover have "performed (fst (Execute sample_exec_env 5 (sample_command ''c1'' ''open_tunnel'') sample_executor)) =
      [DoOpenTunnel ''s1'' ''wss://api/t'']"
    by (simp add: Execute_def replay_def sample_executor_wf(2) execute_def sample_command_def CmdGetConfig_def
        CmdReload_def CmdPing_def CmdUpgradeAgent_def CmdOpenTunnel_def openTunnel_def sample_exec_env_def
        sample_executor_def EnableTunnel_def NewExecutor_def sameHost_def perform_def Let_def remember_def
        evict_small maxRecent_def ack_done_def)
  ultimately show ?thesis by blast
qed

end
