(* ===== verification/EnrollClient.thy ===== *)
theory EnrollClient
  imports Complex_Main Executor
begin

text \<open>
  \<^verbatim>\<open>internal/enroll/client.go\<close>, the error and response types of \<^verbatim>\<open>wire.go\<close>, and
  \<^verbatim>\<open>nodefile.go\<close>: what the agent makes of a response of the backend, how long it backs off,
  and the file that holds the node's credentials.
\<close>

section \<open>Errors of the backend\<close>

record APIError =
  Code :: string
  Message :: string
  RetryAfterS :: int
  MinVersion :: string
  LatestRelease :: string

definition ErrBadRequest :: string where "ErrBadRequest = ''bad_request''"
definition ErrTokenInvalid :: string where "ErrTokenInvalid = ''token_invalid''"
definition ErrTokenExpired :: string where "ErrTokenExpired = ''token_expired''"
definition ErrTokenUsed :: string where "ErrTokenUsed = ''token_used''"
definition ErrNodeRevoked :: string where "ErrNodeRevoked = ''node_revoked''"
definition ErrNodeNotFound :: string where "ErrNodeNotFound = ''node_not_found''"
definition ErrAgentTooOld :: string where "ErrAgentTooOld = ''agent_too_old''"
definition ErrBootIDConflict :: string where "ErrBootIDConflict = ''boot_id_conflict''"
definition ErrServerInternal :: string where "ErrServerInternal = ''internal''"

definition IsTerminal :: "APIError \<Rightarrow> bool" where
  "IsTerminal e \<longleftrightarrow> Code e = ErrNodeRevoked \<or> Code e = ErrNodeNotFound"

definition IsFatalRegister :: "APIError \<Rightarrow> bool" where
  "IsFatalRegister e \<longleftrightarrow>
     Code e \<in> set [ErrBadRequest, ErrTokenInvalid, ErrTokenExpired, ErrTokenUsed, ErrAgentTooOld]"

definition APIError_Error :: "APIError \<Rightarrow> string" where
  "APIError_Error e = (if Message e \<noteq> '''' then Code e @ '': '' @ Message e else Code e)"

datatype client_error =
    API APIError
  | MarshalRequest | BuildRequest | RequestFailed | ReadResponse | DecodeResponse | MissingCredentials

section \<open>Requests\<close>

text \<open>The outcome of one HTTP exchange, up to the body that was read (at most 8 MiB).\<close>

datatype http_outcome =
    HMarshalError | HBuildError | HRequestError | HReadError
  | HResponse int string

text \<open>\<^verbatim>\<open>truncate\<close> appends the UTF-8 encoding of the ellipsis.\<close>

definition truncate_str :: "string \<Rightarrow> nat \<Rightarrow> string" where
  "truncate_str s n = (if length s \<le> n then s else take n s @ [CHR 0xE2, CHR 0x80, CHR 0xA6])"

text \<open>
  \<^verbatim>\<open>do\<close>: \<open>decode_error\<close> is \<^verbatim>\<open>json.Unmarshal\<close> into the given error struct (the struct afterwards
  and whether it succeeded), \<open>decode_out\<close> the decoder of the expected response.
\<close>

definition client_do ::
    "(string \<Rightarrow> APIError \<Rightarrow> APIError \<times> bool) \<Rightarrow> (string \<Rightarrow> 'r option) \<Rightarrow> http_outcome \<Rightarrow> client_error + 'r" where
  "client_do decode_error decode_out h =
     (case h of
        HMarshalError \<Rightarrow> Inl MarshalRequest
      | HBuildError \<Rightarrow> Inl BuildRequest
      | HRequestError \<Rightarrow> Inl RequestFailed
      | HReadError \<Rightarrow> Inl ReadResponse
      | HResponse status raw \<Rightarrow>
          if status < 200 \<or> 300 \<le> status then
            (let (apiErr, ok) = decode_error raw \<lparr>Code = ErrServerInternal, Message = '''', RetryAfterS = 0,
                                  MinVersion = '''', LatestRelease = ''''\<rparr>
             in if \<not> ok \<or> Code apiErr = '''' then
                  Inl (API (apiErr\<lparr>Code := ErrServerInternal,
                    Message := ''HTTP '' @ itoa status @ '': '' @ truncate_str raw 200\<rparr>))
                else Inl (API apiErr))
          else (case decode_out raw of None \<Rightarrow> Inl DecodeResponse | Some r \<Rightarrow> Inr r))"

text \<open>The node's parameters and the user-supplied parts of a request are JSON values here.\<close>

record RegisterRequest =
  rq_Contract :: int
  rq_Token :: string
  rq_MachineID :: string
  rq_AgentVersion :: string
  rq_SingboxVersion :: string
  rq_OS :: string
  rq_Arch :: string
  rq_ReportedIP :: string
  rq_ListenPorts :: json
  rq_Secrets :: json
  rq_BootID :: string

record RegisterResponse =
  rr_NodeID :: string
  rr_NodeSecret :: string
  rr_PollURL :: string
  rr_HeartbeatIntervalS :: int
  rr_PollMaxWaitS :: int
  rr_ServerTime :: time
  rr_Reenrolled :: bool

record PollResponse =
  ServerTime :: time
  Commands :: "Command list"
  Acked :: "string list"
  NextWaitS :: int

record PollStatus =
  SingboxRunning :: bool
  ListenPorts :: json
  UserCount :: int
  UptimeS :: int
  OwnerKeys :: "json list"

record UserStat =
  st_UUID :: string
  st_Up :: int
  st_Down :: int

record PollRequest =
  req_BootID :: string
  req_AgentVersion :: string
  req_Status :: PollStatus
  req_Stats :: "UserStat list"
  req_Acks :: "CommandAck list"

definition ContractVersion :: int where
  "ContractVersion = 1"

text \<open>\<^verbatim>\<open>Register\<close>: \<open>send\<close> is the exchange of the request it has completed.\<close>

definition Register ::
    "(string \<Rightarrow> APIError \<Rightarrow> APIError \<times> bool) \<Rightarrow> (string \<Rightarrow> RegisterResponse option) \<Rightarrow>
     (RegisterRequest \<Rightarrow> http_outcome) \<Rightarrow> RegisterRequest \<Rightarrow> client_error + RegisterResponse" where
  "Register decode_error decode_out send req =
     (let req = req\<lparr>rq_Contract := ContractVersion\<rparr>
      in case client_do decode_error decode_out (send req) of
        Inl e \<Rightarrow> Inl e
      | Inr out \<Rightarrow>
          if rr_NodeID out = '''' \<or> rr_NodeSecret out = '''' then Inl MissingCredentials else Inr out)"

text \<open>The wait that \<^verbatim>\<open>Poll\<close> asks for, and the URL and request it sends.\<close>

definition poll_wait :: "int \<Rightarrow> int" where
  "poll_wait wait = (let wait = (if wait < 0 then 0 else wait) in if 25 < wait then 25 else wait)"

definition poll_url :: "string \<Rightarrow> int \<Rightarrow> string" where
  "poll_url pollURL wait = pollURL @ ''?wait='' @ itoa (poll_wait wait)"

definition Poll ::
    "(string \<Rightarrow> APIError \<Rightarrow> APIError \<times> bool) \<Rightarrow> (string \<Rightarrow> PollResponse option) \<Rightarrow>
     (string \<Rightarrow> PollRequest \<Rightarrow> http_outcome) \<Rightarrow> string \<Rightarrow> string \<Rightarrow> int \<Rightarrow> PollRequest \<Rightarrow>
     client_error + PollResponse" where
  "Poll decode_error decode_out send version pollURL wait req =
     client_do decode_error decode_out
       (send (poll_url pollURL wait) (req\<lparr>req_AgentVersion := version\<rparr>))"

text \<open>\<^verbatim>\<open>strings.TrimRight(apiURL, "/")\<close> of \<^verbatim>\<open>NewClient\<close>.\<close>

definition TrimRight :: "string \<Rightarrow> char \<Rightarrow> string" where
  "TrimRight s c = rev (dropWhile (\<lambda>x. x = c) (rev s))"

text \<open>
  \<^verbatim>\<open>Backoff\<close>: \<open>r\<close> is the random number from \<open>[0, 1)\<close>; the floating-point product is exact here.
  Go's conversion to \<^verbatim>\<open>time.Duration\<close> truncates.
\<close>

definition Second :: int where
  "Second = 1000000000"

definition Backoff :: "rat \<Rightarrow> int \<Rightarrow> int" where
  "Backoff r attempt =
     (let attempt = (if attempt < 0 then 0 else attempt);
          d = push_bit (nat (min attempt 6)) Second;
          jitter = 1 + (r * 4 / 10 - 2 / 10);
          d = floor (of_int d * jitter)
      in if 60 * Second < d then 60 * Second else d)"

lemma floor_jitter:
  fixes r :: rat and d :: int
  assumes "0 \<le> r" "r < 1" "0 \<le> d" "d mod 5 = 0"
  shows "4 * (d div 5) \<le> \<lfloor>of_int d * (1 + (r * 4 / 10 - 2 / 10))\<rfloor>"
    and "\<lfloor>of_int d * (1 + (r * 4 / 10 - 2 / 10))\<rfloor> \<le> 6 * (d div 5)"
proof -
  obtain q where q: "d = 5 * q" "0 \<le> q"
    using assms(3,4) by (metis mod_0_imp_dvd dvdE zero_le_mult_iff zero_less_numeral not_less)
  have eq: "of_int d * (1 + (r * 4 / 10 - 2 / 10)) = of_int (4 * q) + 2 * of_int q * r"
    by (simp add: q field_simps)
  have "0 \<le> 2 * of_int q * r"
    using q assms(1) by simp
  then show "4 * (d div 5) \<le> \<lfloor>of_int d * (1 + (r * 4 / 10 - 2 / 10))\<rfloor>"
    unfolding eq le_floor_iff using q by simp
  have "2 * of_int q * r \<le> 2 * of_int q"
    using q assms(2) by (simp add: mult_left_le)
  then have "of_int (4 * q) + 2 * of_int q * r \<le> (of_int (6 * q) :: rat)"
    by simp
  then have "\<lfloor>of_int (4 * q) + 2 * of_int q * r\<rfloor> \<le> 6 * q"
    by (metis floor_mono floor_of_int)
  then show "\<lfloor>of_int d * (1 + (r * 4 / 10 - 2 / 10))\<rfloor> \<le> 6 * (d div 5)"
    unfolding eq using q by simp
qed

text \<open>
  The back-off doubles and stays within bounds: after attempt \<open>k\<close> the agent waits, jitter
  included, between 80 and 120 percent of \<open>2\<^sup>k\<close> seconds (of 64 seconds from the sixth attempt
  on), and never more than 60 seconds.
\<close>

theorem Backoff_bounds:
  assumes "0 \<le> r" "r < 1"
  shows "800000000 * 2 ^ nat (min (max attempt 0) 6) \<le> Backoff r attempt \<and>
    Backoff r attempt \<le> min (60 * Second) (1200000000 * 2 ^ nat (min (max attempt 0) 6))"
proof -
  define k where "k = nat (min (max attempt 0) 6)"
  define d :: int where "d = 1000000000 * 2 ^ k"
  have d: "d = push_bit k Second" "d mod 5 = 0" "d div 5 = 200000000 * 2 ^ k" "0 \<le> d"
    by (simp_all add: d_def push_bit_eq_mult Second_def)
  have k: "k \<le> 6"
    by (simp add: k_def)
  then have "(2 :: int) ^ k \<le> 2 ^ 6"
    by (rule power_increasing) simp
  then have "800000000 * 2 ^ k \<le> 60 * Second"
    by (simp add: Second_def)
  moreover have "Backoff r attempt = min (60 * Second) \<lfloor>of_int d * (1 + (r * 4 / 10 - 2 / 10))\<rfloor>"
    by (auto simp: Backoff_def Let_def d(1) k_def min_def max_def)
  ultimately show ?thesis
    using floor_jitter [OF assms d(4,2)] d(3) unfolding k_def [symmetric] by auto
qed

lemma Backoff_bounds_witness: "1600000000 \<le> Backoff (1/2) 1 \<and> Backoff (1/2) 1 \<le> 2400000000"
  using Backoff_bounds [of "1/2" 1] by simp

section \<open>Credentials on disk\<close>

record NodeFile =
  Contract :: int
  nf_NodeID :: string
  nf_NodeSecret :: string
  nf_MachineID :: string
  nf_APIURL :: string
  nf_PollURL :: string
  EnrolledAt :: time

text \<open>What reading \<^verbatim>\<open>node.json\<close> gives: the file is absent, cannot be read, or has a content.\<close>

datatype node_disk = NodeAbsent | NodeUnreadable | NodeContent string

datatype node_error = ReadNode | ParseNode | NodeIncomplete

definition LoadNodeFile :: "(string \<Rightarrow> NodeFile option) \<Rightarrow> node_disk \<Rightarrow> node_error + NodeFile option" where
  "LoadNodeFile decode d =
     (case d of
        NodeAbsent \<Rightarrow> Inr None
      | NodeUnreadable \<Rightarrow> Inl ReadNode
      | NodeContent b \<Rightarrow>
          (case decode b of
             None \<Rightarrow> Inl ParseNode
           | Some nf \<Rightarrow>
               if nf_NodeID nf = '''' \<or> nf_NodeSecret nf = '''' then Inl NodeIncomplete else Inr (Some nf)))"

text \<open>
  \<^verbatim>\<open>SaveNodeFile\<close> as the sequence of states a reader of the directory can observe: \<open>final\<close> is
  \<^verbatim>\<open>node.json\<close>, \<open>tmp\<close> the temporary file. \<open>fails\<close> is the step that fails, if any; a failing
  write leaves \<open>partial\<close> in the temporary file. The deferred removal of the temporary file is
  the last step.
\<close>

record node_dir =
  final :: node_disk
  tmp :: "string option"

datatype save_step = StepMkdir | StepMarshal | StepCreate | StepWrite | StepChmod | StepSync | StepClose | StepRename

definition SaveNodeFile ::
    "(NodeFile \<Rightarrow> string) \<Rightarrow> save_step option \<Rightarrow> string \<Rightarrow> NodeFile \<Rightarrow> node_dir \<Rightarrow> node_dir list \<times> save_step option" where
  "SaveNodeFile encode fails partial nf d =
     (if fails = Some StepMkdir then ([d], fails)
      else
        (let nf = nf\<lparr>Contract := ContractVersion\<rparr>;
             b = encode nf
         in if fails = Some StepMarshal \<or> fails = Some StepCreate then ([d], fails)
            else
              (let d1 = d\<lparr>tmp := Some ''''\<rparr>
               in if fails = Some StepWrite
                  then ([d, d1, d1\<lparr>tmp := Some partial\<rparr>, d1\<lparr>tmp := None\<rparr>], fails)
                  else
                    (let d2 = d1\<lparr>tmp := Some b\<rparr>
                     in if fails = None
                        then ([d, d1, d2, d2\<lparr>final := NodeContent b, tmp := None\<rparr>], None)
                        else ([d, d1, d2, d2\<lparr>tmp := None\<rparr>], fails)))))"

definition RemoveNodeFile :: "bool \<Rightarrow> node_dir \<Rightarrow> node_dir \<times> bool" where
  "RemoveNodeFile remove_ok d =
     (case final d of
        NodeAbsent \<Rightarrow> (d, True)
      | _ \<Rightarrow> if remove_ok then (d\<lparr>final := NodeAbsent\<rparr>, True) else (d, False))"

text \<open>
  C27. Saving the credentials is atomic: at every moment, also when the machine dies in the
  middle, \<^verbatim>\<open>node.json\<close> is what it was before or the complete new file; it is the new file
  exactly when the call reports success, and then loading gives the saved credentials back.
\<close>

theorem SaveNodeFile_atomic:
  assumes "SaveNodeFile encode fails partial nf d = (states, r)"
    and "decode (encode (nf\<lparr>Contract := ContractVersion\<rparr>)) = Some (nf\<lparr>Contract := ContractVersion\<rparr>)"
    and "nf_NodeID nf \<noteq> ''''" "nf_NodeSecret nf \<noteq> ''''"
  shows "(\<forall>s \<in> set states. final s = final d \<or>
      LoadNodeFile decode (final s) = Inr (Some (nf\<lparr>Contract := ContractVersion\<rparr>))) \<and>
    (r = None \<longrightarrow> LoadNodeFile decode (final (last states)) = Inr (Some (nf\<lparr>Contract := ContractVersion\<rparr>))) \<and>
    (r \<noteq> None \<longrightarrow> final (last states) = final d)"
  using assms by (auto simp: SaveNodeFile_def LoadNodeFile_def Let_def split: if_splits)

lemma SaveNodeFile_atomic_witness:
  "let nf = \<lparr>Contract = 0, nf_NodeID = ''n'', nf_NodeSecret = ''s'', nf_MachineID = '''', nf_APIURL = '''',
             nf_PollURL = '''', EnrolledAt = 0\<rparr>
   in final (last (fst (SaveNodeFile (\<lambda>_. ''doc'') (Some StepRename) '''' nf \<lparr>final = NodeAbsent, tmp = None\<rparr>))) = NodeAbsent"
proof -
  let ?nf = "\<lparr>Contract = 0, nf_NodeID = ''n'', nf_NodeSecret = ''s'', nf_MachineID = '''', nf_APIURL = '''',
             nf_PollURL = '''', EnrolledAt = 0\<rparr>" and ?d = "\<lparr>final = NodeAbsent, tmp = None\<rparr>"
  let ?r = "SaveNodeFile (\<lambda>_. ''doc'') (Some StepRename) '''' ?nf ?d"
  have "snd ?r \<noteq> None \<longrightarrow> final (last (fst ?r)) = final ?d"
    using SaveNodeFile_atomic [where nf = ?nf and d = ?d and decode = "\<lambda>_. Some (?nf\<lparr>Contract := ContractVersion\<rparr>)"
        and encode = "\<lambda>_. ''doc''" and fails = "Some StepRename" and partial = "''''"
        and states = "fst ?r" and r = "snd ?r"]
    by simp
  then show ?thesis
    by (simp add: SaveNodeFile_def Let_def)
qed

end
