(* ===== verification/Runner.thy ===== *)
theory Runner
  imports EnrollClient
begin

text \<open>
  \<^verbatim>\<open>internal/enroll/runner.go\<close>: registration and the long-poll loop. One pass of the loop is
  \<open>run_round\<close>; what the network, the clock, the context and the other components do in the pass
  is its input \<open>round_in\<close>. The result is the new state, the request that was sent, the time the
  pass slept, and the value the loop returned, if it did.
\<close>

section \<open>Registration\<close>

datatype register_result =
    Registered RegisterResponse
  | RegisterFatal APIError
  | RegisterCancelled
  | StillTrying nat

text \<open>
  One attempt: what \<^verbatim>\<open>Client.Register\<close> returned, whether the context was cancelled by then, the
  random number of the back-off, and whether the sleep ran to its end.
\<close>

record attempt_in =
  reg_result :: "client_error + RegisterResponse"
  ctx_done :: bool
  reg_rand :: rat
  slept :: bool

definition retry_delay :: "rat \<Rightarrow> nat \<Rightarrow> client_error \<Rightarrow> int" where
  "retry_delay r k err =
     (let d = Backoff r (int k)
      in case err of
           API apiErr \<Rightarrow>
             if 0 < RetryAfterS apiErr then
               (let ra = i64 (RetryAfterS apiErr * Second) in if d < ra then ra else d)
             else d
         | _ \<Rightarrow> d)"

text \<open>The registration loop over the attempts that have happened, with the delays it slept.\<close>

fun register_loop :: "nat \<Rightarrow> attempt_in list \<Rightarrow> register_result \<times> int list" where
  "register_loop k [] = (StillTrying k, [])"
| "register_loop k (a # as) =
     (case reg_result a of
        Inr resp \<Rightarrow> (Registered resp, [])
      | Inl err \<Rightarrow>
          if ctx_done a then (RegisterCancelled, [])
          else if (case err of API apiErr \<Rightarrow> IsFatalRegister apiErr | _ \<Rightarrow> False)
          then (RegisterFatal (case err of API apiErr \<Rightarrow> apiErr), [])
          else
            (let d = retry_delay (reg_rand a) k err
             in if \<not> slept a then (RegisterCancelled, [d])
                else (let (r, ds) = register_loop (Suc k) as in (r, d # ds))))"

section \<open>The poll loop\<close>

record Runner =
  ExePathR :: string
  bootID :: string
  RunnerVersion :: string
  failures :: nat
  pendingAcks :: "CommandAck list"
  executor_of :: Executor
  attempt :: int
  wait :: int

datatype run_exit = ExitCancelled | ExitRevoked | ExitUpgraded

text \<open>
  What the request of one pass reports: the callbacks \<^verbatim>\<open>SingboxRunning\<close> and \<^verbatim>\<open>OwnerKeys\<close> (\<open>None\<close>
  when they are nil; the second may itself return nil), the ports, the number of users, the time
  since the start, and the traffic source (\<open>None\<close> when nil; its map in the order of \<^verbatim>\<open>range\<close>).
\<close>

record status_in =
  singbox_fn :: "bool option"
  ports_now :: json
  users_now :: nat
  since_start :: time
  owner_fn :: "json list option option"
  stats_src :: "(string + UserStat list) option"

definition singboxRunning :: "bool option \<Rightarrow> bool" where
  "singboxRunning f = (case f of None \<Rightarrow> False | Some b \<Rightarrow> b)"

definition ownerKeys :: "json list option option \<Rightarrow> json list" where
  "ownerKeys f = (case f of None \<Rightarrow> [] | Some r \<Rightarrow> (case r of Some keys \<Rightarrow> keys | None \<Rightarrow> []))"

definition collectStats :: "(string + UserStat list) option \<Rightarrow> UserStat list" where
  "collectStats src = (case src of None \<Rightarrow> [] | Some r \<Rightarrow> (case r of Inl err \<Rightarrow> [] | Inr m \<Rightarrow> m))"

record round_in =
  cancelled_before :: bool
  status_of :: status_in
  poll_result :: "client_error + PollResponse"
  cancelled_after :: bool
  rollback_ok :: bool
  prev_removable :: bool
  round_rand :: rat
  sleep_done :: bool
  elapsed :: time
  exec_envs :: "nat \<Rightarrow> exec_env"

definition minPollGap :: time where
  "minPollGap = Second"

definition clampWait :: "int \<Rightarrow> int" where
  "clampWait n = (if n \<le> 0 \<or> 25 < n then 25 else n)"

definition shouldRollback :: "Runner \<Rightarrow> bool" where
  "shouldRollback s \<longleftrightarrow> ExePathR s \<noteq> '''' \<and> 3 \<le> failures s \<and>
     HasPrevVersion (ExePathR s) (exe_fs (executor_of s))"

definition allAcksConfirmed :: "Runner \<Rightarrow> bool" where
  "allAcksConfirmed s \<longleftrightarrow> length (pendingAcks s) = 0"

definition dropAcked :: "string list \<Rightarrow> Runner \<Rightarrow> Runner" where
  "dropAcked acked s =
     (if length acked = 0 \<or> length (pendingAcks s) = 0 then s
      else s\<lparr>pendingAcks := filter (\<lambda>a. ack_CommandID a \<notin> set acked) (pendingAcks s)\<rparr>)"

text \<open>\<^verbatim>\<open>pollOnce\<close> up to the exchange; \<^verbatim>\<open>Poll\<close> fills in the agent's version.\<close>

definition poll_request :: "status_in \<Rightarrow> Runner \<Rightarrow> PollRequest" where
  "poll_request i s =
     \<lparr>req_BootID = bootID s, req_AgentVersion = RunnerVersion s,
      req_Status = \<lparr>SingboxRunning = singboxRunning (singbox_fn i), ListenPorts = ports_now i,
        UserCount = int (users_now i), UptimeS = since_start i div Second, OwnerKeys = ownerKeys (owner_fn i)\<rparr>,
      req_Stats = collectStats (stats_src i), req_Acks = pendingAcks s\<rparr>"

definition set_fs :: "fsys \<Rightarrow> Runner \<Rightarrow> Runner" where
  "set_fs fs s = s\<lparr>executor_of := (executor_of s)\<lparr>exe_fs := fs\<rparr>\<rparr>"

text \<open>The branch of a failed poll: the new state, the sleep, and the return value.\<close>

definition poll_failed :: "round_in \<Rightarrow> client_error \<Rightarrow> Runner \<Rightarrow> Runner \<times> time \<times> run_exit option" where
  "poll_failed i err s =
     (if cancelled_after i then (s, 0, Some ExitCancelled)
      else if (case err of API e \<Rightarrow> IsTerminal e | _ \<Rightarrow> False) then (s, 0, Some ExitRevoked)
      else if (case err of API e \<Rightarrow> Code e = ErrBootIDConflict | _ \<Rightarrow> False) then
        (if sleep_done i then (s, 60 * Second, None) else (s, 0, Some ExitCancelled))
      else
        (let s = s\<lparr>attempt := attempt s + 1, failures := Suc (failures s)\<rparr>;
             (fs, rolled) =
               (if shouldRollback s then
                  (case Rollback (rollback_ok i) (ExePathR s) (exe_fs (executor_of s)) of
                     (fs, None) \<Rightarrow> (fs, True) | (fs, Some _) \<Rightarrow> (fs, False))
                else (exe_fs (executor_of s), False));
             s = set_fs fs s
         in if rolled then (s, 0, Some ExitUpgraded)
            else if sleep_done i then (s, Backoff (round_rand i) (attempt s), None)
            else (s, 0, Some ExitCancelled)))"

text \<open>The commands of a response, each with the environment of its execution.\<close>

definition deliveries :: "round_in \<Rightarrow> PollResponse \<Rightarrow> delivery list" where
  "deliveries i resp = map (\<lambda>(k, c). (exec_envs i k, ServerTime resp, c)) (enumerate 0 (Commands resp))"

definition poll_succeeded :: "round_in \<Rightarrow> PollResponse \<Rightarrow> Runner \<Rightarrow> Runner \<times> time \<times> run_exit option" where
  "poll_succeeded i resp s =
     (let s = s\<lparr>attempt := 0\<rparr>;
          s = (if 0 < failures s \<or> ExePathR s \<noteq> '''' then
                 (let s = s\<lparr>failures := 0\<rparr>;
                      fs = exe_fs (executor_of s)
                  in if ExePathR s \<noteq> '''' \<and> HasPrevVersion (ExePathR s) fs
                     then set_fs (ClearPrevVersion (prev_removable i) (ExePathR s) fs) s else s)
               else s);
          s = dropAcked (Acked resp) s
      in if PendingExit (executor_of s) \<and> allAcksConfirmed s then (s, 0, Some ExitUpgraded)
         else
           (let (e, acks) = executor.run_all (deliveries i resp) (executor_of s);
                s = s\<lparr>executor_of := e, pendingAcks := pendingAcks s @ acks,
                      wait := (if 0 < length acks then 0 else clampWait (NextWaitS resp))\<rparr>
            in if elapsed i < minPollGap then
                 (if sleep_done i then (s, minPollGap - elapsed i, None) else (s, 0, Some ExitCancelled))
               else (s, 0, None)))"

definition run_round :: "round_in \<Rightarrow> Runner \<Rightarrow> Runner \<times> PollRequest option \<times> time \<times> run_exit option" where
  "run_round i s =
     (if cancelled_before i then (s, None, 0, Some ExitCancelled)
      else
        (let (s', t, r) = (case poll_result i of
                             Inl err \<Rightarrow> poll_failed i err s
                           | Inr resp \<Rightarrow> poll_succeeded i resp s)
         in (s', Some (poll_request (status_of i) s), t, r)))"

text \<open>The loop over the passes that have happened; it stops at the first that returns.\<close>

fun run_rounds :: "round_in list \<Rightarrow> Runner \<Rightarrow> Runner \<times> run_exit option" where
  "run_rounds [] s = (s, None)"
| "run_rounds (i # is) s =
     (case run_round i s of
        (s', _, _, Some r) \<Rightarrow> (s', Some r)
      | (s', _, _, None) \<Rightarrow> run_rounds is s')"

definition start_run :: "string \<Rightarrow> string \<Rightarrow> string \<Rightarrow> Executor \<Rightarrow> Runner" where
  "start_run exe boot version e =
     \<lparr>ExePathR = exe, bootID = boot, RunnerVersion = version, failures = 0, pendingAcks = [],
      executor_of = e, attempt = 0, wait = 25\<rparr>"

section \<open>What one pass does\<close>

lemma dropAcked_pending [simp]:
  "pendingAcks (dropAcked acked s) = filter (\<lambda>a. ack_CommandID a \<notin> set acked) (pendingAcks s)"
  by (auto simp: dropAcked_def)

lemma dropAcked_other [simp]:
  "executor_of (dropAcked acked s) = executor_of s" "ExePathR (dropAcked acked s) = ExePathR s"
  "failures (dropAcked acked s) = failures s" "attempt (dropAcked acked s) = attempt s"
  by (simp_all add: dropAcked_def)

lemma set_fs_simps [simp]:
  "pendingAcks (set_fs fs s) = pendingAcks s" "ExePathR (set_fs fs s) = ExePathR s" "failures (set_fs fs s) = failures s"
  "attempt (set_fs fs s) = attempt s" "executor_of (set_fs fs s) = (executor_of s)\<lparr>exe_fs := fs\<rparr>"
  by (simp_all add: set_fs_def)

lemma exec_wf_fs [simp]: "exec_wf (e\<lparr>exe_fs := fs\<rparr>) = exec_wf e"
  by (simp add: exec_wf_def)

lemma map_snd_enumerate: "map snd (enumerate n xs) = xs"
  by (rule nth_equalityI) simp_all

lemma deliveries_ids:
  "map (\<lambda>(env, t, c). CommandID c) (deliveries i resp) = map CommandID (Commands resp)"
proof -
  have "map (\<lambda>(env, t, c). CommandID c) (deliveries i resp) = map (CommandID \<circ> snd) (enumerate 0 (Commands resp))"
    by (simp add: deliveries_def comp_def split_beta)
  then show ?thesis by (simp only: map_map [symmetric] map_snd_enumerate)
qed

text \<open>The executor the commands of a response run on: the backup of the old version may be gone.\<close>

lemma poll_failed_keeps:
  assumes "poll_failed i err s = (s', t, r)"
  shows "pendingAcks s' = pendingAcks s" "exec_wf (executor_of s') = exec_wf (executor_of s)" "ExePathR s' = ExePathR s"
    "pendingExit (executor_of s') = pendingExit (executor_of s)"
  using assms by (auto simp: poll_failed_def Let_def split_beta split: if_splits)

lemma poll_succeeded_continues:
  assumes "poll_succeeded i resp s = (s', t, None)" "exec_wf (executor_of s)"
  shows "\<exists>acks. pendingAcks s' = filter (\<lambda>a. ack_CommandID a \<notin> set (Acked resp)) (pendingAcks s) @ acks \<and>
    map ack_CommandID acks = map CommandID (Commands resp)" "exec_wf (executor_of s')" "ExePathR s' = ExePathR s"
proof -
  define e0 where "e0 = executor_of (if 0 < failures s \<or> ExePathR s \<noteq> '''' then
      (if ExePathR s \<noteq> '''' \<and> HasPrevVersion (ExePathR s) (exe_fs (executor_of s))
       then set_fs (ClearPrevVersion (prev_removable i) (ExePathR s) (exe_fs (executor_of s))) s else s) else s)"
  have wf: "exec_wf e0"
    using assms(2) by (simp add: e0_def)
  obtain e acks where run: "executor.run_all (deliveries i resp) e0 = (e, acks)"
    by (cases "executor.run_all (deliveries i resp) e0")
  have "map ack_CommandID acks = map CommandID (Commands resp)"
    using executor.run_all_acks [OF wf, of "deliveries i resp"] by (simp add: run deliveries_ids)
  moreover have "pendingAcks s' = filter (\<lambda>a. ack_CommandID a \<notin> set (Acked resp)) (pendingAcks s) @ acks \<and>
      executor_of s' = e \<and> ExePathR s' = ExePathR s"
    using assms(1) run unfolding e0_def
    by (auto simp: poll_succeeded_def Let_def split_beta split: if_splits)
  ultimately show "\<exists>acks. pendingAcks s' = filter (\<lambda>a. ack_CommandID a \<notin> set (Acked resp)) (pendingAcks s) @ acks \<and>
      map ack_CommandID acks = map CommandID (Commands resp)" "exec_wf (executor_of s')" "ExePathR s' = ExePathR s"
    using executor.run_all_inv [OF wf, of "deliveries i resp"] run by auto
qed

lemma run_round_cases:
  assumes "run_round i s = (s', q, t, r)"
  obtains (before) "cancelled_before i" "s' = s" "r = Some ExitCancelled" "q = None"
  | (failed) err where "poll_result i = Inl err" "poll_failed i err s = (s', t, r)" "q = Some (poll_request (status_of i) s)"
  | (succeeded) resp where "poll_result i = Inr resp" "poll_succeeded i resp s = (s', t, r)"
      "q = Some (poll_request (status_of i) s)"
  using assms
  by (auto simp: run_round_def split: if_splits sum.splits prod.splits)

text \<open>The ids the backend has confirmed, and the commands it has delivered, in one pass.\<close>

definition round_acked :: "round_in \<Rightarrow> string set" where
  "round_acked i = (case poll_result i of Inr resp \<Rightarrow> set (Acked resp) | Inl _ \<Rightarrow> {})"

definition round_commands :: "round_in \<Rightarrow> string set" where
  "round_commands i = (case poll_result i of Inr resp \<Rightarrow> CommandID ` set (Commands resp) | Inl _ \<Rightarrow> {})"

definition pending_ids :: "Runner \<Rightarrow> string set" where
  "pending_ids s = ack_CommandID ` set (pendingAcks s)"

lemma round_pending:
  assumes "run_round i s = (s', q, t, None)" "exec_wf (executor_of s)"
  shows "pending_ids s' = (pending_ids s - round_acked i) \<union> round_commands i \<and> exec_wf (executor_of s')"
  using assms(1)
proof (cases rule: run_round_cases)
  case (failed err)
  then show ?thesis
    using poll_failed_keeps [OF failed(2)] assms(2)
    by (simp add: pending_ids_def round_acked_def round_commands_def)
next
  case (succeeded resp)
  obtain acks where acks: "pendingAcks s' = filter (\<lambda>a. ack_CommandID a \<notin> set (Acked resp)) (pendingAcks s) @ acks"
    "map ack_CommandID acks = map CommandID (Commands resp)"
    using poll_succeeded_continues(1) [OF succeeded(2) assms(2)] by blast
  have "ack_CommandID ` set acks = CommandID ` set (Commands resp)"
    using arg_cong [OF acks(2), of set] by simp
  then show ?thesis
    using acks(1) succeeded(1) poll_succeeded_continues(2) [OF succeeded(2) assms(2)]
    by (auto simp: pending_ids_def round_acked_def round_commands_def)
qed simp

lemma rounds_pending:
  "run_rounds is s = (s', None) \<Longrightarrow> exec_wf (executor_of s) \<Longrightarrow>
     pending_ids s - (\<Union>i \<in> set is. round_acked i) \<subseteq> pending_ids s'"
proof (induction "is" arbitrary: s)
  case (Cons i "is")
  obtain s1 q t r where r: "run_round i s = (s1, q, t, r)" by (cases "run_round i s")
  with Cons.prems(1) have "r = None" "run_rounds is s1 = (s', None)"
    by (auto split: option.splits)
  with r round_pending [of i s s1 q t] Cons.IH [of s1] Cons.prems(2) show ?case
    by auto
qed simp

lemma run_rounds_append:
  "run_rounds (is @ js) s = (s', None) \<Longrightarrow> \<exists>s1. run_rounds is s = (s1, None) \<and> run_rounds js s1 = (s', None)"
  by (induction "is" arbitrary: s) (auto split: prod.splits option.splits)

lemma run_rounds_wf:
  "run_rounds is s = (s', None) \<Longrightarrow> exec_wf (executor_of s) \<Longrightarrow> exec_wf (executor_of s')"
proof (induction "is" arbitrary: s)
  case (Cons i "is")
  obtain s1 q t r where r: "run_round i s = (s1, q, t, r)" by (cases "run_round i s")
  with Cons.prems(1) have "r = None" "run_rounds is s1 = (s', None)"
    by (auto split: option.splits)
  with r round_pending [of i s s1 q t] Cons show ?case by auto
qed simp

text \<open>
  C18. No acknowledgement is lost: a command that was delivered in some pass is answered in
  every later request, through failed polls and new commands alike, until the backend has
  listed its id as acknowledged.
\<close>

theorem acks_are_resent:
  assumes "exec_wf (executor_of s)"
    and "run_rounds (before @ i # after) s = (s', None)"
    and "cid \<in> round_commands i"
    and "\<forall>j \<in> set after. cid \<notin> round_acked j"
  shows "\<exists>a \<in> set (req_Acks (poll_request st s')). ack_CommandID a = cid"
proof -
  obtain s1 where s1: "run_rounds before s = (s1, None)" "run_rounds (i # after) s1 = (s', None)"
    using run_rounds_append [OF assms(2)] by blast
  have wf1: "exec_wf (executor_of s1)"
    using run_rounds_wf s1(1) assms(1) by blast
  obtain s2 q t r where r: "run_round i s1 = (s2, q, t, r)" by (cases "run_round i s1")
  with s1(2) have s2: "r = None" "run_rounds after s2 = (s', None)"
    by (auto split: option.splits)
  have "cid \<in> pending_ids s2" "exec_wf (executor_of s2)"
    using round_pending [of i s1 s2 q t] r s2(1) wf1 assms(3) by auto
  then have "cid \<in> pending_ids s'"
    using rounds_pending [OF s2(2)] assms(4) by blast
  then show ?thesis
    by (auto simp: pending_ids_def poll_request_def)
qed

section \<open>Pace\<close>

text \<open>
  The agent never spins: a pass that goes on to the next one takes at least one second,
  from the start of its request to the start of the next, whether the backend answers at
  once, refuses, or cannot be reached.
\<close>

theorem rounds_are_paced:
  assumes "run_round i s = (s', q, t, None)" "0 \<le> elapsed i" "0 \<le> round_rand i" "round_rand i < 1" "0 \<le> attempt s"
  shows "1000000000 \<le> elapsed i + t"
  using assms(1)
proof (cases rule: run_round_cases)
  case (failed err)
  have "1600000000 \<le> Backoff (round_rand i) (attempt s + 1)"
  proof -
    have "(2 :: int) ^ 1 \<le> 2 ^ nat (min (max (attempt s + 1) 0) 6)"
      using assms(5) by (intro power_increasing) auto
    then show ?thesis
      using Backoff_bounds [OF assms(3,4), of "attempt s + 1", THEN conjunct1] by (simp only: power_one_right)
  qed
  then show ?thesis
    using failed(2) assms(2)
    by (auto simp: poll_failed_def Let_def split_beta Second_def split: if_splits)
next
  case (succeeded resp)
  then show ?thesis
    by (auto simp: poll_succeeded_def Let_def split_beta minPollGap_def Second_def split: if_splits)
qed simp

text \<open>Concrete passes for the examples below.\<close>

definition ok_response :: "Command list \<Rightarrow> string list \<Rightarrow> PollResponse" where
  "ok_response cs acked = \<lparr>ServerTime = 5, Commands = cs, Acked = acked, NextWaitS = 25\<rparr>"

definition sample_status :: status_in where
  "sample_status = \<lparr>singbox_fn = None, ports_now = JObj [], users_now = 0, since_start = 0, owner_fn = None,
     stats_src = None\<rparr>"

definition pass :: "client_error + PollResponse \<Rightarrow> round_in" where
  "pass r = \<lparr>cancelled_before = False, status_of = sample_status, poll_result = r, cancelled_after = False, rollback_ok = True, prev_removable = True,
     round_rand = 1/2, sleep_done = True, elapsed = 2000000000, exec_envs = (\<lambda>_. sample_exec_env)\<rparr>"

definition sample_runner :: Runner where
  "sample_runner = start_run '''' ''b1'' ''v1.0.0'' sample_executor"

lemmas sample_runner_defs = sample_runner_def start_run_def pass_def ok_response_def

lemma sample_round1:
  "\<exists>s1. run_round (pass (Inr (ok_response [sample_command ''c1'' ''ping''] []))) sample_runner =
      (s1, Some (poll_request sample_status sample_runner), 0, None)"
  by (auto simp: run_round_def poll_succeeded_def sample_runner_defs dropAcked_def PendingExit_def
      allAcksConfirmed_def sample_executor_def EnableTunnel_def NewExecutor_def Let_def minPollGap_def Second_def
      split_beta)

lemma sample_round2:
  "\<exists>s2. run_round (pass (Inl RequestFailed)) s = (s2, Some (poll_request sample_status s), Backoff (1/2) (attempt s + 1), None)"
  if "ExePathR s = ''''" for s
  using that
  by (auto simp: run_round_def poll_failed_def pass_def shouldRollback_def Let_def)

lemma acks_are_resent_witness:
  "\<exists>s'. run_rounds [pass (Inr (ok_response [sample_command ''c1'' ''ping''] [])), pass (Inl RequestFailed)] sample_runner =
      (s', None) \<and> (\<exists>a \<in> set (req_Acks (poll_request sample_status s')). ack_CommandID a = ''c1'')"
proof -
  let ?i = "pass (Inr (ok_response [sample_command ''c1'' ''ping''] []))" and ?j = "pass (Inl RequestFailed)"
  obtain s1 where s1: "run_round ?i sample_runner = (s1, Some (poll_request sample_status sample_runner), 0, None)"
    using sample_round1 by blast
  have wf: "exec_wf (executor_of sample_runner)"
    by (simp add: sample_runner_def start_run_def sample_executor_wf)
  have "ExePathR s1 = ''''"
    using s1 wf poll_succeeded_continues(3) [of ?i "ok_response [sample_command ''c1'' ''ping''] []" sample_runner s1 0]
    by (auto simp: run_round_def pass_def sample_runner_def start_run_def split: prod.splits)
  then obtain s2 where "run_round ?j s1 = (s2, Some (poll_request sample_status s1), Backoff (1/2) (attempt s1 + 1), None)"
    using sample_round2 by blast
  with s1 have run: "run_rounds [?i, ?j] sample_runner = (s2, None)"
    by simp
  moreover have "''c1'' \<in> round_commands ?i" "\<forall>j \<in> set [?j]. ''c1'' \<notin> round_acked j"
    by (simp_all add: round_commands_def round_acked_def pass_def ok_response_def sample_command_def)
  ultimately have "\<exists>a \<in> set (req_Acks (poll_request sample_status s2)). ack_CommandID a = ''c1''"
    using acks_are_resent [OF wf, where before = "[]" and i = ?i and after = "[?j]" and s' = s2] by simp
  with run show ?thesis by blast
qed

lemma rounds_are_paced_witness:
  "\<exists>s' q t. run_round (pass (Inl RequestFailed)) sample_runner = (s', q, t, None) \<and> 1000000000 \<le> 2000000000 + t"
proof -
  obtain s2 where s2: "run_round (pass (Inl RequestFailed)) sample_runner =
      (s2, Some (poll_request sample_status sample_runner), Backoff (1/2) (attempt sample_runner + 1), None)"
    using sample_round2 [of sample_runner] by (auto simp: sample_runner_def start_run_def)
  have "1000000000 \<le> elapsed (pass (Inl RequestFailed)) + Backoff (1/2) (attempt sample_runner + 1)"
    by (rule rounds_are_paced [OF s2]) (simp_all add: pass_def sample_runner_def start_run_def)
  with s2 show ?thesis by (auto simp: pass_def)
qed

section \<open>Leaving the loop for an upgrade\<close>

text \<open>
  C28. The loop only ends for a restart into another binary when either every acknowledgement,
  the one of the upgrade included, has been confirmed by the backend, or the old binary has
  just been moved back. In the first case the agent has asked for the removal of the backup,
  because a request that succeeds counts as proof that the running version works, although
  this one was still sent by the old version: if the removal works, whose error is ignored, no
  backup is left for a rollback of the new version, and if it fails nothing else in the file
  system has changed and the backup is as it was.
\<close>

theorem upgrade_exit:
  assumes "run_round i s = (s', q, t, Some ExitUpgraded)"
  shows "(pendingExit (executor_of s) \<and> pendingAcks s' = [] \<and>
      (ExePathR s \<noteq> '''' \<longrightarrow>
        (if prev_removable i then \<not> HasPrevVersion (ExePathR s) (exe_fs (executor_of s'))
         else exe_fs (executor_of s') = exe_fs (executor_of s)))) \<or>
    (3 \<le> Suc (failures s) \<and>
      exe_fs (executor_of s') (ExePathR s) = exe_fs (executor_of s) (ExePathR s @ prevSuffix) \<and>
      exe_fs (executor_of s') (ExePathR s) \<noteq> None)"
  using assms
proof (cases rule: run_round_cases)
  case (failed err)
  then show ?thesis
    by (auto simp: poll_failed_def shouldRollback_def HasPrevVersion_def Rollback_def rename_def Let_def split_beta
        split: if_splits option.splits)
next
  case (succeeded resp)
  then show ?thesis
    by (auto simp: poll_succeeded_def PendingExit_def allAcksConfirmed_def HasPrevVersion_def ClearPrevVersion_def
        remove_file_def Let_def split_beta split: if_splits)
qed simp

text \<open>
  A version that has just been installed and never reaches the backend: however many polls
  fail, it is not rolled back when the loop starts without a backup.
\<close>

lemma no_backup_no_rollback:
  "\<forall>i \<in> set is. \<exists>err. poll_result i = Inl err \<Longrightarrow> \<not> HasPrevVersion (ExePathR s) (exe_fs (executor_of s)) \<Longrightarrow>
     snd (run_rounds is s) \<noteq> Some ExitUpgraded"
proof (induction "is" arbitrary: s)
  case (Cons i "is")
  obtain err where err: "poll_result i = Inl err"
    using Cons.prems(1) by auto
  obtain s1 q t r where r: "run_round i s = (s1, q, t, r)" by (cases "run_round i s")
  have "\<not> shouldRollback (s\<lparr>attempt := a, failures := n\<rparr>)" for a n
    using Cons.prems(2) by (simp add: shouldRollback_def)
  then have step: "r \<noteq> Some ExitUpgraded \<and> ExePathR s1 = ExePathR s \<and> exe_fs (executor_of s1) = exe_fs (executor_of s)"
    using r err by (auto simp: run_round_def poll_failed_def Let_def split_beta split: if_splits)
  then show ?case
    using Cons r by (cases r) auto
qed simp

definition upgrading_runner :: Runner where
  "upgrading_runner =
     (start_run ''a'' ''b1'' ''v1.0.0'' (sample_executor\<lparr>exe_fs := [''a'' \<mapsto> [2], ''a.prev'' \<mapsto> [1]], pendingExit := True\<rparr>))
       \<lparr>pendingAcks := [(ack_done JNull)\<lparr>ack_CommandID := ''up''\<rparr>]\<rparr>"

text \<open>The pass that confirms an upgrade: the loop ends, and the backup of the old binary is gone.\<close>

lemma upgrade_exit_witness:
  "\<exists>s' q t. run_round (pass (Inr (ok_response [] [''up'']))) upgrading_runner = (s', q, t, Some ExitUpgraded) \<and>
     exe_fs (executor_of s') ''a.prev'' = None"
proof -
  let ?i = "pass (Inr (ok_response [] [''up'']))"
  have run: "\<exists>s' q t. run_round ?i upgrading_runner = (s', q, t, Some ExitUpgraded) \<and> exe_fs (executor_of s') ''a'' = Some [2]"
    by (auto simp: run_round_def poll_succeeded_def pass_def ok_response_def upgrading_runner_def start_run_def
        PendingExit_def allAcksConfirmed_def dropAcked_def ack_done_def set_fs_def ClearPrevVersion_def remove_file_def
        HasPrevVersion_def prevSuffix_def Let_def)
  then obtain s' q t where s': "run_round ?i upgrading_runner = (s', q, t, Some ExitUpgraded)"
      "exe_fs (executor_of s') ''a'' = Some [2]"
    by blast
  from upgrade_exit [OF s'(1)] s'(2) have "exe_fs (executor_of s') ''a.prev'' = None"
    by (simp add: upgrading_runner_def start_run_def HasPrevVersion_def prevSuffix_def pass_def)
  with s' show ?thesis by blast
qed

section \<open>Registration never gives up on a transient failure\<close>

lemma retry_delay_bounds:
  assumes "0 \<le> r" "r < 1"
  shows "800000000 \<le> retry_delay r k err"
proof -
  have "(1 :: int) \<le> 2 ^ nat (min (max (int k) 0) 6)"
    by simp
  then have "800000000 \<le> Backoff r (int k)"
    using Backoff_bounds [OF assms, of "int k"] by linarith
  then show ?thesis
    by (auto simp: retry_delay_def Let_def split: client_error.split)
qed

text \<open>
  C29. Registration ends in success with the first response that carries credentials, and in
  failure only with the first refusal the contract calls final (or a cancellation): every
  other error, from the network to rate limiting, is followed by another attempt, no sooner
  than 0.8 seconds later.
\<close>

theorem register_loop_spec:
  assumes "register_loop k as = (r, ds)" "\<forall>a \<in> set as. 0 \<le> reg_rand a \<and> reg_rand a < 1"
  shows "(case r of
      Registered resp \<Rightarrow> \<exists>pre a post. as = pre @ a # post \<and> reg_result a = Inr resp \<and> length ds = length pre
    | RegisterFatal e \<Rightarrow> \<exists>pre a post. as = pre @ a # post \<and> reg_result a = Inl (API e) \<and> IsFatalRegister e \<and>
        length ds = length pre
    | RegisterCancelled \<Rightarrow> \<exists>a \<in> set as. ctx_done a \<or> \<not> slept a
    | StillTrying n \<Rightarrow> n = k + length as \<and> length ds = length as) \<and>
    (\<forall>d \<in> set ds. 800000000 \<le> d)"
  using assms
proof (induction as arbitrary: k ds)
  case (Cons a as)
  show ?case
  proof (cases "reg_result a")
    case (Inr resp)
    with Cons.prems show ?thesis by (auto intro!: exI [of _ "[]"])
  next
    case (Inl err)
    let ?fatal = "case err of API e \<Rightarrow> IsFatalRegister e | _ \<Rightarrow> False"
    consider "ctx_done a" | "\<not> ctx_done a" ?fatal | "\<not> ctx_done a" "\<not> ?fatal" "\<not> slept a"
      | "\<not> ctx_done a" "\<not> ?fatal" "slept a" by blast
    then show ?thesis
    proof cases
      case 4
      obtain ds' where ds': "register_loop (Suc k) as = (r, ds')" "ds = retry_delay (reg_rand a) k err # ds'"
        using Cons.prems(1) Inl 4 by (auto split: prod.splits)
      have rand: "\<forall>a \<in> set as. 0 \<le> reg_rand a \<and> reg_rand a < 1" "800000000 \<le> retry_delay (reg_rand a) k err"
        using Cons.prems(2) retry_delay_bounds by auto
      from Cons.IH [OF ds'(1) rand(1)] ds'(2) rand(2) show ?thesis
        by (cases r) (auto, (metis append_Cons length_Cons)+)
    qed (use Cons.prems Inl retry_delay_bounds in \<open>auto split: client_error.splits intro!: exI [of _ "[]"]\<close>)
  qed
qed auto

lemma register_loop_spec_witness:
  "let a = \<lparr>reg_result = Inl RequestFailed, ctx_done = False, reg_rand = 0, slept = True\<rparr>;
       b = a\<lparr>reg_result := Inl (API \<lparr>Code = ''token_used'', Message = '''', RetryAfterS = 0, MinVersion = '''', LatestRelease = ''''\<rparr>)\<rparr>
   in \<forall>d \<in> set (snd (register_loop 0 [a, b])). 800000000 \<le> d"
  unfolding Let_def
  by (rule register_loop_spec [THEN conjunct2], rule surjective_pairing) simp

section \<open>Before the loop\<close>

text \<open>
  \<^verbatim>\<open>Prepare\<close>: credentials on disk win over the token; a file that cannot be used counts as none.
  \<open>boot\<close> is \<^verbatim>\<open>randomHex(16)\<close>, \<open>stored\<close> the result of \<^verbatim>\<open>LoadNodeFile\<close>.
\<close>

definition randomHex :: "byte list option \<Rightarrow> string option" where
  "randomHex rand = map_option hex_encode rand"

datatype prepare_result =
    BootIDFailed
  | Enrolled string NodeFile
  | NoToken
  | MustRegister string

definition Prepare :: "byte list option \<Rightarrow> node_error + NodeFile option \<Rightarrow> string \<Rightarrow> prepare_result" where
  "Prepare rand stored token =
     (case randomHex rand of
        None \<Rightarrow> BootIDFailed
      | Some bootid \<Rightarrow>
          (let existing = (case stored of Inl err \<Rightarrow> None | Inr r \<Rightarrow> r)
           in case existing of
                Some nf \<Rightarrow> Enrolled bootid nf
              | None \<Rightarrow> if token = '''' then NoToken else MustRegister bootid))"

text \<open>The parameters of the node that registration sends; \<open>mid\<close> is \<^verbatim>\<open>MachineID\<close>, \<open>None\<close> for its error.\<close>

record node_info =
  info_Version :: string
  info_Singbox :: string
  info_OS :: string
  info_Arch :: string
  info_IP :: string
  info_Ports :: json
  info_Secrets :: json
  mid :: "string option"
  info_APIURL :: string

datatype register_error =
    MachineIDFailed
  | EnrollFatal APIError
  | RegisterInterrupted
  | SaveFailed save_step

definition register_request :: "node_info \<Rightarrow> string \<Rightarrow> string \<Rightarrow> string \<Rightarrow> RegisterRequest" where
  "register_request info token boot m =
     \<lparr>rq_Contract = 0, rq_Token = token, rq_MachineID = m, rq_AgentVersion = info_Version info,
      rq_SingboxVersion = info_Singbox info, rq_OS = info_OS info, rq_Arch = info_Arch info,
      rq_ReportedIP = info_IP info, rq_ListenPorts = info_Ports info, rq_Secrets = info_Secrets info,
      rq_BootID = boot\<rparr>"

text \<open>
  \<^verbatim>\<open>register\<close>, given the attempts that happen to the request: the directory's states, and the
  error or the credentials; \<open>None\<close> while it is still trying.
\<close>

definition register ::
    "(NodeFile \<Rightarrow> string) \<Rightarrow> save_step option \<Rightarrow> string \<Rightarrow> node_info \<Rightarrow> string \<Rightarrow> string \<Rightarrow> time \<Rightarrow>
     (RegisterRequest \<Rightarrow> attempt_in list) \<Rightarrow> node_dir \<Rightarrow> node_dir list \<times> (register_error + NodeFile) option" where
  "register encode save_fault partial info token boot now attempts d =
     (case mid info of
        None \<Rightarrow> ([d], Some (Inl MachineIDFailed))
      | Some m \<Rightarrow>
          (case fst (register_loop 0 (attempts (register_request info token boot m))) of
             StillTrying n \<Rightarrow> ([d], None)
           | RegisterCancelled \<Rightarrow> ([d], Some (Inl RegisterInterrupted))
           | RegisterFatal e \<Rightarrow> ([d], Some (Inl (EnrollFatal e)))
           | Registered resp \<Rightarrow>
               (let nf = \<lparr>Contract = 0, nf_NodeID = rr_NodeID resp, nf_NodeSecret = rr_NodeSecret resp,
                          nf_MachineID = m, nf_APIURL = info_APIURL info, nf_PollURL = rr_PollURL resp,
                          EnrolledAt = now\<rparr>
                in case SaveNodeFile encode save_fault partial nf d of
                     (ds, Some f) \<Rightarrow> (ds, Some (Inl (SaveFailed f)))
                   | (ds, None) \<Rightarrow> (ds, Some (Inr (nf\<lparr>Contract := ContractVersion\<rparr>))))))"

text \<open>\<^verbatim>\<open>Cleanup\<close> only logs a failure.\<close>

definition Cleanup :: "bool \<Rightarrow> node_dir \<Rightarrow> node_dir" where
  "Cleanup remove_ok d = fst (RemoveNodeFile remove_ok d)"

text \<open>
  An agent that has enrolled stays enrolled: when registration returns credentials, the
  next start finds exactly these credentials on disk and does not need the one-time token.
\<close>

theorem enrolled_once:
  assumes "register encode fault partial info token boot now attempts d = (ds, Some (Inr nf))"
    and "decode (encode nf) = Some nf" "nf_NodeID nf \<noteq> ''''" "nf_NodeSecret nf \<noteq> ''''"
  shows "Prepare (Some b) (LoadNodeFile decode (final (last ds))) token' = Enrolled (hex_encode b) nf"
proof -
  obtain nf0 where save: "SaveNodeFile encode fault partial nf0 d = (ds, None)" "nf = nf0\<lparr>Contract := ContractVersion\<rparr>"
    using assms(1)
    by (auto simp: register_def Let_def split: option.splits register_result.splits prod.splits)
  have "LoadNodeFile decode (final (last ds)) = Inr (Some nf)"
    using save assms(2-4) by (auto simp: SaveNodeFile_def LoadNodeFile_def Let_def split: if_splits)
  then show ?thesis
    by (simp add: Prepare_def randomHex_def)
qed

lemma enrolled_once_witness:
  "let info = \<lparr>info_Version = ''v1'', info_Singbox = '''', info_OS = '''', info_Arch = '''', info_IP = '''',
         info_Ports = JNull, info_Secrets = JNull, mid = Some ''m'', info_APIURL = ''u''\<rparr>;
       resp = \<lparr>rr_NodeID = ''n'', rr_NodeSecret = ''s'', rr_PollURL = ''p'', rr_HeartbeatIntervalS = 0,
         rr_PollMaxWaitS = 25, rr_ServerTime = 0, rr_Reenrolled = False\<rparr>;
       a = \<lparr>reg_result = Inr resp, ctx_done = False, reg_rand = 0, slept = True\<rparr>;
       r = register (\<lambda>_. ''doc'') None '''' info ''t'' ''b'' 7 (\<lambda>_. [a]) \<lparr>final = NodeAbsent, tmp = None\<rparr>;
       nf = \<lparr>Contract = 1, nf_NodeID = ''n'', nf_NodeSecret = ''s'', nf_MachineID = ''m'', nf_APIURL = ''u'',
         nf_PollURL = ''p'', EnrolledAt = 7\<rparr>
   in Prepare (Some [1]) (LoadNodeFile (\<lambda>_. Some nf) (final (last (fst r)))) '''' = Enrolled ''01'' nf"
proof -
  let ?info = "\<lparr>info_Version = ''v1'', info_Singbox = '''', info_OS = '''', info_Arch = '''', info_IP = '''',
         info_Ports = JNull, info_Secrets = JNull, mid = Some ''m'', info_APIURL = ''u''\<rparr>"
  let ?resp = "\<lparr>rr_NodeID = ''n'', rr_NodeSecret = ''s'', rr_PollURL = ''p'', rr_HeartbeatIntervalS = 0,
         rr_PollMaxWaitS = 25, rr_ServerTime = 0, rr_Reenrolled = False\<rparr>"
  let ?a = "\<lparr>reg_result = Inr ?resp, ctx_done = False, reg_rand = 0, slept = True\<rparr>"
  let ?r = "register (\<lambda>_. ''doc'') None '''' ?info ''t'' ''b'' 7 (\<lambda>_. [?a]) \<lparr>final = NodeAbsent, tmp = None\<rparr>"
  let ?nf = "\<lparr>Contract = 1, nf_NodeID = ''n'', nf_NodeSecret = ''s'', nf_MachineID = ''m'', nf_APIURL = ''u'',
         nf_PollURL = ''p'', EnrolledAt = 7\<rparr>"
  have "?r = (fst ?r, Some (Inr ?nf))"
    by (simp add: register_def SaveNodeFile_def ContractVersion_def Let_def)
  from enrolled_once [OF this, where decode = "\<lambda>_. Some ?nf" and b = "[1]" and token' = "''''"]
  have "Prepare (Some [1]) (LoadNodeFile (\<lambda>_. Some ?nf) (final (last (fst ?r)))) '''' = Enrolled (hex_encode [1]) ?nf"
    by simp
  moreover have "hex_encode [1] = ''01''"
    by (simp add: hex_encode_def hex_byte_def hex_digit_def)
  ultimately show ?thesis
    by (simp only: Let_def)
qed

end
