(* ===== verification/Agent.thy ===== *)
theory Agent
  imports SysInfo PublicIP SelfCert Tunnel Backend LocalApi SingboxManager Quota AgentEnv Runner
begin

text \<open>
  \<^verbatim>\<open>cmd/agent/main.go\<close>: the agent that wires the components together. \<open>Agent\<close> is the Go
  struct with the state of its components and of the files it writes; the functions below are the
  methods, each a function of the state and of what it reads from outside. Goroutines a method
  starts with \<^verbatim>\<open>go a.regenerateConfig()\<close> are counted in \<open>regens\<close>, the callbacks the user
  store starts in its own \<open>changes\<close>.
\<close>

section \<open>State and construction\<close>

record Agent =
  cfg :: AgentConfig
  secrets :: NodeSecrets
  generator :: Generator
  sb :: world
  monitor :: Monitor
  meter :: Meter
  localStore :: "Store option"
  localAPI :: "NodeConfig option"
  config_file :: "string option"
  users_cache :: "string option"
  reporter :: Reporter
  node_files :: node_dir
  tunnelMgr :: "Tunnel.Manager option"
  cancelled_tunnels :: "nat set"
  currentVersion :: string
  revoked :: bool
  shut_down :: bool
  regens :: nat

text \<open>
  What \<^verbatim>\<open>NewAgent\<close> finds: the certificate's files and the making of a new one, what the services that
  tell the public addresses answer, the users file, the world of the process manager.
\<close>

record boot_env =
  boot_cert :: cert_env
  boot_certs :: cert_dir
  ip_answers :: "ip_answer list"
  ipv6_answers :: "ip_answer list"
  users_disk :: users_file
  boot_world :: world
  boot_config :: "string option"
  boot_cache :: "string option"
  boot_reports :: "string \<rightharpoonup> string"
  boot_node :: node_dir

datatype new_agent = SecretsFailed secrets_error | IndexOutOfRange | AgentReady Agent

definition chosen_ss_port :: "AgentConfig \<Rightarrow> NodeSecrets \<Rightarrow> int" where
  "chosen_ss_port c sec = (let ssPort = SSPort c in if ssPort = 8388 then sec_SSPort sec else ssPort)"

text \<open>The data directory is \<^verbatim>\<open>./data\<close>, which \<^verbatim>\<open>filepath.Join\<close> cleans.\<close>

definition cert_paths :: "boot_env \<Rightarrow> (string \<times> string) option" where
  "cert_paths env =
     (case EnsureSelfSignedCert (boot_cert env) ''data'' (boot_certs env) of
        (_, Inl err) \<Rightarrow> None
      | (_, Inr paths) \<Rightarrow> Some paths)"

lemma cert_paths_Some: "cert_paths env = Some (cp, kp) \<Longrightarrow> cp \<noteq> '''' \<and> kp \<noteq> ''''"
  by (auto simp: cert_paths_def EnsureSelfSignedCert_def Let_def split: if_splits option.splits prod.splits pem_write.splits)

definition chosen_cert :: "boot_env \<Rightarrow> AgentConfig \<Rightarrow> string \<times> string" where
  "chosen_cert env c =
     (if 0 < TrojanPort c \<or> 0 < Hysteria2Port c \<or> 0 < TUICPort c
      then (case cert_paths env of None \<Rightarrow> ('''', '''') | Some p \<Rightarrow> p)
      else ('''', ''''))"

definition chosen_ipv6 :: "boot_env \<Rightarrow> AgentConfig \<Rightarrow> string" where
  "chosen_ipv6 env c =
     (if ServerIPv6 c = '''' then DetectPublicIPv6 (ipv6_answers env)
      else if \<not> IsPublicIPv6 (ServerIPv6 c) then '''' else ServerIPv6 c)"

definition has_local :: "ManagementMode \<Rightarrow> bool" where
  "has_local mode \<longleftrightarrow> mode = ModeLocal \<or> mode = ModeHybrid"

definition node_config :: "boot_env \<Rightarrow> AgentConfig \<Rightarrow> NodeSecrets \<Rightarrow> NodeConfig" where
  "node_config env c sec =
     \<lparr>nc_NodeID = NodeID c,
      nc_ServerIP = (if ServerIP c = '''' then DetectPublicIP (ip_answers env) else ServerIP c),
      nc_ServerIPv6 = chosen_ipv6 env c,
      nc_PublicKey = PublicKey sec, nc_ShortID = ShortIDs sec ! 0,
      nc_VLESSPort = VLESSPort c, nc_SSPort = chosen_ss_port c sec,
      nc_SSMethod = ''chacha20-ietf-poly1305'', nc_RealitySNI = RealitySNI c,
      nc_VMessPort = VMessPort c, nc_TrojanPort = TrojanPort c,
      nc_Hysteria2Port = Hysteria2Port c, nc_TUICPort = TUICPort c\<rparr>"

definition NewAgent :: "boot_env \<Rightarrow> (secrets_error + NodeSecrets) \<Rightarrow> AgentConfig \<Rightarrow> new_agent" where
  "NewAgent env loaded c =
     (case loaded of
        Inl err \<Rightarrow> SecretsFailed err
      | Inr sec \<Rightarrow>
          if ShortIDs sec = [] then IndexOutOfRange
          else
            (let ssPort = chosen_ss_port c sec;
                 gen = NewGenerator (VLESSPort c) ssPort (PrivateKey sec) (ShortIDs sec);
                 (certPath, keyPath) = chosen_cert env c;
                 gen = WithExtraProtocols gen (VMessPort c) (TrojanPort c) (Hysteria2Port c) (TUICPort c)
                         certPath keyPath
             in AgentReady
                  \<lparr>cfg = c\<lparr>SSPort := ssPort\<rparr>, secrets = sec, generator = gen, sb = boot_world env,
                   monitor = NewMonitor True, meter = NewMeter,
                   localStore = (if has_local (Management c) then Some (NewStore (users_disk env) True) else None),
                   localAPI = (if has_local (Management c) then Some (node_config env c sec) else None),
                   config_file = boot_config env, users_cache = boot_cache env,
                   reporter = NewReporter (APIURL c) (NodeAPIKey c) (boot_reports env),
                   node_files = boot_node env, tunnelMgr = None, cancelled_tunnels = {},
                   currentVersion = '''', revoked = False, shut_down = False, regens = 0\<rparr>))"

text \<open>\<open>effectiveSSPort\<close> and the \<^verbatim>\<open>nodeInfo\<close> adapter, reported at enrolment.\<close>

definition effectiveSSPort :: "Agent \<Rightarrow> int" where
  "effectiveSSPort a = (if SSPort (cfg a) \<noteq> 8388 then SSPort (cfg a) else sec_SSPort (secrets a))"

definition ListenPorts :: "Agent \<Rightarrow> (string \<times> int) list" where
  "ListenPorts a =
     (let ports = [(''vless'', VLESSPort (cfg a))]; p = effectiveSSPort a
      in if 0 < p then ports @ [(''ss'', p)] else ports)"

text \<open>\<^verbatim>\<open>singboxVersion\<close> on the output of the command, \<open>None\<close> when it cannot be run.\<close>

definition singboxVersion :: "string option \<Rightarrow> string" where
  "singboxVersion out =
     (case out of
        None \<Rightarrow> ''unknown''
      | Some o' \<Rightarrow>
          (let line = until (CHR 0x0A) (TrimSpace o'); fields = Fields line
           in if 3 \<le> length fields then fields ! 2 else ''unknown''))"

section \<open>Accounting\<close>

text \<open>\<open>collected_now\<close> is the collector's answer; the orders are those of \<^verbatim>\<open>range\<close>.\<close>

record account_env =
  collected_now :: "(string \<rightharpoonup> UserStats option) option"
  stats_order :: "string list"
  deltas_order :: "string list"
  add_env :: "string \<Rightarrow> save_env"

definition add_delta :: "account_env \<Rightarrow> Store \<times> bool \<Rightarrow> string \<times> UserStats \<Rightarrow> Store \<times> bool" where
  "add_delta env st e =
     (let (store, crossed) = st; (uuid, d) = e;
          (store, reached) = AddTraffic (add_env env uuid) uuid (Upload d) (Download d) store
      in (store, if reached then True else crossed))"

definition accountLocalTraffic :: "account_env \<Rightarrow> bool \<Rightarrow> Agent \<Rightarrow> Agent" where
  "accountLocalTraffic env regenerate a =
     (case localStore a of
        None \<Rightarrow> a
      | Some store \<Rightarrow>
          if \<not> IsRunning (sb a) then a
          else
            (case collected_now env of
               None \<Rightarrow> a
             | Some reading \<Rightarrow>
                 (let (meter', deltas) = Deltas (meter a) reading (stats_order env);
                      (store', crossed) = foldl (add_delta env) (store, False) (range_entries deltas (deltas_order env));
                      a = a\<lparr>meter := meter', localStore := Some store'\<rparr>
                  in if crossed \<and> regenerate then a\<lparr>regens := Suc (regens a)\<rparr> else a)))"

section \<open>Regeneration\<close>

definition config_user :: "LocalUser \<Rightarrow> User" where
  "config_user lu =
     \<lparr>UUID = l_UUID lu, Protocols = l_Protocols lu, SSPassword = l_SSPassword lu, Enabled = l_Enabled lu,
      TrafficLimit = l_TrafficLimit lu, TrafficUsed = l_TrafficUsed lu, ExpireAt = l_ExpireAt lu,
      DeviceID = ''''\<rparr>"

text \<open>
  The configuration file: \<open>marshal_cfg\<close> is \<^verbatim>\<open>json.MarshalIndent\<close>, \<open>os_write\<close> the effect of
  \<^verbatim>\<open>os.WriteFile\<close> on its content. The manager finds the file when it has a content.
\<close>

record write_env =
  marshal_cfg :: "json \<Rightarrow> string + string"
  os_write :: "string \<Rightarrow> string \<Rightarrow> string option \<Rightarrow> string option \<times> string option"

definition write_config :: "write_env \<Rightarrow> json \<Rightarrow> Agent \<Rightarrow> Agent \<times> bool" where
  "write_config env config a =
     (let (f, err) = WriteToFile (marshal_cfg env) (os_write env) config (SingboxConfig (cfg a)) (config_file a);
          p = SingboxConfig (cfg a);
          w = sb a
      in (a\<lparr>config_file := f, sb := w\<lparr>files := (if f = None then files w - {p} else insert p (files w))\<rparr>\<rparr>,
          err = None))"

record regen_env =
  accounting :: account_env
  users_order :: "string list"
  now :: time
  writing :: write_env
  starting :: start_env

definition reload_or_start :: "start_env \<Rightarrow> Agent \<Rightarrow> Agent" where
  "reload_or_start env a =
     (if IsRunning (sb a) then a\<lparr>sb := fst (Reload env (sb a))\<rparr>
      else a\<lparr>sb := fst (Start env (sb a))\<rparr>)"

definition regenerateConfig :: "regen_env \<Rightarrow> Agent \<Rightarrow> Agent" where
  "regenerateConfig env a =
     (let a = accountLocalTraffic (accounting env) False a
      in case localStore a of
           None \<Rightarrow> a
         | Some store \<Rightarrow>
             (let users = map config_user (ListUsers (users_order env) store);
                  a = a\<lparr>monitor := UpdateUsers users (monitor a)\<rparr>;
                  config = Generate (now env) (generator a) users (RealitySNI (cfg a));
                  (a, ok) = write_config (writing env) config a
              in if \<not> ok then a
                 else
                   (let a = reload_or_start (starting env) a
                    in a\<lparr>meter := Reset (meter a)\<rparr>)))"

definition reloadForCommand :: "regen_env \<Rightarrow> Agent \<Rightarrow> Agent \<times> string option" where
  "reloadForCommand env a = (regenerateConfig env a, None)"

section \<open>Synchronisation with the management server\<close>

record sync_env =
  sync_now :: time
  merge_order :: "string list"
  local_order :: "string list"
  sync_marshal :: "UsersResponse \<Rightarrow> string"
  sync_unmarshal :: "string \<Rightarrow> UsersResponse option"
  sync_cache :: write_outcome
  sync_write :: write_env
  sync_start :: start_env

datatype sync_failure = FetchFailed sync_error | CacheUnusable cache_error | WriteConfigFailed | ReloadFailed reload_error

text \<open>The remote users, then the local ones over them.\<close>

definition hybrid_map :: "User list \<Rightarrow> LocalUser list \<Rightarrow> string \<rightharpoonup> User" where
  "hybrid_map remote locals =
     (let userMap = foldl (\<lambda>m u. m(UUID u \<mapsto> u)) Map.empty remote
      in foldl (\<lambda>m lu. m(l_UUID lu \<mapsto> config_user lu)) userMap locals)"

text \<open>The end that both synchronisations share: the manager reloads when it runs.\<close>

definition reload_if_running :: "start_env \<Rightarrow> Agent \<Rightarrow> Agent \<times> sync_failure option" where
  "reload_if_running env a =
     (if IsRunning (sb a)
      then (case Reload env (sb a) of
              (w, None) \<Rightarrow> (a\<lparr>sb := w\<rparr>, None)
            | (w, Some err) \<Rightarrow> (a\<lparr>sb := w\<rparr>, Some (ReloadFailed err)))
      else (a, None))"

definition syncAndApplyHybrid ::
    "sync_env \<Rightarrow> sync_error + UsersResponse \<Rightarrow> Agent \<Rightarrow> Agent \<times> sync_failure option" where
  "syncAndApplyHybrid env fetched a =
     (case fetched of
        Inl err \<Rightarrow> (a, Some (FetchFailed err))
      | Inr resp \<Rightarrow>
          (let localUsers = (case localStore a of None \<Rightarrow> [] | Some store \<Rightarrow> ListUsers (local_order env) store);
               users = range_values (hybrid_map (Users resp) localUsers) (merge_order env);
               a = a\<lparr>monitor := UpdateUsers users (monitor a)\<rparr>;
               a = a\<lparr>users_cache := fst (Backend.SaveUsers (sync_marshal env) (sync_cache env) resp (users_cache a))\<rparr>;
               config = Generate (sync_now env) (generator a) users (resp_RealitySNI resp);
               (a, ok) = write_config (sync_write env) config a
           in if \<not> ok then (a, Some WriteConfigFailed)
              else reload_if_running (sync_start env) (a\<lparr>currentVersion := Version resp\<rparr>)))"

definition syncAndApply ::
    "sync_env \<Rightarrow> sync_error + UsersResponse \<Rightarrow> Agent \<Rightarrow> Agent \<times> sync_failure option" where
  "syncAndApply env fetched a =
     (case fetched of
        Inl err \<Rightarrow> (a, Some (FetchFailed err))
      | Inr resp \<Rightarrow>
          if currentVersion a = Version resp then (a, None)
          else
            (let a = a\<lparr>monitor := UpdateUsers (Users resp) (monitor a)\<rparr>;
                 a = a\<lparr>users_cache := fst (Backend.SaveUsers (sync_marshal env) (sync_cache env) resp (users_cache a))\<rparr>;
                 config = Generate (sync_now env) (generator a) (Users resp) (resp_RealitySNI resp);
                 (a, ok) = write_config (sync_write env) config a
             in if \<not> ok then (a, Some WriteConfigFailed)
                else reload_if_running (sync_start env) (a\<lparr>currentVersion := Version resp\<rparr>)))"

definition applyFromCache :: "sync_env \<Rightarrow> Agent \<Rightarrow> Agent \<times> sync_failure option" where
  "applyFromCache env a =
     (case LoadUsers (sync_unmarshal env) (users_cache a) of
        Inl err \<Rightarrow> (a, Some (CacheUnusable err))
      | Inr resp \<Rightarrow>
          (let a = a\<lparr>monitor := UpdateUsers (Users resp) (monitor a)\<rparr>;
               config = Generate (sync_now env) (generator a) (Users resp) (resp_RealitySNI resp);
               (a, ok) = write_config (sync_write env) config a
           in (a, if ok then None else Some WriteConfigFailed)))"

section \<open>Reports to the management server\<close>

record report_inputs =
  collected_stats :: "(string \<rightharpoonup> UserStats) option"
  report_with :: report_env
  report_marshal :: "StatsReport \<Rightarrow> string"
  report_unmarshal :: "string \<Rightarrow> StatsReport option"
  cached_names :: "string list"
  flush_with :: "string \<Rightarrow> file_env"

definition flush_reports :: "report_inputs \<Rightarrow> Agent \<Rightarrow> Agent" where
  "flush_reports env a =
     a\<lparr>reporter := fst (FlushCache (report_unmarshal env) (flush_with env) (cached_names env) (reporter a))\<rparr>"

text \<open>\<open>cached_names\<close> is the content of the cache directory after the report.\<close>

definition collectAndReport :: "report_inputs \<Rightarrow> Agent \<Rightarrow> Agent" where
  "collectAndReport env a =
     (case collected_stats env of
        None \<Rightarrow> a
      | Some stats \<Rightarrow>
          if length (rep_order (report_with env)) = 0 then a
          else
            (case Report (report_marshal env) (report_with env) stats (reporter a) of
               (r, False) \<Rightarrow> a\<lparr>reporter := r\<rparr>
             | (r, True) \<Rightarrow>
                 (let a = a\<lparr>reporter := r, monitor := ResetSessionTraffic (monitor a)\<rparr>
                  in if 0 < GetCacheCount (cached_names env) then flush_reports env a else a)))"

text \<open>
  \<^verbatim>\<open>kickUsers\<close>: the connections whose deletion is requested, when sing-box answers \<open>conns\<close> to
  each listing and \<open>del\<close> to the deletions.
\<close>

definition kickUsers ::
    "(string \<Rightarrow> http_answer) \<Rightarrow> sync_error + ActiveConnection list \<Rightarrow> string list \<Rightarrow> string list" where
  "kickUsers del conns uuids =
     concat (map (\<lambda>u. let uuid = TrimSpace u
                      in if uuid = '''' then [] else fst (KickUser del uuid conns)) uuids)"

record heartbeat_in =
  num_cpu :: nat
  proc_loadavg :: "string option"
  proc_meminfo :: "string list option"
  active_now :: "sync_error + ActiveConnection list"
  heartbeat_result :: "sync_error + HeartbeatResponse"
  kick_del :: "string \<Rightarrow> http_answer"
  sync_in :: sync_env
  sync_fetched :: "sync_error + UsersResponse"

record HeartbeatRequest =
  hr_NodeID :: string
  hr_CPU :: rat
  hr_Memory :: rat
  hr_Connections :: nat
  hr_Users :: nat

text \<open>The request, the connections that are kicked, and the agent after a requested reload.\<close>

definition sendHeartbeat :: "heartbeat_in \<Rightarrow> Agent \<Rightarrow> Agent \<times> HeartbeatRequest \<times> string list" where
  "sendHeartbeat i a =
     (let sysLoad = GetSystemLoad (num_cpu i) (proc_loadavg i) (proc_meminfo i);
          connections = (case active_now i of Inl err \<Rightarrow> [] | Inr cs \<Rightarrow> cs);
          req = \<lparr>hr_NodeID = NodeID (cfg a), hr_CPU = CPUPercent sysLoad, hr_Memory = MemoryPercent sysLoad,
                 hr_Connections = length connections, hr_Users = Quota.GetUserCount (monitor a)\<rparr>
      in case heartbeat_result i of
           Inl err \<Rightarrow> (a, req, [])
         | Inr resp \<Rightarrow>
             (let kicked = (if 0 < length (KickUsers resp) then kickUsers (kick_del i) (active_now i) (KickUsers resp)
                            else []);
                  a = (if ReloadUsers resp
                       then (if Management (cfg a) = ModeHybrid
                             then fst (syncAndApplyHybrid (sync_in i) (sync_fetched i) a)
                             else fst (syncAndApply (sync_in i) (sync_fetched i) a))
                       else a)
              in (a, req, kicked)))"

record Connection =
  cn_User :: string
  cn_ClientIP :: string
  cn_ConnectedAt :: time
  cn_Upload :: int
  cn_Download :: int

text \<open>
  \<^verbatim>\<open>reportConnections\<close>: the report, if one is sent, and the connections that are kicked.
  \<open>parse_time\<close> is \<^verbatim>\<open>time.Parse(time.RFC3339, s)\<close>, the zero time when it fails.
\<close>

definition connection_entry :: "(string \<Rightarrow> time) \<Rightarrow> ActiveConnection \<Rightarrow> Connection" where
  "connection_entry parse_time conn =
     (let clientIP = (case SplitHostPort (conn_Source conn) of
                        Some (host, _) \<Rightarrow> host | None \<Rightarrow> conn_Source conn)
      in \<lparr>cn_User = conn_User conn, cn_ClientIP = clientIP, cn_ConnectedAt = parse_time (conn_Start conn),
          cn_Upload = conn_Upload conn, cn_Download = conn_Download conn\<rparr>)"

definition reportConnections ::
    "(string \<Rightarrow> time) \<Rightarrow> (string \<Rightarrow> http_answer) \<Rightarrow> sync_error + ActiveConnection list \<Rightarrow>
     sync_error + HeartbeatResponse \<Rightarrow> Connection list option \<times> string list" where
  "reportConnections parse_time del conns answer =
     (case conns of
        Inl err \<Rightarrow> (None, [])
      | Inr connections \<Rightarrow>
          if length connections = 0 then (None, [])
          else
            (Some (map (connection_entry parse_time) connections),
             case answer of
               Inl err \<Rightarrow> []
             | Inr resp \<Rightarrow> if 0 < length (KickUsers resp) then kickUsers del conns (KickUsers resp) else []))"

section \<open>The life of the agent\<close>

definition singboxInstalled :: "string \<Rightarrow> string \<Rightarrow> string set \<Rightarrow> bool" where
  "singboxInstalled bin config fs \<longleftrightarrow> bin \<in> fs \<and> config \<in> fs"

definition shouldStartSingbox :: "Agent \<Rightarrow> bool" where
  "shouldStartSingbox a = singboxInstalled (SingboxBin (cfg a)) (SingboxConfig (cfg a)) (files (sb a))"

definition healthy :: "Agent \<Rightarrow> bool" where
  "healthy a =
     (if GaveUp (sb a) then False
      else if IsRunning (sb a) then True
      else if SingboxBin (cfg a) \<notin> files (sb a) then True
      else False)"

definition initLocalMode :: "regen_env \<Rightarrow> Agent \<Rightarrow> Agent" where
  "initLocalMode env a = regenerateConfig env a"

text \<open>
  The registration with the management server; \<^verbatim>\<open>initRemoteMode\<close> and \<^verbatim>\<open>initHybridMode\<close> only log its
  failure, so they are modelled from the synchronisation on.
\<close>

definition agent_register :: "http_answer \<Rightarrow> Agent \<Rightarrow> json \<times> (sync_error + unit)" where
  "agent_register out a =
     Backend.Register out (NodeID (cfg a)) (PublicKey (secrets a)) (ShortIDs (secrets a)) (VLESSPort (cfg a)) (SSPort (cfg a))"

definition initRemoteMode :: "sync_env \<Rightarrow> sync_error + UsersResponse \<Rightarrow> report_inputs \<Rightarrow> Agent \<Rightarrow> Agent" where
  "initRemoteMode env fetched rep a =
     (let a = (case syncAndApply env fetched a of
                 (a, None) \<Rightarrow> a
               | (a, Some err) \<Rightarrow> if HasCache (users_cache a) then fst (applyFromCache env a) else a)
      in flush_reports rep a)"

definition initHybridMode ::
    "sync_env \<Rightarrow> sync_error + UsersResponse \<Rightarrow> regen_env \<Rightarrow> report_inputs \<Rightarrow> Agent \<Rightarrow> Agent" where
  "initHybridMode env fetched regen rep a =
     (let a = (case syncAndApplyHybrid env fetched a of
                 (a, None) \<Rightarrow> a
               | (a, Some err) \<Rightarrow> regenerateConfig regen a)
      in flush_reports rep a)"

record run_env =
  run_sync :: sync_env
  run_fetched :: "sync_error + UsersResponse"
  run_regen :: regen_env
  run_report :: report_inputs
  run_start :: start_env

text \<open>\<^verbatim>\<open>Run\<close> up to the main loop, without the enrolment.\<close>

definition Run_init :: "run_env \<Rightarrow> Agent \<Rightarrow> Agent" where
  "Run_init env a =
     (let mode = Management (cfg a);
          a = (if mode = ModeLocal then initLocalMode (run_regen env) a
               else if mode = ModeRemote then initRemoteMode (run_sync env) (run_fetched env) (run_report env) a
               else if mode = ModeHybrid
               then initHybridMode (run_sync env) (run_fetched env) (run_regen env) (run_report env) a
               else a)
      in if shouldStartSingbox a then a\<lparr>sb := fst (Start (run_start env) (sb a))\<rparr> else a)"

text \<open>One pass of the main loop for each ticker, and the end.\<close>

datatype tick =
    QuotaTick time "string list" account_env
  | SyncTick sync_env "sync_error + UsersResponse"
  | StatsTick report_inputs
  | HeartbeatTick heartbeat_in
  | ConnectionsTick
  | DoneTick report_inputs

fun main_loop_case :: "tick \<Rightarrow> Agent \<Rightarrow> Agent" where
  "main_loop_case (QuotaTick t ks env) a =
     accountLocalTraffic env True (a\<lparr>monitor := CheckAllUsers t ks (monitor a)\<rparr>)"
| "main_loop_case (SyncTick env fetched) a =
     (if Management (cfg a) = ModeLocal then a
      else if Management (cfg a) = ModeHybrid then fst (syncAndApplyHybrid env fetched a)
      else fst (syncAndApply env fetched a))"
| "main_loop_case (StatsTick env) a =
     (if Management (cfg a) = ModeLocal then a else collectAndReport env a)"
| "main_loop_case (HeartbeatTick i) a =
     (if Management (cfg a) = ModeLocal then a else fst (sendHeartbeat i a))"
| "main_loop_case ConnectionsTick a = a"
| "main_loop_case (DoneTick env) a =
     (let a = (if Management (cfg a) \<noteq> ModeLocal then collectAndReport env a else a)
      in a\<lparr>sb := Stop (sb a)\<rparr>)"

text \<open>
  \<^verbatim>\<open>handleRevoked\<close> in two parts: \<^verbatim>\<open>Clear\<close>, which ends the first, starts \<^verbatim>\<open>go onChange()\<close>, so from then
  on a regeneration may run at any time.
\<close>

definition revoke_users :: "save_env \<Rightarrow> Agent \<Rightarrow> Agent" where
  "revoke_users sv a =
     (let a = (case tunnelMgr a of None \<Rightarrow> a | Some m \<Rightarrow> a\<lparr>cancelled_tunnels := cancelled_tunnels a \<union> CloseAll m\<rparr>)
      in case localStore a of None \<Rightarrow> a | Some store \<Rightarrow> a\<lparr>localStore := Some (fst (Clear sv store))\<rparr>)"

definition revoke_node :: "bool \<Rightarrow> Agent \<Rightarrow> Agent" where
  "revoke_node cleaned a =
     (let a = a\<lparr>sb := Stop (sb a)\<rparr>;
          a = a\<lparr>node_files := Cleanup cleaned (node_files a)\<rparr>
      in a\<lparr>revoked := True, shut_down := True\<rparr>)"

definition handleRevoked :: "save_env \<Rightarrow> bool \<Rightarrow> Agent \<Rightarrow> Agent" where
  "handleRevoked sv cleaned a = revoke_node cleaned (revoke_users sv a)"

text \<open>
  What may still run after \<^verbatim>\<open>Clear\<close>, until \<^verbatim>\<open>main\<close> exits: the regenerations it and earlier changes of
  the users have started, and passes of the quota timer, which the \<^verbatim>\<open>select\<close> of the main loop may
  take before it sees that its context is cancelled.
\<close>

datatype late_event = LateRegen regen_env | LateQuota time "string list" account_env

fun late_step :: "late_event \<Rightarrow> Agent \<Rightarrow> Agent" where
  "late_step (LateRegen env) a = regenerateConfig env a"
| "late_step (LateQuota t ks env) a = main_loop_case (QuotaTick t ks env) a"

definition run_late :: "late_event list \<Rightarrow> Agent \<Rightarrow> Agent" where
  "run_late es a = fold late_step es a"

text \<open>The exit code of \<^verbatim>\<open>main\<close> once \<^verbatim>\<open>Run\<close> has returned; \<^verbatim>\<open>enroll.ExitRevoked\<close> is 3.\<close>

definition ExitRevokedCode :: int where
  "ExitRevokedCode = 3"

definition exit_code :: "Agent \<Rightarrow> int" where
  "exit_code a = (if revoked a then ExitRevokedCode else 0)"

section \<open>Enrolment\<close>

text \<open>\<open>env\<close> is \<^verbatim>\<open>os.Getenv\<close>, \<open>existing\<close> the credentials on disk.\<close>

definition isTokenMode :: "(string \<Rightarrow> string) \<Rightarrow> NodeFile option \<Rightarrow> bool" where
  "isTokenMode env existing \<longleftrightarrow> (if env ''OTUN_ENROLL_TOKEN'' \<noteq> '''' then True else existing \<noteq> None)"

definition isHostedMode :: "(string \<Rightarrow> string) \<Rightarrow> bool" where
  "isHostedMode env \<longleftrightarrow> env ''OBOX_HOSTED'' = ''true''"

definition apiHost :: "(string \<Rightarrow> string option) \<Rightarrow> string \<Rightarrow> string" where
  "apiHost hostname apiURL = (case hostname apiURL of None \<Rightarrow> '''' | Some h \<Rightarrow> h)"

text \<open>
  The executor \<^verbatim>\<open>startEnrollment\<close> builds, \<open>None\<close> when there is neither a token nor credentials;
  \<open>exe\<close> is \<^verbatim>\<open>os.Executable()\<close>. (Tunnels are enabled afterwards, in \<open>setupTunnel\<close> of \<open>Startup\<close>.)
\<close>

definition enrollment_executor ::
    "(string \<Rightarrow> string) \<Rightarrow> NodeFile option \<Rightarrow> string option \<Rightarrow> string \<Rightarrow> fsys \<Rightarrow> Executor option" where
  "enrollment_executor env existing exe version fs =
     (let token = env ''OTUN_ENROLL_TOKEN'' in
      if token = '''' \<and> existing = None then None
      else
        (let exePath = (case exe of None \<Rightarrow> '''' | Some p \<Rightarrow> p);
             e = NewExecutor version True fs
         in if \<not> isHostedMode env then Some e
            else if exePath = '''' then Some e
            else Some (EnableUpgrade (Some \<lparr>Repo = ''antsbtw/sing-box-docker'', ExePath = exePath\<rparr>) e)))"

section \<open>What accounting does to the store\<close>

text \<open>What one increment makes of a user, and whether it takes him over his limit.\<close>

definition charged :: "UserStats \<Rightarrow> LocalUser \<Rightarrow> LocalUser" where
  "charged d lu =
     (if i64 (Upload d + Download d) \<le> 0 then lu
      else lu\<lparr>l_TrafficUsed := i64 (l_TrafficUsed lu + i64 (Upload d + Download d))\<rparr>)"

definition reaches :: "UserStats \<Rightarrow> LocalUser \<Rightarrow> bool" where
  "reaches d lu \<longleftrightarrow> 0 < i64 (Upload d + Download d) \<and> 0 < l_TrafficLimit lu \<and>
     l_TrafficUsed lu < l_TrafficLimit lu \<and> l_TrafficLimit lu \<le> l_TrafficUsed (charged d lu)"

definition charge_by :: "UserStats option \<Rightarrow> LocalUser \<Rightarrow> LocalUser" where
  "charge_by d lu = (case d of None \<Rightarrow> lu | Some d \<Rightarrow> charged d lu)"

lemma charged_simps [simp]:
  "l_UUID (charged d lu) = l_UUID lu" "l_TrafficLimit (charged d lu) = l_TrafficLimit lu"
  "l_UUID (charge_by od lu) = l_UUID lu" "l_TrafficLimit (charge_by od lu) = l_TrafficLimit lu"
  by (simp_all add: charged_def charge_by_def split: option.split)

lemma AddTraffic_charged:
  "s_users (fst (AddTraffic e uuid (Upload d) (Download d) s)) =
     (s_users s)(uuid := map_option (charged d) (s_users s uuid))"
  "snd (AddTraffic e uuid (Upload d) (Download d) s) \<longleftrightarrow> (\<exists>lu. s_users s uuid = Some lu \<and> reaches d lu)"
  by (auto simp: AddTraffic_def charged_def reaches_def Let_def split_beta fun_eq_iff split: option.splits)

lemma add_delta_eq:
  "add_delta env (s, c) (uuid, d) =
     (fst (AddTraffic (add_env env uuid) uuid (Upload d) (Download d) s),
      c \<or> snd (AddTraffic (add_env env uuid) uuid (Upload d) (Download d) s))"
  by (simp add: add_delta_def split: prod.split)

lemma foldl_add_delta:
  assumes "distinct (map fst es)"
  shows "s_users (fst (foldl (add_delta env) (s, c) es)) uuid =
      map_option (charge_by (map_of es uuid)) (s_users s uuid)"
    and "snd (foldl (add_delta env) (s, c) es) \<longleftrightarrow>
      c \<or> (\<exists>k d lu. map_of es k = Some d \<and> s_users s k = Some lu \<and> reaches d lu)"
proof -
  have "s_users (fst (foldl (add_delta env) (s, c) es)) uuid = map_option (charge_by (map_of es uuid)) (s_users s uuid) \<and>
    (snd (foldl (add_delta env) (s, c) es) \<longleftrightarrow>
      c \<or> (\<exists>k d lu. map_of es k = Some d \<and> s_users s k = Some lu \<and> reaches d lu))"
    using assms
  proof (induction es arbitrary: s c)
    case Nil
    have "charge_by None = id"
      by (auto simp: charge_by_def)
    then show ?case by (cases "s_users s uuid") simp_all
  next
    case (Cons e es)
    obtain k d where e: "e = (k, d)"
      by (cases e)
    have k: "map_of es k = None"
      using Cons.prems by (auto simp: e map_of_eq_None_iff)
    have n: "charge_by None = id" "charge_by (Some d) = charged d"
      by (auto simp: charge_by_def)
    show ?case
      using Cons k unfolding e foldl.simps add_delta_eq
      by (auto simp: AddTraffic_charged n option.map_id split: if_splits) (metis option.distinct(1))+
  qed
  then show "s_users (fst (foldl (add_delta env) (s, c) es)) uuid = map_option (charge_by (map_of es uuid)) (s_users s uuid)"
    "snd (foldl (add_delta env) (s, c) es) \<longleftrightarrow>
      c \<or> (\<exists>k d lu. map_of es k = Some d \<and> s_users s k = Some lu \<and> reaches d lu)"
    by simp_all
qed

text \<open>The orders of an accounting round are those of the maps it ranges over.\<close>

definition account_ok :: "account_env \<Rightarrow> Agent \<Rightarrow> (string \<rightharpoonup> UserStats option) \<Rightarrow> bool" where
  "account_ok env a reading \<longleftrightarrow> collected_now env = Some reading \<and> range_order reading (stats_order env) \<and>
     range_order (reported (meter a) reading) (deltas_order env)"

lemma accountLocalTraffic_spec:
  assumes "localStore a = Some st" "IsRunning (sb a)" "account_ok env a reading"
  shows "\<exists>st'. accountLocalTraffic env b a =
      a\<lparr>meter := (meter a)\<lparr>meter_last := next_last (meter a) reading\<rparr>, localStore := Some st',
        regens := (if b \<and> (\<exists>k d lu. reported (meter a) reading k = Some d \<and> s_users st k = Some lu \<and> reaches d lu)
                   then Suc (regens a) else regens a)\<rparr> \<and>
      (\<forall>k. s_users st' k = map_option (charge_by (reported (meter a) reading k)) (s_users st k))"
proof -
  let ?es = "range_entries (reported (meter a) reading) (deltas_order env)"
  have o: "range_order reading (stats_order env)" "collected_now env = Some reading"
    "map_of ?es = reported (meter a) reading" "distinct (map fst ?es)"
    using assms(3) by (simp_all add: account_ok_def map_of_range_entries_order distinct_range_entries range_order_def)
  obtain st' c where f: "foldl (add_delta env) (st, False) ?es = (st', c)"
    by fastforce
  have "s_users st' k = map_option (charge_by (reported (meter a) reading k)) (s_users st k)" for k
    using foldl_add_delta(1) [OF o(4), of env st False k] by (simp add: f o(3))
  moreover have "c \<longleftrightarrow> (\<exists>k d lu. reported (meter a) reading k = Some d \<and> s_users st k = Some lu \<and> reaches d lu)"
    using foldl_add_delta(2) [OF o(4), of env st False] by (simp add: f o(3))
  moreover have "accountLocalTraffic env b a =
      a\<lparr>meter := (meter a)\<lparr>meter_last := next_last (meter a) reading\<rparr>, localStore := Some st',
        regens := (if b \<and> c then Suc (regens a) else regens a)\<rparr>"
    unfolding accountLocalTraffic_def assms(1) option.case o(2) Deltas_eq [OF o(1)] Let_def prod.case f
    using assms(2) by (simp add: conj_commute)
  ultimately show ?thesis by auto
qed

lemma accountLocalTraffic_frame [simp]:
  "cfg (accountLocalTraffic env b a) = cfg a" "generator (accountLocalTraffic env b a) = generator a"
  "sb (accountLocalTraffic env b a) = sb a" "config_file (accountLocalTraffic env b a) = config_file a"
  "monitor (accountLocalTraffic env b a) = monitor a" "secrets (accountLocalTraffic env b a) = secrets a"
  "localAPI (accountLocalTraffic env b a) = localAPI a" "currentVersion (accountLocalTraffic env b a) = currentVersion a"
  by (simp_all add: accountLocalTraffic_def Let_def split: option.split prod.split)

lemma foldl_add_delta_users:
  "dom (s_users (fst (foldl (add_delta env) (s, c) es))) = dom (s_users s) \<and>
   (store_wf s \<longrightarrow> store_wf (fst (foldl (add_delta env) (s, c) es)))"
proof (induction es arbitrary: s c)
  case (Cons e es)
  obtain k d where e: "e = (k, d)"
    by (cases e)
  have "dom (s_users (fst (AddTraffic (add_env env k) k (Upload d) (Download d) s))) = dom (s_users s)"
    by (auto simp: AddTraffic_charged(1))
  moreover have "store_wf (fst (AddTraffic (add_env env k) k (Upload d) (Download d) s))" if "store_wf s"
    using that by (auto simp: store_wf_def AddTraffic_charged(1))
  ultimately show ?case
    using Cons unfolding e foldl.simps add_delta_eq by metis
qed simp

lemma accountLocalTraffic_users:
  assumes "localStore a = Some st"
  shows "\<exists>st'. localStore (accountLocalTraffic env b a) = Some st' \<and> dom (s_users st') = dom (s_users st) \<and>
    (store_wf st \<longrightarrow> store_wf st')"
proof (cases "IsRunning (sb a) \<and> collected_now env \<noteq> None")
  case True
  then obtain reading where r: "collected_now env = Some reading"
    by auto
  obtain m' deltas where d: "Deltas (meter a) reading (stats_order env) = (m', deltas)"
    by fastforce
  obtain st' c where f: "foldl (add_delta env) (st, False) (range_entries deltas (deltas_order env)) = (st', c)"
    by fastforce
  have "localStore (accountLocalTraffic env b a) = Some st'"
    unfolding accountLocalTraffic_def assms option.case r Let_def d prod.case f using True by simp
  then show ?thesis
    using foldl_add_delta_users [of env st False "range_entries deltas (deltas_order env)"] by (simp add: f)
next
  case False
  then show ?thesis
    using assms by (auto simp: accountLocalTraffic_def split: option.split)
qed

section \<open>What regeneration writes\<close>

text \<open>The configuration can be printed, and the file is written whole.\<close>

definition write_ok :: "write_env \<Rightarrow> bool" where
  "write_ok w \<longleftrightarrow> (\<forall>j. \<exists>data. marshal_cfg w j = Inr data) \<and> (\<forall>p d f. os_write w p d f = (Some d, None))"

text \<open>The file holds the print of \<open>j\<close>.\<close>

definition holds_config :: "write_env \<Rightarrow> Agent \<Rightarrow> json \<Rightarrow> bool" where
  "holds_config w a j \<longleftrightarrow> (\<exists>data. marshal_cfg w j = Inr data \<and> config_file a = Some data)"

lemma write_config_ok:
  assumes "write_ok w"
  shows "snd (write_config w j a)" "holds_config w (fst (write_config w j a)) j"
proof -
  obtain data where "marshal_cfg w j = Inr data"
    using assms unfolding write_ok_def by blast
  then show "snd (write_config w j a)" "holds_config w (fst (write_config w j a)) j"
    using assms by (simp_all add: write_config_def WriteToFile_def Let_def holds_config_def write_ok_def)
qed

lemma write_config_frame [simp]:
  "cfg (fst (write_config w j a)) = cfg a" "generator (fst (write_config w j a)) = generator a"
  "localStore (fst (write_config w j a)) = localStore a" "monitor (fst (write_config w j a)) = monitor a"
  "meter (fst (write_config w j a)) = meter a" "mgr (sb (fst (write_config w j a))) = mgr (sb a)"
  "currentVersion (fst (write_config w j a)) = currentVersion a"
  by (simp_all add: write_config_def Let_def split_beta)

lemma reload_or_start_frame [simp]:
  "cfg (reload_or_start env a) = cfg a" "generator (reload_or_start env a) = generator a"
  "localStore (reload_or_start env a) = localStore a" "monitor (reload_or_start env a) = monitor a"
  "config_file (reload_or_start env a) = config_file a"
  by (simp_all add: reload_or_start_def)

definition regenerated :: "regen_env \<Rightarrow> Agent \<Rightarrow> Store \<Rightarrow> json" where
  "regenerated env a store =
     Generate (now env) (generator a) (map config_user (ListUsers (users_order env) store)) (RealitySNI (cfg a))"

lemma regenerateConfig_eq:
  assumes "localStore (accountLocalTraffic (accounting env) False a) = Some st" "write_ok (writing env)"
  shows "holds_config (writing env) (regenerateConfig env a) (regenerated env a st) \<and>
    localStore (regenerateConfig env a) = Some st \<and> meter_last (meter (regenerateConfig env a)) = Map.empty"
proof -
  define a1 where "a1 = accountLocalTraffic (accounting env) False a"
  define a2 where "a2 = a1\<lparr>monitor := UpdateUsers (map config_user (ListUsers (users_order env) st)) (monitor a1)\<rparr>"
  define a3 where "a3 = fst (write_config (writing env) (regenerated env a st) a2)"
  have f: "cfg a1 = cfg a" "generator a1 = generator a" "localStore a1 = Some st"
    using assms(1) by (simp_all add: a1_def)
  have "write_config (writing env) (regenerated env a st) a2 = (a3, True)"
    using write_config_ok(1) [OF assms(2), of "regenerated env a st" a2] by (simp add: a3_def prod_eq_iff)
  then have "regenerateConfig env a =
      (let a = reload_or_start (starting env) a3 in a\<lparr>meter := Reset (meter a)\<rparr>)"
    unfolding regenerateConfig_def a1_def [symmetric] Let_def f(3) option.case a2_def regenerated_def
    by (simp add: f)
  moreover have "holds_config (writing env) a3 (regenerated env a st)" "localStore a3 = Some st"
    using write_config_ok(2) [OF assms(2)] f(3) by (simp_all add: a3_def a2_def)
  ultimately show ?thesis
    by (simp add: Let_def holds_config_def Reset_def)
qed

lemma config_user_simps [simp]:
  "UUID (config_user lu) = l_UUID lu" "TrafficLimit (config_user lu) = l_TrafficLimit lu"
  "TrafficUsed (config_user lu) = l_TrafficUsed lu" "Enabled (config_user lu) = l_Enabled lu"
  "ExpireAt (config_user lu) = l_ExpireAt lu" "Protocols (config_user lu) = l_Protocols lu"
  "SSPassword (config_user lu) = l_SSPassword lu"
  by (simp_all add: config_user_def)

text \<open>The users a regeneration may serve: those of the store that are servable at that time.\<close>

definition local_servable :: "time \<Rightarrow> Store \<Rightarrow> string set" where
  "local_servable t store = {uuid. \<exists>lu. s_users store uuid = Some lu \<and> servable t (config_user lu)}"

lemma listed_users:
  assumes "store_wf st" "lu \<in> set (ListUsers ks st)"
  shows "s_users st (l_UUID lu) = Some lu"
  using assms by (auto simp: ListUsers_def set_range_values store_wf_def)

lemma regenerated_served:
  assumes "store_wf st"
  shows "served_names (regenerated env a st) \<subseteq> JStr ` local_servable (now env) st"
proof -
  have "(JStr \<circ> UUID) ` set (filter (servable t) (map config_user (ListUsers ks st))) \<subseteq> JStr ` local_servable t st" for t ks
    using listed_users [OF assms, of _ ks] by (fastforce simp: local_servable_def)
  then show ?thesis
    unfolding regenerated_def using served_names_servable by (meson order_trans)
qed

lemma regenerated_counted:
  assumes "store_wf st" "dom (s_users st) \<subseteq> set (users_order env)"
  shows "set (stats_users (regenerated env a st)) = JStr ` local_servable (now env) st"
proof -
  have "(JStr \<circ> UUID) ` set (filter (servable t) (map config_user (ListUsers (users_order env) st))) =
      JStr ` local_servable t st" for t
  proof (intro equalityI subsetI)
    fix x
    assume "x \<in> JStr ` local_servable t st"
    then obtain uuid lu where x: "x = JStr uuid" "s_users st uuid = Some lu" "servable t (config_user lu)"
      by (auto simp: local_servable_def)
    then have "lu \<in> set (ListUsers (users_order env) st)" "l_UUID lu = uuid"
      using assms by (auto simp: ListUsers_def set_range_values store_wf_def)
    with x show "x \<in> (JStr \<circ> UUID) ` set (filter (servable t) (map config_user (ListUsers (users_order env) st)))"
      by (intro image_eqI [of _ _ "config_user lu"]) auto
  qed (use listed_users [OF assms(1), of _ "users_order env"] in \<open>fastforce simp: local_servable_def\<close>)
  then show ?thesis
    by (simp add: regenerated_def stats_users_servable)
qed

text \<open>The increment, if any, does not overflow the user's counter.\<close>

definition fits :: "UserStats option \<Rightarrow> LocalUser \<Rightarrow> bool" where
  "fits od lu = (case od of None \<Rightarrow> True
     | Some d \<Rightarrow> is_i64 (Upload d + Download d) \<and> is_i64 (l_TrafficUsed lu + (Upload d + Download d)))"

lemma charge_by_used:
  "fits od lu \<Longrightarrow> l_TrafficUsed (charge_by od lu) =
     l_TrafficUsed lu + (case od of None \<Rightarrow> 0 | Some d \<Rightarrow> max 0 (Upload d + Download d))"
  by (auto simp: fits_def charge_by_def charged_def i64_id max_def split: option.split)

lemma accountLocalTraffic_user:
  assumes "localStore a = Some st" "store_wf st" "s_users st uuid = Some lu"
    and "\<And>r. collected_now env = Some r \<Longrightarrow> account_ok env a r \<and> fits (reported (meter a) r uuid) lu"
  obtains st' lu' where "localStore (accountLocalTraffic env b a) = Some st'" "store_wf st'"
    "s_users st' uuid = Some lu'" "l_TrafficLimit lu' = l_TrafficLimit lu" "l_TrafficUsed lu \<le> l_TrafficUsed lu'"
proof (cases "IsRunning (sb a) \<and> collected_now env \<noteq> None")
  case True
  then obtain r where r: "account_ok env a r" "fits (reported (meter a) r uuid) lu"
    using assms(4) by auto
  obtain st' where st': "localStore (accountLocalTraffic env b a) = Some st'"
    "s_users st' uuid = map_option (charge_by (reported (meter a) r uuid)) (s_users st uuid)"
    using accountLocalTraffic_spec [OF assms(1) _ r(1), of b] True by auto
  moreover have "store_wf st'"
    using accountLocalTraffic_users [OF assms(1), of env b] assms(2) st'(1) by auto
  ultimately show ?thesis
    using that [of st' "charge_by (reported (meter a) r uuid) lu"] assms(3) charge_by_used [OF r(2)]
    by (auto split: option.splits)
next
  case False
  then have "accountLocalTraffic env b a = a"
    using assms(1) by (auto simp: accountLocalTraffic_def)
  then show ?thesis
    using that [of st lu] assms by simp
qed

section \<open>What a regeneration serves\<close>

text \<open>
  The entry a user has in the inbound of a protocol, and whether he may use the node, in terms of
  the store alone: his id, his password and his limits.
\<close>

definition user_entry :: "string \<Rightarrow> string \<Rightarrow> string \<Rightarrow> json" where
  "user_entry proto uuid password =
     (let n = (''name'', JStr uuid) in
      if proto = ''vless'' then JObj [n, (''uuid'', JStr uuid), (''flow'', JStr ''xtls-rprx-vision'')]
      else if proto = ''shadowsocks'' then JObj [n, (''password'', JStr password)]
      else if proto = ''vmess'' then JObj [n, (''uuid'', JStr uuid), (''alterId'', JNum 0)]
      else if proto = ''trojan'' then JObj [n, (''password'', JStr (TrojanPassword uuid))]
      else if proto = ''hysteria2'' then JObj [n, (''password'', JStr (Hysteria2Password uuid))]
      else JObj [n, (''uuid'', JStr (TUICUUID uuid)), (''password'', JStr (TUICPassword uuid))])"

definition may_use :: "time \<Rightarrow> LocalUser \<Rightarrow> bool" where
  "may_use t lu \<longleftrightarrow> l_Enabled lu \<and> \<not> (0 < l_TrafficLimit lu \<and> l_TrafficLimit lu \<le> l_TrafficUsed lu) \<and>
     (case l_ExpireAt lu of None \<Rightarrow> True | Some e \<Rightarrow> t \<le> e)"

lemma proto_entry_user: "proto_entry proto u = user_entry proto (UUID u) (SSPassword u)"
  by (simp add: proto_entry_def user_entry_def)

lemma servable_config_user: "servable t (config_user lu) \<longleftrightarrow> may_use t lu"
  by (auto simp: servable_def may_use_def OverQuota_def Expired_def split: option.split)

lemma set_proto_entries:
  "set (proto_entries proto us) = {user_entry proto (UUID u) (SSPassword u) | u. u \<in> set us \<and> proto \<in> set (Protocols u)}"
  by (force simp: proto_entries_def proto_entry_user count_list_0_iff)

text \<open>The users of an inbound; an inbound that is not enabled does not exist.\<close>

lemma Generate_inbounds:
  assumes "(proto, tag) \<in> set protocol_tags"
  shows "if proto_enabled g proto
    then set (inbound_users (Generate t g us sni) tag) =
      {user_entry proto (UUID u) (SSPassword u) | u. u \<in> set us \<and> servable t u \<and> proto \<in> set (Protocols u)}
    else inbound (Generate t g us sni) tag = None"
proof -
  have "list_all (\<lambda>(proto, tag). \<not> proto_enabled g proto \<longrightarrow> inbound (Generate t g us sni) tag = None) protocol_tags"
    by (simp only: protocol_tags_def list.pred_inject prod.case inbound_Generate always_enabled if_False simp_thms)
      simp
  then show ?thesis
    using assms by (auto simp: inbound_users_servable [OF assms] set_proto_entries list_all_iff)
qed

text \<open>Accounting changes nothing of a user but the traffic used.\<close>

definition untraffic :: "LocalUser \<Rightarrow> LocalUser" where
  "untraffic lu = lu\<lparr>l_TrafficUsed := 0\<rparr>"

lemma untraffic_charged: "untraffic (charged d lu) = untraffic lu"
  by (simp add: untraffic_def charged_def)

lemma foldl_add_delta_untraffic:
  "map_option untraffic (s_users (fst (foldl (add_delta env) (s, c) es)) uuid) = map_option untraffic (s_users s uuid)"
proof (induction es arbitrary: s c)
  case (Cons e es)
  obtain k d where e: "e = (k, d)"
    by (cases e)
  have "map_option untraffic (s_users (fst (AddTraffic (add_env env k) k (Upload d) (Download d) s)) uuid) =
      map_option untraffic (s_users s uuid)"
    by (auto simp: AddTraffic_charged(1) option.map_comp untraffic_charged comp_def)
  then show ?case
    using Cons unfolding e foldl.simps add_delta_eq by metis
qed simp

lemma accountLocalTraffic_untraffic:
  assumes "localStore a = Some st" "localStore (accountLocalTraffic env b a) = Some st'"
  shows "map_option untraffic (s_users st' uuid) = map_option untraffic (s_users st uuid)"
proof (cases "IsRunning (sb a) \<and> collected_now env \<noteq> None")
  case True
  then obtain reading where r: "collected_now env = Some reading"
    by auto
  obtain m' deltas where d: "Deltas (meter a) reading (stats_order env) = (m', deltas)"
    by fastforce
  obtain st2 c where f: "foldl (add_delta env) (st, False) (range_entries deltas (deltas_order env)) = (st2, c)"
    by fastforce
  have "localStore (accountLocalTraffic env b a) = Some st2"
    unfolding accountLocalTraffic_def assms(1) option.case r Let_def d prod.case f using True by simp
  then show ?thesis
    using assms(2) foldl_add_delta_untraffic [of env st False "range_entries deltas (deltas_order env)" uuid] by (simp add: f)
next
  case False
  then show ?thesis
    using assms by (auto simp: accountLocalTraffic_def split: option.splits)
qed

section \<open>After a revocation\<close>

definition no_users_left :: "Agent \<Rightarrow> bool" where
  "no_users_left a \<longleftrightarrow> (\<exists>st. localStore a = Some st \<and> s_users st = Map.empty \<and> s_users (restart st) = Map.empty)"

text \<open>What the late events leave alone.\<close>

definition revoked_parts :: "Agent \<Rightarrow> node_dir \<times> bool \<times> bool \<times> Tunnel.Manager option \<times> nat set" where
  "revoked_parts a = (node_files a, revoked a, shut_down a, tunnelMgr a, cancelled_tunnels a)"

lemma accountLocalTraffic_parts [simp]: "revoked_parts (accountLocalTraffic env b a) = revoked_parts a"
  by (simp add: revoked_parts_def accountLocalTraffic_def Let_def split: option.split prod.split)

lemma regenerateConfig_parts: "revoked_parts (regenerateConfig env a) = revoked_parts a"
proof -
  have w: "revoked_parts (fst (write_config w j b)) = revoked_parts b" for w j b
    by (simp add: revoked_parts_def write_config_def Let_def split_beta)
  have r: "revoked_parts (reload_or_start e b) = revoked_parts b" for e b
    by (simp add: revoked_parts_def reload_or_start_def)
  have u: "revoked_parts (b\<lparr>monitor := m\<rparr>) = revoked_parts b" "revoked_parts (b\<lparr>meter := k\<rparr>) = revoked_parts b" for b m k
    by (simp_all add: revoked_parts_def)
  show ?thesis
    unfolding regenerateConfig_def Let_def by (simp add: split_beta u r w split: option.split)
qed

lemma foldl_add_delta_empty:
  "s_users s = Map.empty \<Longrightarrow> foldl (add_delta env) (s, c) es = (s, c)"
proof (induction es)
  case (Cons e es)
  moreover have "add_delta env (s, c) e = (s, c)"
    using Cons.prems by (cases e) (simp add: add_delta_def AddTraffic_def)
  ultimately show ?case
    by simp
qed simp

lemma accountLocalTraffic_empty:
  assumes "localStore a = Some st" "s_users st = Map.empty"
  shows "localStore (accountLocalTraffic env b a) = Some st"
  using assms by (auto simp: accountLocalTraffic_def foldl_add_delta_empty Let_def split_beta split: option.split)

text \<open>The file was not written, or it holds a configuration that serves and counts nobody.\<close>

definition serves_nobody :: "late_event list \<Rightarrow> Agent \<Rightarrow> bool" where
  "serves_nobody es a \<longleftrightarrow>
     (\<exists>env config. LateRegen env \<in> set es \<and> holds_config (writing env) a config \<and>
        served_names config = {} \<and> stats_users config = [])"

definition late_ok :: "late_event \<Rightarrow> bool" where
  "late_ok e = (case e of LateRegen env \<Rightarrow> write_ok (writing env) | LateQuota _ _ _ \<Rightarrow> True)"

lemma late_regeneration:
  assumes "no_users_left a" "write_ok (writing env)"
  shows "no_users_left (regenerateConfig env a) \<and>
    (\<exists>config. holds_config (writing env) (regenerateConfig env a) config \<and> served_names config = {} \<and> stats_users config = [])"
proof -
  obtain st where st: "localStore a = Some st" "s_users st = Map.empty" "s_users (restart st) = Map.empty"
    using assms(1) by (auto simp: no_users_left_def)
  have none: "ListUsers ks st = []" for ks
    using st(2) by (simp add: ListUsers_def range_values_def List.map_filter_def)
  have "stats_users (regenerated env a st) = []"
    by (simp add: regenerated_def none stats_users_servable)
  moreover have "served_names (regenerated env a st) = {}"
    using served_names_servable [of "now env" "generator a" "[]" "RealitySNI (cfg a)"] by (simp add: regenerated_def none)
  ultimately show ?thesis
    using regenerateConfig_eq [OF accountLocalTraffic_empty [OF st(1,2)] assms(2)] st by (auto simp: no_users_left_def)
qed

lemma late_step_spec:
  assumes "no_users_left a" "late_ok e"
  shows "no_users_left (late_step e a)" "revoked_parts (late_step e a) = revoked_parts a"
    "config_file (late_step e a) = config_file a \<or> serves_nobody [e] (late_step e a)"
    "(\<nexists>env. e = LateRegen env) \<Longrightarrow> sb (late_step e a) = sb a"
proof -
  have mon: "no_users_left (a\<lparr>monitor := m\<rparr>) = no_users_left a" "revoked_parts (a\<lparr>monitor := m\<rparr>) = revoked_parts a" for m
    by (simp_all add: no_users_left_def revoked_parts_def)
  have acc: "no_users_left (accountLocalTraffic env b a')" if "no_users_left a'" for env b a'
    using that accountLocalTraffic_empty [of a' _ env b] by (auto simp: no_users_left_def)
  show "no_users_left (late_step e a)" "revoked_parts (late_step e a) = revoked_parts a"
    "config_file (late_step e a) = config_file a \<or> serves_nobody [e] (late_step e a)"
    "(\<nexists>env. e = LateRegen env) \<Longrightarrow> sb (late_step e a) = sb a"
    using assms late_regeneration [OF assms(1)]
    by (cases e; auto simp: late_ok_def regenerateConfig_parts serves_nobody_def mon acc)+
qed

lemma run_late_spec:
  "list_all late_ok es \<Longrightarrow> no_users_left a \<Longrightarrow>
     no_users_left (run_late es a) \<and> revoked_parts (run_late es a) = revoked_parts a \<and>
     (config_file (run_late es a) = config_file a \<or> serves_nobody es (run_late es a)) \<and>
     ((\<forall>env. LateRegen env \<notin> set es) \<longrightarrow> sb (run_late es a) = sb a)"
proof (induction es arbitrary: a)
  case (Cons e es)
  note step = late_step_spec [OF Cons.prems(2), of e]
  have run: "run_late (e # es) a = run_late es (late_step e a)" for a
    by (simp add: run_late_def)
  have "serves_nobody (e # es) b" if "serves_nobody [e] b \<or> serves_nobody es b" for b
    using that by (auto simp: serves_nobody_def)
  moreover have "serves_nobody [e] b" if "serves_nobody [e] b'" "config_file b = config_file b'" for b b'
    using that by (auto simp: serves_nobody_def holds_config_def)
  ultimately show ?case
    using step Cons.IH [of "late_step e a"] Cons.prems unfolding run by auto
qed (simp add: run_late_def)

end
