(* ===== verification/Startup.thy ===== *)
theory Startup
  imports SshServer MachineId Agent
begin

text \<open>
  \<^verbatim>\<open>cmd/agent/main.go\<close>, from \<^verbatim>\<open>main\<close> to the running loops: the choice between the agent and
  \<^verbatim>\<open>obox-key\<close>, the start of the enrolment (\<^verbatim>\<open>startEnrollment\<close>) with the SSH server and the tunnel
  manager it sets up, and the exit codes. It puts the components of enrolment together: the
  machine's fingerprint, the registration, the credentials, the host key and the executor.
\<close>

section \<open>Enrolment\<close>

text \<open>
  \<^verbatim>\<open>detectOS\<close> on the content of \<^verbatim>\<open>/etc/os-release\<close> (\<open>None\<close>: it cannot be read); \<open>lower\<close> is
  \<^verbatim>\<open>strings.ToLower\<close>.
\<close>

definition detectOS :: "(string \<Rightarrow> string) \<Rightarrow> string option \<Rightarrow> string" where
  "detectOS lower b =
     (case b of
        None \<Rightarrow> ''unknown''
      | Some b \<Rightarrow>
          (case find (\<lambda>line. HasPrefix line ''PRETTY_NAME='') (Split b newline) of
             None \<Rightarrow> ''unknown''
           | Some line \<Rightarrow>
               (let v = TrimRight (dropWhile (\<lambda>c. c = CHR 0x22) (TrimSpace (TrimPrefix line ''PRETTY_NAME=''))) (CHR 0x22);
                    v = lower v
                in if 64 < length v then take 64 v else v)))"

text \<open>The contract with the backend: at most 64 bytes.\<close>

lemma length_detectOS: "length (detectOS lower b) \<le> 64"
  by (simp add: detectOS_def Let_def split: option.split)

text \<open>
  What enrolment reads from outside. \<open>seed_bytes\<close>, \<open>boot_bytes\<close> and \<open>id_bytes\<close> are three draws from
  \<^verbatim>\<open>crypto/rand\<close>; \<open>attempts\<close> is what happens to the requests of the registration; \<open>hostname_of\<close> is
  the URL parser, \<open>to_lower\<close> is \<^verbatim>\<open>strings.ToLower\<close>.
\<close>

record enroll_env =
  getenv :: "string \<Rightarrow> string"
  decode_node :: "string \<Rightarrow> NodeFile option"
  encode_node :: "NodeFile \<Rightarrow> string"
  save_fault :: "save_step option"
  save_partial :: string
  exe_path :: "string option"
  exe_files :: fsys
  agent_version :: string
  seed_bytes :: "byte list option"
  seed_outcome :: seed_write
  boot_bytes :: "byte list option"
  this_machine :: machine
  id_bytes :: "byte list option"
  id_outcome :: id_write
  enroll_ips :: "ip_answer list"
  os_release :: "string option"
  to_lower :: "string \<Rightarrow> string"
  arch_name :: string
  singbox_out :: "string option"
  hostname_of :: "string \<Rightarrow> string option"
  enroll_time :: time
  attempts :: "RegisterRequest \<Rightarrow> attempt_in list"

text \<open>The agent, the executor, the SSH server, and the two files of the data directory they keep.\<close>

record enrolment =
  en_agent :: Agent
  en_executor :: Executor
  sshServer :: "Server option"
  seed_file :: "string option"
  id_file :: "string option"

definition nodeSecrets_json :: "Agent \<Rightarrow> json" where
  "nodeSecrets_json a =
     JObj [(''reality_public_key'', JStr (PublicKey (secrets a))), (''short_ids'', JArr (map JStr (ShortIDs (secrets a)))),
           (''reality_sni'', JStr (RealitySNI (cfg a))), (''ss_method'', JStr ''chacha20-ietf-poly1305'')]"

text \<open>The \<^verbatim>\<open>nodeInfo\<close> adapter with what \<^verbatim>\<open>Runner\<close> adds to it for a registration.\<close>

definition nodeInfo :: "enroll_env \<Rightarrow> (id_error + string) \<Rightarrow> Agent \<Rightarrow> node_info" where
  "nodeInfo env m a =
     \<lparr>info_Version = agent_version env, info_Singbox = singboxVersion (singbox_out env), info_OS = detectOS (to_lower env) (os_release env),
      info_Arch = arch_name env, info_IP = DetectPublicIP (enroll_ips env),
      info_Ports = JObj (map (\<lambda>(k, p). (k, JNum p)) (ListenPorts a)), info_Secrets = nodeSecrets_json a,
      mid = (case m of Inl err \<Rightarrow> None | Inr i \<Rightarrow> Some i), info_APIURL = APIURL (cfg a)\<rparr>"

definition setupTunnel :: "enroll_env \<Rightarrow> string \<Rightarrow> string \<Rightarrow> enrolment \<Rightarrow> enrolment" where
  "setupTunnel env nodeID nodeSecret e =
     (case NewServer (seed_bytes env) (seed_outcome env) nodeID nodeSecret ''data'' (seed_file e) of
        (f, Inl err) \<Rightarrow> e\<lparr>seed_file := f\<rparr>
      | (f, Inr srv) \<Rightarrow>
          e\<lparr>seed_file := f, sshServer := Some (EnableOwnerKeys srv),
            en_agent := (en_agent e)\<lparr>tunnelMgr := Some (Tunnel.NewManager nodeID nodeSecret 3)\<rparr>,
            en_executor := EnableTunnel (apiHost (hostname_of env) (APIURL (cfg (en_agent e)))) (en_executor e)\<rparr>)"

text \<open>
  \<^verbatim>\<open>runner.Prepare\<close> on the files: the credentials, no credentials for an error (a refusal is told
  apart), or still trying.
\<close>

datatype prepared = PreparedWith NodeFile | Refused APIError | PrepareError | StillRegistering

definition run_Prepare :: "enroll_env \<Rightarrow> enrolment \<Rightarrow> enrolment \<times> prepared" where
  "run_Prepare env e =
     (let d = node_files (en_agent e) in
      case Prepare (boot_bytes env) (LoadNodeFile (decode_node env) (final d)) (getenv env ''OTUN_ENROLL_TOKEN'') of
        BootIDFailed \<Rightarrow> (e, PrepareError)
      | NoToken \<Rightarrow> (e, PrepareError)
      | Enrolled boot nf \<Rightarrow> (e, PreparedWith nf)
      | MustRegister boot \<Rightarrow>
          (let (idf, m) = MachineID (id_bytes env) (id_outcome env) (this_machine env) (id_file e);
               (ds, r) = register (encode_node env) (save_fault env) (save_partial env) (nodeInfo env m (en_agent e))
                           (getenv env ''OTUN_ENROLL_TOKEN'') boot (enroll_time env) (attempts env) d;
               e = e\<lparr>id_file := idf, en_agent := (en_agent e)\<lparr>node_files := last ds\<rparr>\<rparr>
           in (e, case r of
                    None \<Rightarrow> StillRegistering
                  | Some (Inl (EnrollFatal err)) \<Rightarrow> Refused err
                  | Some (Inl _) \<Rightarrow> PrepareError
                  | Some (Inr nf) \<Rightarrow> PreparedWith nf)))"

text \<open>
  \<^verbatim>\<open>startEnrollment\<close> up to the start of the poll loop. \<open>EnrollExit\<close> ends the process with its code;
  \<open>EnrollError\<close> is logged and the agent goes on without the backend.
\<close>

datatype enroll_outcome = NotConfigured | EnrollExit enrolment int | EnrollError enrolment | EnrollWaits enrolment
  | EnrollRuns enrolment

definition stored_node :: "enroll_env \<Rightarrow> Agent \<Rightarrow> NodeFile option" where
  "stored_node env a = (case LoadNodeFile (decode_node env) (final (node_files a)) of Inl err \<Rightarrow> None | Inr r \<Rightarrow> r)"

definition startEnrollment :: "enroll_env \<Rightarrow> string option \<Rightarrow> string option \<Rightarrow> Agent \<Rightarrow> enroll_outcome" where
  "startEnrollment env seedf idf a =
     (let existing = stored_node env a in
      case enrollment_executor (getenv env) existing (exe_path env) (agent_version env) (exe_files env) of
        None \<Rightarrow> NotConfigured
      | Some ex \<Rightarrow>
          (let e = \<lparr>en_agent = a, en_executor = ex, sshServer = None, seed_file = seedf, id_file = idf\<rparr>;
               e = (case existing of None \<Rightarrow> e | Some nf \<Rightarrow> setupTunnel env (nf_NodeID nf) (nf_NodeSecret nf) e);
               (e, r) = run_Prepare env e
           in case r of
                Refused err \<Rightarrow> EnrollExit e ExitRevokedCode
              | PrepareError \<Rightarrow> EnrollError e
              | StillRegistering \<Rightarrow> EnrollWaits e
              | PreparedWith nf \<Rightarrow>
                  EnrollRuns
                    (if sshServer e = None
                     then (case stored_node env (en_agent e) of
                             None \<Rightarrow> e
                           | Some nf \<Rightarrow> setupTunnel env (nf_NodeID nf) (nf_NodeSecret nf) e)
                     else e)))"

section \<open>The program\<close>

text \<open>
  The HTTP server on port 8080 (\<^verbatim>\<open>startHTTPServer\<close>): the two probes, and the local interface where
  there is one.
\<close>

definition probe_answer :: "bool \<Rightarrow> Request \<Rightarrow> Response" where
  "probe_answer ok r =
     (case mux_handler health_routes r of
        Redirect \<Rightarrow> redirected
      | NotFound \<Rightarrow> http_NotFound ''404 page not found''
      | Found h \<Rightarrow> (case h of Health \<Rightarrow> HandleHealth ok | _ \<Rightarrow> HandleReady))"

definition startHTTPServer :: "api_env \<Rightarrow> Agent \<Rightarrow> Request \<Rightarrow> Agent \<times> Response" where
  "startHTTPServer env a r =
     (case (localStore a, localAPI a) of
        (Some st, Some nc) \<Rightarrow>
          (let (st, resp) = ServeHTTP env (NewLocalAPIServer (NodeAPIKey (cfg a)) (Some nc)) (healthy a) r st
           in (a\<lparr>localStore := Some st\<rparr>, resp))
      | _ \<Rightarrow> (a, probe_answer (healthy a) r))"

text \<open>
  \<^verbatim>\<open>main\<close>: \<^verbatim>\<open>obox-key\<close> with the lists it leaves and its exit code, \<^verbatim>\<open>log.Fatal\<close> (exit code 1), a panic (2), or the agent that
  runs; when it returns the exit code is \<open>exit_code\<close>.
\<close>

datatype main_result = MainExit key_dirs int | MainAgent Agent

definition main :: "ssh_lib \<Rightarrow> string \<Rightarrow> AuthKeys.key_write \<Rightarrow> (string \<Rightarrow> string) \<Rightarrow> string \<Rightarrow> string list \<Rightarrow> key_dirs \<Rightarrow>
    AgentConfig \<Rightarrow> boot_env \<Rightarrow> secrets_error + NodeSecrets \<Rightarrow> main_result" where
  "main lib stamp w env prog rest fs c boot loaded =
     (if isOboxKeyInvocation prog rest then
        (case runOboxKey_dirs lib stamp w env (oboxKeyArgs prog rest) fs of (fs, code) \<Rightarrow> MainExit fs code)
      else if NodeAPIKey c = '''' then MainExit fs 1
      else
        (case NewAgent boot loaded c of
           SecretsFailed err \<Rightarrow> MainExit fs 1
         | IndexOutOfRange \<Rightarrow> MainExit fs 2
         | AgentReady a \<Rightarrow> MainAgent a))"

section \<open>An enrolled agent can be reached\<close>

text \<open>A host key is at hand or can be made.\<close>

definition seed_ready :: "enroll_env \<Rightarrow> string option \<Rightarrow> bool" where
  "seed_ready env seedf \<longleftrightarrow> usable_seed seedf \<noteq> None \<or> (seed_bytes env \<noteq> None \<and> seed_outcome env = SeedRenamed)"

text \<open>The tunnel of a node is set up: its identity, the allowed host, and the owner's keys are those of the node.\<close>

definition tunnel_for :: "enroll_env \<Rightarrow> NodeFile \<Rightarrow> enrolment \<Rightarrow> bool" where
  "tunnel_for env nf e \<longleftrightarrow>
     tunnelMgr (en_agent e) = Some (Tunnel.NewManager (nf_NodeID nf) (nf_NodeSecret nf) 3) \<and>
     (\<exists>srv. sshServer e = Some srv \<and> s_nodeID srv = nf_NodeID nf \<and> has_authKeys srv) \<and>
     has_tunnel (en_executor e) \<and> tunnelHost (en_executor e) = apiHost (hostname_of env) (APIURL (cfg (en_agent e)))"

lemma setupTunnel_cases:
  obtains (failed) f where "setupTunnel env i s e = e\<lparr>seed_file := f\<rparr>" "\<not> seed_ready env (seed_file e)"
  | (ready) f srv where "setupTunnel env i s e = e\<lparr>seed_file := f, sshServer := Some srv,
        en_agent := (en_agent e)\<lparr>tunnelMgr := Some (Tunnel.NewManager i s 3)\<rparr>,
        en_executor := EnableTunnel (apiHost (hostname_of env) (APIURL (cfg (en_agent e)))) (en_executor e)\<rparr>"
      "s_nodeID srv = i" "has_authKeys srv"
proof (cases "NewServer (seed_bytes env) (seed_outcome env) i s ''data'' (seed_file e)")
  case (Pair f r)
  show ?thesis
  proof (cases r)
    case (Inl err)
    then have "\<not> seed_ready env (seed_file e)"
      using Pair by (auto simp: NewServer_def loadOrCreateHostKeySeed_def seed_ready_def split: option.splits seed_write.splits)
    with failed show ?thesis
      using Pair Inl by (simp add: setupTunnel_def)
  next
    case (Inr srv)
    then have "s_nodeID srv = i"
      using Pair by (auto simp: NewServer_def split: prod.splits sum.splits)
    then show ?thesis
      using ready [where f = f and srv = "EnableOwnerKeys srv"] Pair Inr by (simp add: setupTunnel_def EnableOwnerKeys_def)
  qed
qed

lemma setupTunnel_frame:
  "node_files (en_agent (setupTunnel env i s e)) = node_files (en_agent e)" "cfg (en_agent (setupTunnel env i s e)) = cfg (en_agent e)"
  by (cases rule: setupTunnel_cases [of env i s e]; simp)+

text \<open>The backend's answers to registrations carry an identity.\<close>

definition answers_ok :: "enroll_env \<Rightarrow> bool" where
  "answers_ok env \<longleftrightarrow> (\<forall>req. \<forall>x \<in> set (attempts env req). \<forall>resp.
     reg_result x = Inr resp \<longrightarrow> rr_NodeID resp \<noteq> '''' \<and> rr_NodeSecret resp \<noteq> '''')"

lemma register_loop_Registered:
  "fst (register_loop k as) = Registered resp \<Longrightarrow> \<exists>x \<in> set as. reg_result x = Inr resp"
  by (induction k as rule: register_loop.induct) (auto simp: Let_def split: sum.splits if_splits prod.splits)

lemma register_stored:
  assumes "register enc fault partial info token boot t att d = (ds, Some (Inr nf))"
  shows "final (last ds) = NodeContent (enc nf)"
    "\<exists>m. \<exists>x \<in> set (att (register_request info token boot m)). \<exists>resp. reg_result x = Inr resp \<and>
      nf_NodeID nf = rr_NodeID resp \<and> nf_NodeSecret nf = rr_NodeSecret resp"
proof -
  obtain m resp where m: "fst (register_loop 0 (att (register_request info token boot m))) = Registered resp"
    and nf: "nf_NodeID nf = rr_NodeID resp" "nf_NodeSecret nf = rr_NodeSecret resp" "final (last ds) = NodeContent (enc nf)"
    using assms
    by (auto simp: register_def SaveNodeFile_def Let_def split: option.splits register_result.splits prod.splits if_splits)
  then show "final (last ds) = NodeContent (enc nf)"
    "\<exists>m. \<exists>x \<in> set (att (register_request info token boot m)). \<exists>resp. reg_result x = Inr resp \<and>
      nf_NodeID nf = rr_NodeID resp \<and> nf_NodeSecret nf = rr_NodeSecret resp"
    using register_loop_Registered [OF m] by auto
qed

lemma run_Prepare_cases:
  assumes "run_Prepare env e = (e', PreparedWith nf)" "answers_ok env" "\<And>nf. decode_node env (encode_node env nf) = Some nf"
  shows "stored_node env (en_agent e') = Some nf" "stored_node env (en_agent e) \<noteq> None \<Longrightarrow> e' = e"
    "sshServer e' = sshServer e" "seed_file e' = seed_file e" "tunnel_for env nf' e' = tunnel_for env nf' e"
proof -
  let ?d = "node_files (en_agent e)"
  have "stored_node env (en_agent e') = Some nf \<and> (stored_node env (en_agent e) \<noteq> None \<longrightarrow> e' = e) \<and>
    sshServer e' = sshServer e \<and> seed_file e' = seed_file e \<and> tunnel_for env nf' e' = tunnel_for env nf' e"
  proof (cases "Prepare (boot_bytes env) (LoadNodeFile (decode_node env) (final ?d)) (getenv env ''OTUN_ENROLL_TOKEN'')")
    case (MustRegister boot)
    have none: "stored_node env (en_agent e) = None"
      using MustRegister by (auto simp: Prepare_def stored_node_def Let_def split: option.splits sum.splits if_splits)
    obtain idf m where m: "MachineID (id_bytes env) (id_outcome env) (this_machine env) (id_file e) = (idf, m)"
      by fastforce
    obtain ds r where r: "register (encode_node env) (save_fault env) (save_partial env) (nodeInfo env m (en_agent e))
        (getenv env ''OTUN_ENROLL_TOKEN'') boot (enroll_time env) (attempts env) ?d = (ds, r)"
      by fastforce
    have e': "r = Some (Inr nf)" "e' = e\<lparr>id_file := idf, en_agent := (en_agent e)\<lparr>node_files := last ds\<rparr>\<rparr>"
      using assms(1) MustRegister m r
      by (auto simp: run_Prepare_def Let_def split: option.splits sum.splits register_error.splits)
    have "nf_NodeID nf \<noteq> ''''" "nf_NodeSecret nf \<noteq> ''''"
      using register_stored(2) [OF r [unfolded e'(1)]] assms(2) unfolding answers_ok_def by metis+
    then show ?thesis
      using register_stored(1) [OF r [unfolded e'(1)]] none assms(3)
      by (simp add: e'(2) stored_node_def LoadNodeFile_def tunnel_for_def)
  next
    case (Enrolled boot nf')
    then have "e' = e" "nf = nf'"
      using assms(1) by (simp_all add: run_Prepare_def Let_def)
    then show ?thesis
      using Enrolled by (auto simp: Prepare_def stored_node_def Let_def split: option.splits sum.splits if_splits)
  qed (use assms(1) in \<open>simp_all add: run_Prepare_def Let_def\<close>)
  then show "stored_node env (en_agent e') = Some nf" "stored_node env (en_agent e) \<noteq> None \<Longrightarrow> e' = e"
    "sshServer e' = sshServer e" "seed_file e' = seed_file e" "tunnel_for env nf' e' = tunnel_for env nf' e"
    by auto
qed

lemma stored_node_setupTunnel: "stored_node env (en_agent (setupTunnel env i s e)) = stored_node env (en_agent e)"
  by (simp add: stored_node_def setupTunnel_frame)

lemma setupTunnel_ready:
  assumes "seed_ready env (seed_file e)"
  shows "tunnel_for env nf (setupTunnel env (nf_NodeID nf) (nf_NodeSecret nf) e)"
    "sshServer (setupTunnel env i s e) \<noteq> None"
  using assms by (cases rule: setupTunnel_cases [of env "nf_NodeID nf" "nf_NodeSecret nf" e]; simp add: tunnel_for_def EnableTunnel_def)
    (use assms in \<open>cases rule: setupTunnel_cases [of env i s e]; simp\<close>)

text \<open>
  C17. An agent whose poll loop runs can be reached: its credentials are on disk, and (a host key
  being at hand or makeable) its tunnel manager dials with exactly these credentials, its SSH
  server is this node's and asks for the owner's keys, and its executor opens tunnels to the host
  of the configured API only. This holds for a node that had enrolled before and for one that
  registers now. Without a token and without credentials nothing is started.
\<close>

theorem enrolled_agent_is_reachable:
  assumes "startEnrollment env seedf idf a = EnrollRuns e" "answers_ok env" "\<And>nf. decode_node env (encode_node env nf) = Some nf"
  shows "\<exists>nf. stored_node env (en_agent e) = Some nf \<and> (seed_ready env seedf \<longrightarrow> tunnel_for env nf e) \<and>
    (getenv env ''OTUN_ENROLL_TOKEN'' = '''' \<longrightarrow> stored_node env a = Some nf)"
proof -
  obtain ex where ex: "enrollment_executor (getenv env) (stored_node env a) (exe_path env) (agent_version env) (exe_files env) = Some ex"
    using assms(1)
    by (cases "enrollment_executor (getenv env) (stored_node env a) (exe_path env) (agent_version env) (exe_files env)")
      (auto simp: startEnrollment_def)
  define e0 where "e0 = \<lparr>en_agent = a, en_executor = ex, sshServer = None, seed_file = seedf, id_file = idf\<rparr>"
  define e1 where "e1 = (case stored_node env a of None \<Rightarrow> e0 | Some nf \<Rightarrow> setupTunnel env (nf_NodeID nf) (nf_NodeSecret nf) e0)"
  have e1: "stored_node env (en_agent e1) = stored_node env a"
    by (simp add: e1_def e0_def stored_node_setupTunnel split: option.split)
  obtain e2 r where e2: "run_Prepare env e1 = (e2, r)"
    by fastforce
  then obtain nf where r: "r = PreparedWith nf"
    and e: "e = (if sshServer e2 = None
      then (case stored_node env (en_agent e2) of None \<Rightarrow> e2 | Some nf \<Rightarrow> setupTunnel env (nf_NodeID nf) (nf_NodeSecret nf) e2) else e2)"
    using assms(1) ex unfolding startEnrollment_def Let_def option.case e0_def [symmetric] e1_def [symmetric] ex
    by (auto split: prepared.splits)
  note p = run_Prepare_cases [OF e2 [unfolded r] assms(2,3)]
  have stored: "stored_node env (en_agent e) = Some nf"
    by (simp add: e p(1) stored_node_setupTunnel)
  have "tunnel_for env nf e" if s: "seed_ready env seedf"
  proof (cases "stored_node env a")
    case None
    then have "e2 = e2\<lparr>seed_file := seedf\<rparr>" "sshServer e2 = None"
      using p(3,4) by (simp_all add: e1_def e0_def)
    then show ?thesis
      using setupTunnel_ready(1) [of env e2 nf] s p(1,4) None by (simp add: e e1_def e0_def)
  next
    case (Some nf')
    then have "e1 = setupTunnel env (nf_NodeID nf') (nf_NodeSecret nf') e0" "e2 = e1" "nf' = nf"
      using e1 p(1,2) by (simp_all add: e1_def)
    moreover have "seed_ready env (seed_file e0)"
      by (simp add: e0_def s)
    note ready = setupTunnel_ready [OF this]
    moreover have "sshServer e2 \<noteq> None"
      unfolding calculation(2) calculation(1) by (rule ready(2))
    then have "e = e2"
      by (auto simp: e)
    ultimately show ?thesis
      by simp
  qed
  moreover have "stored_node env a = Some nf" if "getenv env ''OTUN_ENROLL_TOKEN'' = ''''"
  proof -
    have "stored_node env a \<noteq> None"
      using ex that by (auto simp: enrollment_executor_def Let_def split: if_splits)
    then show ?thesis
      using e1 p(1,2) by auto
  qed
  ultimately show ?thesis
    using stored by blast
qed

section \<open>Only the key opens the management interface\<close>

lemma probe_path:
  assumes "HasPrefix (Path r) ''/api/local/''"
  shows "probe_answer ok r \<in> {redirected, http_NotFound ''404 page not found''}"
proof -
  have "mux_handler health_routes r \<noteq> Found h" for h
  proof
    assume "mux_handler health_routes r = Found h"
    then obtain q where q: "(q, h) \<in> set health_routes" "HasPrefix (Path r) q"
      by (auto dest: mux_handler_registered)
    have "Path r ! 1 = CHR ''a''"
      using HasPrefix_nth [OF assms, of 1] by simp
    then have "1 < length q \<Longrightarrow> q ! 1 = CHR ''a''"
      using HasPrefix_nth [OF q(2), of 1] by simp
    with q(1) show False
      by (auto simp: health_routes_def)
  qed
  then show ?thesis
    by (simp add: probe_answer_def split: target.split)
qed

lemma main_agent:
  assumes "main lib stamp w genv prog rest d c boot loaded = MainAgent a"
  shows "NodeAPIKey c \<noteq> ''''" "NodeAPIKey (cfg a) = NodeAPIKey c"
  using assms
  by (auto simp: main_def NewAgent_def Let_def split: if_splits prod.splits sum.splits new_agent.splits)

text \<open>
  C10. The management interface is closed to everybody without the node's key, and there always is
  a key: whatever agent \<^verbatim>\<open>main\<close> starts, a request whose bearer token is not the configured key,
  which is never empty, leaves the agent as it is, and below \<^verbatim>\<open>/api/local/\<close> it is answered with one
  of the three 401 errors, a redirection of its path or 404, never with data. With the key, only
  POST, PUT and DELETE change anything, and only the user store.
\<close>

theorem only_the_key_opens_the_api:
  assumes "main lib stamp w genv prog rest d c boot loaded = MainAgent a"
  shows "NodeAPIKey c \<noteq> '''' \<and>
    ((\<nexists>scheme. Authorization r = scheme @ '' '' @ NodeAPIKey c \<and> map ascii_lower scheme = ''bearer'') \<longrightarrow>
      fst (startHTTPServer env a r) = a \<and>
      (HasPrefix (Path r) ''/api/local/'' \<longrightarrow>
        snd (startHTTPServer env a r) \<in> auth_errors \<union> {redirected, http_NotFound ''404 page not found''})) \<and>
    (Method r \<notin> changing_methods \<longrightarrow> fst (startHTTPServer env a r) = a) \<and>
    (fst (startHTTPServer env a r))\<lparr>localStore := None\<rparr> = a\<lparr>localStore := None\<rparr>"
proof (cases "localStore a \<noteq> None \<and> localAPI a \<noteq> None")
  case True
  then obtain st nc where l: "localStore a = Some st" "localAPI a = Some nc"
    by auto
  let ?s = "NewLocalAPIServer (NodeAPIKey c) (Some nc)"
  obtain st' resp where s: "ServeHTTP env ?s (healthy a) r st = (st', resp)"
    by fastforce
  have r: "startHTTPServer env a r = (a\<lparr>localStore := Some st'\<rparr>, resp)"
    by (simp add: startHTTPServer_def l main_agent(2) [OF assms] s)
  have "authorized ?s r \<longleftrightarrow> (\<exists>scheme. Authorization r = scheme @ '' '' @ NodeAPIKey c \<and> map ascii_lower scheme = ''bearer'')"
    by (simp add: authorized_def NewLocalAPIServer_def)
  moreover have "a\<lparr>localStore := Some st\<rparr> = a"
    using l(1) by (cases a) simp
  ultimately show ?thesis
    using ServeHTTP_needs_key [of ?s r env "healthy a" st] main_agent(1) [OF assms] unfolding s r by auto
next
  case False
  then have "startHTTPServer env a r = (a, probe_answer (healthy a) r)"
    by (auto simp: startHTTPServer_def split: option.split)
  then show ?thesis
    using probe_path [of r "healthy a"] main_agent(1) [OF assms] by auto
qed

section \<open>Examples\<close>

text \<open>A file format for the credentials: every string with a mark before each character.\<close>

definition put_str :: "string \<Rightarrow> string" where
  "put_str s = concat (map (\<lambda>c. [CHR ''x'', c]) s) @ ''yy''"

fun get_str :: "string \<Rightarrow> string \<times> string" where
  "get_str (m # c # r) = (if m = CHR ''x'' then (case get_str r of (s, t) \<Rightarrow> (c # s, t)) else ([], r))"
| "get_str _ = ([], [])"

definition put_int :: "int \<Rightarrow> string" where
  "put_int i = put_str (replicate (nat i) CHR ''1'') @ put_str (replicate (nat (- i)) CHR ''1'')"

definition get_int :: "string \<Rightarrow> int \<times> string" where
  "get_int s = (case get_str s of (p, r) \<Rightarrow> case get_str r of (n, r) \<Rightarrow> (int (length p) - int (length n), r))"

lemma get_put [simp]: "get_str (put_str s @ r) = (s, r)" "get_int (put_int i @ r) = (i, r)"
proof -
  show str: "get_str (put_str s @ r) = (s, r)" for s r
    by (induction s) (simp_all add: put_str_def)
  show "get_int (put_int i @ r) = (i, r)"
    by (simp add: get_int_def put_int_def str)
qed

definition sample_encode :: "NodeFile \<Rightarrow> string" where
  "sample_encode nf = put_int (Contract nf) @ put_str (nf_NodeID nf) @ put_str (nf_NodeSecret nf) @ put_str (nf_MachineID nf) @
     put_str (nf_APIURL nf) @ put_str (nf_PollURL nf) @ put_int (EnrolledAt nf) @ ''''"

definition sample_decode :: "string \<Rightarrow> NodeFile option" where
  "sample_decode s =
     (let (c, s) = get_int s; (i, s) = get_str s; (k, s) = get_str s; (m, s) = get_str s; (u, s) = get_str s;
          (p, s) = get_str s; (t, s) = get_int s
      in Some \<lparr>Contract = c, nf_NodeID = i, nf_NodeSecret = k, nf_MachineID = m, nf_APIURL = u, nf_PollURL = p, EnrolledAt = t\<rparr>)"

lemma sample_decode_encode: "sample_decode (sample_encode nf) = Some nf"
  by (simp add: sample_decode_def sample_encode_def del: append_Nil2)

definition sample_answer :: RegisterResponse where
  "sample_answer = \<lparr>rr_NodeID = ''n1'', rr_NodeSecret = ''secret'', rr_PollURL = '''', rr_HeartbeatIntervalS = 0,
     rr_PollMaxWaitS = 25, rr_ServerTime = 0, rr_Reenrolled = False\<rparr>"

definition sample_enroll :: enroll_env where
  "sample_enroll = \<lparr>getenv = (\<lambda>_. ''token''), decode_node = sample_decode, encode_node = sample_encode,
     save_fault = None, save_partial = '''', exe_path = Some ''/agent'', exe_files = Map.empty, agent_version = ''v1'',
     seed_bytes = Some (replicate 32 7), seed_outcome = SeedRenamed, boot_bytes = Some [1], this_machine = sample_machine,
     id_bytes = Some (replicate 32 5), id_outcome = IdWritten, enroll_ips = [], os_release = None, to_lower = id, arch_name = ''amd64'',
     singbox_out = None, hostname_of = (\<lambda>_. Some ''api''), enroll_time = 0,
     attempts = (\<lambda>_. [\<lparr>reg_result = Inr sample_answer, ctx_done = False, reg_rand = 0, slept = True\<rparr>])\<rparr>"

text \<open>A fresh node with a token: it registers, and its tunnel is set up.\<close>

lemma enrolled_agent_is_reachable_witness:
  "\<forall>a. \<exists>e nf. startEnrollment sample_enroll None None (a\<lparr>node_files := \<lparr>final = NodeAbsent, tmp = None\<rparr>\<rparr>) = EnrollRuns e \<and>
     tunnel_for sample_enroll nf e"
proof
  fix a :: Agent
  let ?a = "a\<lparr>node_files := \<lparr>final = NodeAbsent, tmp = None\<rparr>\<rparr>"
  have none: "stored_node sample_enroll ?a = None"
    by (simp add: stored_node_def LoadNodeFile_def)
  obtain ex where ex: "enrollment_executor (getenv sample_enroll) None (exe_path sample_enroll) (agent_version sample_enroll)
      (exe_files sample_enroll) = Some ex"
    by (cases "isHostedMode (getenv sample_enroll)") (simp_all add: enrollment_executor_def sample_enroll_def Let_def)
  obtain e' nf where p: "run_Prepare sample_enroll \<lparr>en_agent = ?a, en_executor = ex, sshServer = None, seed_file = None, id_file = None\<rparr> =
      (e', PreparedWith nf)"
  proof -
    obtain idf i where "MachineID (id_bytes sample_enroll) (id_outcome sample_enroll) (this_machine sample_enroll) None = (idf, Inr i)"
      using TrimSpace_hex_encode [of "[]"]
      by (simp add: MachineID_def sample_enroll_def sample_machine_def persistedRandomID_def readTrimmed_def firstPhysicalMAC_def
          hex_encode_def Let_def)
    then show ?thesis
      using that by (simp add: run_Prepare_def Prepare_def randomHex_def LoadNodeFile_def register_def SaveNodeFile_def nodeInfo_def
          sample_enroll_def Let_def)
  qed
  have "\<exists>e. startEnrollment sample_enroll None None ?a = EnrollRuns e"
    by (simp add: startEnrollment_def none ex p Let_def)
  then obtain e where e: "startEnrollment sample_enroll None None ?a = EnrollRuns e"
    by blast
  moreover have "answers_ok sample_enroll" "decode_node sample_enroll (encode_node sample_enroll nf) = Some nf" for nf
    by (simp_all add: answers_ok_def sample_enroll_def sample_answer_def sample_decode_encode)
  moreover have "seed_ready sample_enroll None"
    by (simp add: seed_ready_def sample_enroll_def)
  ultimately show "\<exists>e nf. startEnrollment sample_enroll None None ?a = EnrollRuns e \<and> tunnel_for sample_enroll nf e"
    using enrolled_agent_is_reachable [of sample_enroll None None ?a e] by blast
qed

end
