(* ===== verification/PollReport.thy ===== *)
theory PollReport
  imports StatsWire Startup
begin

text \<open>
  What a poll tells the backend: the adapters of \<^verbatim>\<open>cmd/agent/main.go\<close> through which the poll loop of
  \<^verbatim>\<open>internal/enroll\<close> reads the agent (\<^verbatim>\<open>nodeInfo\<close>, \<^verbatim>\<open>statsAdapter\<close>, \<^verbatim>\<open>storeAdapter\<close>, the fields
  \<^verbatim>\<open>SingboxRunning\<close> and \<^verbatim>\<open>OwnerKeys\<close> of the \<^verbatim>\<open>Runner\<close>), and what the request says of the traffic
  and of the devices.
\<close>

section \<open>The adapters\<close>

definition statsAdapter_Collect :: "stats_error + (string \<rightharpoonup> UserStats) \<Rightarrow> stats_error + (string \<rightharpoonup> UserStat)" where
  "statsAdapter_Collect raw =
     (case raw of
        Inl err \<Rightarrow> Inl err
      | Inr raw \<Rightarrow> Inr (\<lambda>uuid. map_option (\<lambda>st. \<lparr>st_UUID = uuid, st_Up = Upload st, st_Down = Download st\<rparr>) (raw uuid)))"

definition storeAdapter_UserCount :: "Store option \<Rightarrow> nat" where
  "storeAdapter_UserCount s = (case s of None \<Rightarrow> 0 | Some s \<Rightarrow> store_GetUserCount s)"

definition fp_entry :: "string \<times> string \<Rightarrow> json" where
  "fp_entry e = JObj [(''fp'', JStr (fst e)), (''name'', JStr (snd e))]"

text \<open>
  What the fields of the \<^verbatim>\<open>Runner\<close> give at a poll; \<open>ks_order\<close> is the order in which the loop of
  \<^verbatim>\<open>collectStats\<close> visits the map, \<open>t\<close> the time since the start.
\<close>

definition runner_status :: "transport \<Rightarrow> string list \<Rightarrow> key_dir \<Rightarrow> time \<Rightarrow> Agent \<Rightarrow> status_in" where
  "runner_status rpc ks_order d t a =
     \<lparr>singbox_fn = Some (IsRunning (sb a)), ports_now = JObj (map (\<lambda>(k, p). (k, JNum p)) (ListenPorts a)),
      users_now = storeAdapter_UserCount (localStore a), since_start = t,
      owner_fn = Some (case List d of Inl err \<Rightarrow> None | Inr ks \<Rightarrow> Some (map fp_entry (Fingerprints d))),
      stats_src = Some (case statsAdapter_Collect (Collect rpc) of
        Inl err \<Rightarrow> Inl ''stats'' | Inr m \<Rightarrow> Inr (range_values m ks_order))\<rparr>"

section \<open>What is reported\<close>

text \<open>The traffic reported is what the collector read, one entry per user; nothing when it read nothing.\<close>

lemma reported_traffic:
  assumes "Collect rpc = Inr m" "range_order m ks_order"
  shows "distinct (map st_UUID (req_Stats (poll_request (runner_status rpc ks_order d t a) s)))"
    "(\<lambda>x. (st_UUID x, st_Up x, st_Down x)) ` set (req_Stats (poll_request (runner_status rpc ks_order d t a) s)) =
      {(u, Upload st, Download st) | u st. m u = Some st}"
proof -
  let ?l = "req_Stats (poll_request (runner_status rpc ks_order d t a) s)"
  let ?m = "\<lambda>uuid. map_option (\<lambda>st. \<lparr>st_UUID = uuid, st_Up = Upload st, st_Down = Download st\<rparr>) (m uuid)"
  have l: "?l = range_values ?m ks_order"
    by (simp add: poll_request_def collectStats_def runner_status_def assms(1) statsAdapter_Collect_def)
  have o: "range_order ?m ks_order"
    using assms(2) by (auto simp: range_order_def dom_def)
  have "map st_UUID (range_values ?m ks) = map fst (range_entries ?m ks)" for ks
    by (induction ks) (auto split: option.split)
  then show "distinct (map st_UUID ?l)"
    using o by (simp add: l distinct_range_entries range_order_def)
  show "(\<lambda>x. (st_UUID x, st_Up x, st_Down x)) ` set ?l = {(u, Upload st, Download st) | u st. m u = Some st}"
    unfolding l set_range_values_order [OF o] by (fastforce simp: ran_def image_def)
qed

lemma reported_no_traffic:
  "Collect rpc = Inl err \<Longrightarrow> req_Stats (poll_request (runner_status rpc ks_order d t a) s) = []"
  by (simp add: poll_request_def collectStats_def runner_status_def statsAdapter_Collect_def)

text \<open>The fingerprints reported are those of the keys that can log in.\<close>

lemma reported_keys:
  assumes "keys_wf lib d"
  shows "(\<lambda>e. jget ''fp'' e) ` set (OwnerKeys (req_Status (poll_request (runner_status rpc ks_order d t a) s))) =
    JStr ` fingerprint lib ` access lib d"
proof -
  obtain ks where ks: "List d = Inr ks" "list_all (key_ok lib) ks"
    using assms by (auto simp: keys_wf_def List_def listLocked_def split: keys_file.splits)
  have "set (OwnerKeys (req_Status (poll_request (runner_status rpc ks_order d t a) s))) = fp_entry ` (\<lambda>k. (FP k, key_Name k)) ` set ks"
    by (simp add: poll_request_def runner_status_def ownerKeys_def ks(1) Fingerprints_def)
  moreover have "FP ` set ks = fingerprint lib ` access lib d"
    using ks by (force simp: access_simps(3) List_def keys_of_def key_ok_def list_all_iff)
  moreover have "jget ''fp'' (fp_entry (FP k, key_Name k)) = JStr (FP k)" for k
    by (simp add: fp_entry_def)
  ultimately show ?thesis
    unfolding image_image by (metis (no_types, lifting) image_image image_cong)
qed

end
