(* ===== verification/Spec2Isabelle.thy ===== *)
theory Spec2Isabelle
  imports SshSession WsConn SysInfo PollReport Agent TrafficMeter StatsWire AgentEnv Generator Quota LocalStore SingboxManager Runner LocalApi Backend
begin

text \<open>
  OTun node agent: a daemon that runs next to a sing-box proxy. It generates sing-box's
  configuration for the users of the node, starts and watches the process, accounts the users'
  traffic, keeps local users in a file, takes commands from a management backend over a long
  poll, and lets the owner of the machine open terminals through reverse tunnels. This development
  models the Go program under \<^verbatim>\<open>cmd/\<close> and \<^verbatim>\<open>internal/\<close> and proves what makes its parts, and their
  composition, correct.

  \<^bold>\<open>How the program is put together.\<close> \<^verbatim>\<open>main\<close> builds an \<open>Agent\<close> from the environment and the secrets,
  starts the HTTP server and, in the management mode chosen, the initial synchronisation. The main
  loop then regenerates the configuration (\<open>Generator\<close>) from the local user store and the users
  the server lists, restarts sing-box through its \<open>Manager\<close>, reads counters from it through the
  \<open>Collector\<close>, turns them into increments (\<open>Meter\<close>) and adds these to the store, which reports
  when a limit is crossed. The enrolment loop (\<open>Runner\<close>) registers the node, polls the backend
  and gives the commands to the \<open>Executor\<close>; a tunnel command makes the tunnel manager dial out,
  and the SSH server that runs inside the tunnel authenticates the owner's devices by the list that
  \<^verbatim>\<open>obox-key\<close> maintains.

  \<^bold>\<open>Theories and sources.\<close>
  \<^item> \<open>Prelude\<close>, \<open>Strconv\<close>, \<open>Encoding\<close>, \<open>Json\<close>, \<open>Urls\<close>, \<open>NetIP\<close>: what the sources use of the Go
    standard library: \<^verbatim>\<open>int64\<close> with wrap-around, maps and their iteration order, \<^verbatim>\<open>strings\<close>,
    decimal conversions, SHA-256, hex and base64, JSON values, query escaping and parsing, IP
    addresses. The locales are here, too: \<open>delimited_codec\<close> (codecs whose encodings can be
    concatenated; interpreted on the protobuf varints and on SSH's 32-bit numbers), \<open>restartable\<close>
    (state mirrored to disk; the local user store), \<open>made_once\<close> (values that a first start makes
    and later starts find; the secrets, the SSH host key, the machine's fingerprint, the
    certificate). \<open>device_list\<close> and \<open>command_executor\<close> are in \<open>AuthKeys\<close> and \<open>Executor\<close>.
  \<^item> \<open>TrafficMeter\<close> (\<^verbatim>\<open>internal/stats/meter.go\<close>), \<open>StatsWire\<close> (\<^verbatim>\<open>collector.go\<close>: gRPC framing and
    the hand-written protobuf codec), \<open>Reporter\<close> (\<^verbatim>\<open>reporter.go\<close>), \<open>SysInfo\<close> (\<^verbatim>\<open>sysinfo.go\<close>).
  \<^item> \<open>UserConfig\<close> (\<^verbatim>\<open>internal/config/types.go\<close>, \<^verbatim>\<open>credentials.go\<close>), \<open>AgentEnv\<close> (\<^verbatim>\<open>env.go\<close>, \<^verbatim>\<open>keys.go\<close>),
    \<open>Generator\<close> (\<^verbatim>\<open>generator.go\<close>), \<open>SelfCert\<close> (\<^verbatim>\<open>selfcert.go\<close>), \<open>Backend\<close> (\<^verbatim>\<open>sync.go\<close>, \<^verbatim>\<open>cache.go\<close>
    and \<^verbatim>\<open>internal/singbox/connections.go\<close>).
  \<^item> \<open>Quota\<close> (\<^verbatim>\<open>internal/quota/monitor.go\<close>), \<open>LocalStore\<close> (\<^verbatim>\<open>internal/local/store.go\<close>),
    \<open>SingboxManager\<close> (\<^verbatim>\<open>internal/singbox/process.go\<close>).
  \<^item> \<open>Semver\<close>, \<open>Upgrade\<close>, \<open>Executor\<close>, \<open>EnrollClient\<close>, \<open>Runner\<close>, \<open>MachineId\<close>, \<open>PublicIP\<close>
    (\<^verbatim>\<open>version.go\<close>, \<^verbatim>\<open>upgrade.go\<close>, \<^verbatim>\<open>executor.go\<close> and \<^verbatim>\<open>wire.go\<close>, \<^verbatim>\<open>client.go\<close> and \<^verbatim>\<open>nodefile.go\<close>,
    \<^verbatim>\<open>runner.go\<close>, \<^verbatim>\<open>machineid.go\<close>, \<^verbatim>\<open>publicip.go\<close> of \<^verbatim>\<open>internal/enroll\<close>).
  \<^item> \<open>Links\<close>, \<open>LocalApi\<close> (\<^verbatim>\<open>internal/api/local.go\<close>, \<^verbatim>\<open>singboxprofile.go\<close>, \<^verbatim>\<open>health.go\<close>): share links,
    subscriptions, the client profile; routing, authentication, handlers.
  \<^item> \<open>AuthKeys\<close>, \<open>Tunnel\<close>, \<open>WsConn\<close>, \<open>SshServer\<close>, \<open>ShellEnv\<close>, \<open>SshSession\<close> (\<^verbatim>\<open>authkeys.go\<close>, \<^verbatim>\<open>client.go\<close>,
    \<^verbatim>\<open>wsconn.go\<close> and \<^verbatim>\<open>sshserver.go\<close> of \<^verbatim>\<open>internal/tunnel\<close>), \<open>OboxKey\<close> (\<^verbatim>\<open>cmd/agent/oboxkey.go\<close>).
  \<^item> \<open>Agent\<close>, \<open>Startup\<close>, \<open>PollReport\<close> (\<^verbatim>\<open>cmd/agent/main.go\<close>): the agent and its methods; \<^verbatim>\<open>main\<close>, the
    HTTP server and \<^verbatim>\<open>startEnrollment\<close>; the adapters through which the poll loop reads the agent.
  \<^item> This theory: the properties that span components.

  \<^bold>\<open>State and operations.\<close> A Go struct is a record with the name of the struct, and with the files the
  component writes; a method is a function of the state with the name of the method. What comes
  from outside (HTTP answers, file system outcomes, random bytes, the clock, map iteration order,
  JSON codecs of external types) is an argument, collected in a record where there is much of it
  (\<open>exec_env\<close>, \<open>save_env\<close>, \<open>boot_env\<close>, \<open>enroll_env\<close>, \<open>round_in\<close>). Errors are values of a sum or
  an option type, one constructor per error. Where goroutines share state the steps between two
  locks are one function each, and a relation interleaves them: \<open>mstep\<close> for the process manager,
  \<open>tstep\<close> for the tunnels, \<open>session_step\<close> for an SSH session, \<open>metered\<close> for the two goroutines that
  account traffic. The regenerations and quota passes that may run during and after a revocation are
  lists of events (\<open>run_late\<close>). Elsewhere the methods of the agent run one after the other.

  \<^bold>\<open>What the lemmas show.\<close>
  \<^item> Safety of service: a user over his limit is not served, nobody unservable is, and everybody
    servable has an entry with his credentials in the inbounds of his protocols (\<open>Generator\<close>, this theory); what a
    client is told to connect to is what the node serves; a revoked node loses users, credentials and
    tunnels for good, and sing-box unless a regeneration runs after the last stop.
  \<^item> Accounting: counters survive restarts of sing-box without being counted twice, as long as the
    tick and a regeneration do not account at the same time (when they do, bytes can be counted
    twice); crossings of a limit are reported once, no report is lost, what the collector reads is
    what was counted.
  \<^item> Processes: at most one sing-box at a time, stopping is final, a crash loop ends.
  \<^item> Remote control: commands are executed at most once and within their whitelist, upgrades are all or
    nothing and refused on machines that are not hosted, acknowledgements are resent, registration ends only
    for good reasons, what a poll reports is true.
  \<^item> Access: the management interface needs the key, the public subscription discloses one user, a
    removed device stays out, the last device cannot be removed, forwarding stays on the machine,
    a terminal does not see the agent's secrets, a session runs one program and ends with it.
  \<^item> Persistence: the user store, the credentials and the identity of the node survive restarts; the
    error paths on which a write fails are stated as they are.
  Example instances of the hypotheses stand under \<^verbatim>\<open>Examples\<close> and in the lemmas whose name ends in
  \<open>_witness\<close>.

  \<^bold>\<open>Bounds and termination.\<close> There is no fuel. Loops that wait for the outside are recursive on the list of
  what happens there (\<open>register_loop\<close>, \<open>run_rounds\<close>, \<open>read_all\<close>) and say with a constructor of
  their result that they are still waiting. The varint reader, the field walker and the WebSocket
  reader are recursive with a measure. The crash loop of sing-box is bounded by the failure counter.

  \<^bold>\<open>Idealisations.\<close> Floating-point numbers are rationals (back-off, load). Strings are lists of bytes;
  case folding and \<^verbatim>\<open>unicode\<close> tables beyond ASCII are parameters where the code uses them. The local
  time zone of the expiry dates is UTC. A counter of generations is unbounded.

  \<^bold>\<open>Not modelled.\<close> The HTTP, gRPC, WebSocket and SSH transports, TLS and X.509, elliptic-curve
  arithmetic and random generation, JSON printing and parsing, which belong to libraries and are inputs;
  the copying of bytes between a channel and a terminal or a connection; signal handling; log output and
  the texts \<^verbatim>\<open>obox-key\<close> prints; the deadlines of requests and connections; the shell scripts, the
  container files and the tests.
\<close>

section \<open>Traffic limits, end to end\<close>

text \<open>
  C1. A traffic limit is enforced: when an accounting round of the main loop finds that a user
  has used up his limit, it schedules a regeneration of the configuration, and the configuration
  that regeneration writes (after its own accounting, whatever that finds) serves the user under
  no protocol.
\<close>

theorem traffic_limit_is_enforced:
  assumes st: "localStore a = Some st" "store_wf st" "IsRunning (sb a)" "s_users st uuid = Some lu"
    and round: "account_ok env a reading" "reported (meter a) reading uuid = Some d" "fits (Some d) lu"
    and limit: "0 < l_TrafficLimit lu" "l_TrafficUsed lu < l_TrafficLimit lu"
      "l_TrafficLimit lu \<le> l_TrafficUsed lu + (Upload d + Download d)"
    and a1: "a1 = accountLocalTraffic env True a"
    and later: "\<And>r. collected_now (accounting regen) = Some r \<Longrightarrow>
      account_ok (accounting regen) a1 r \<and> fits (reported (meter a1) r uuid) (charged d lu)"
    and written: "write_ok (writing regen)"
  shows "regens a1 = Suc (regens a) \<and>
    (\<exists>config. holds_config (writing regen) (regenerateConfig regen a1) config \<and> JStr uuid \<notin> served_names config)"
proof -
  have pos: "0 < Upload d + Download d"
    using limit by linarith
  obtain st1 where a1_eq: "a1 = a\<lparr>meter := (meter a)\<lparr>meter_last := next_last (meter a) reading\<rparr>,
      localStore := Some st1,
      regens := (if True \<and> (\<exists>k d lu. reported (meter a) reading k = Some d \<and> s_users st k = Some lu \<and> reaches d lu)
                 then Suc (regens a) else regens a)\<rparr>"
    and users1: "\<And>k. s_users st1 k = map_option (charge_by (reported (meter a) reading k)) (s_users st k)"
    using accountLocalTraffic_spec [OF st(1,3) round(1), of True] a1 by blast
  have "reaches d lu"
    using pos limit round(3) by (simp add: reaches_def charged_def i64_id fits_def)
  then have regens: "regens a1 = Suc (regens a)"
    using st(4) round(2) by (auto simp: a1_eq)
  have st1: "localStore a1 = Some st1" "s_users st1 uuid = Some (charged d lu)"
    using users1 [of uuid] st(4) round(2) by (simp_all add: a1_eq charge_by_def)
  moreover have "store_wf st1"
    using accountLocalTraffic_users [OF st(1), of env True] st(2) st1(1) a1 by auto
  ultimately obtain st2 lu2 where st2: "localStore (accountLocalTraffic (accounting regen) False a1) = Some st2"
    "store_wf st2" "s_users st2 uuid = Some lu2" "l_TrafficLimit lu2 = l_TrafficLimit lu"
    "l_TrafficUsed (charged d lu) \<le> l_TrafficUsed lu2"
    using accountLocalTraffic_user [of a1 st1 uuid "charged d lu" "accounting regen" False] later by auto
  have "l_TrafficUsed (charged d lu) = l_TrafficUsed lu + (Upload d + Download d)"
    using charge_by_used [OF round(3)] pos by (simp add: charge_by_def)
  then have "OverQuota (config_user lu2)"
    using st2(4,5) limit by (simp add: OverQuota_def)
  then have "uuid \<notin> local_servable (now regen) st2"
    using st2(3) by (simp add: local_servable_def servable_def)
  then have "JStr uuid \<notin> served_names (regenerated regen a1 st2)"
    using regenerated_served [OF st2(2), of regen a1] by auto
  then show ?thesis
    using regens regenerateConfig_eq [OF st2(1) written] by blast
qed

text \<open>The entries of users made from local ones, beside those of others.\<close>

lemma merged_entries:
  "{user_entry proto (UUID u) (SSPassword u) | u.
      ((\<exists>lu \<in> ran us. u = config_user lu) \<or> P u) \<and> servable t u \<and> proto \<in> set (Protocols u)} =
   {user_entry proto (l_UUID lu) (l_SSPassword lu) | lu. lu \<in> ran us \<and> may_use t lu \<and> proto \<in> set (l_Protocols lu)} \<union>
   {user_entry proto (UUID u) (SSPassword u) | u. P u \<and> servable t u \<and> proto \<in> set (Protocols u)}"
  by (auto simp: servable_config_user) (metis config_user_simps(1,6,7) servable_config_user)+

lemma config_entries:
  "{user_entry proto (UUID u) (SSPassword u) | u.
      u \<in> config_user ` ran us \<and> servable t u \<and> proto \<in> set (Protocols u)} =
   {user_entry proto (l_UUID lu) (l_SSPassword lu) | lu. lu \<in> ran us \<and> may_use t lu \<and> proto \<in> set (l_Protocols lu)}"
  using merged_entries [of proto us "\<lambda>_. False" t] by (simp add: image_iff)

lemma config_counted:
  "(\<lambda>u. JStr (UUID u)) ` {u \<in> config_user ` A. servable t u} = {JStr (l_UUID lu) | lu. lu \<in> A \<and> may_use t lu}"
proof -
  have "{u \<in> config_user ` A. servable t u} = config_user ` {lu \<in> A. may_use t lu}"
    by (auto simp: servable_config_user)
  then show ?thesis
    by (auto simp: image_image)
qed

text \<open>
  C6. A regeneration makes the configuration agree with the user store: in the inbound of every
  protocol that is enabled the users are exactly the users of the store that chose the protocol
  and may use the node at that time (enabled, under the limit, not expired), each with the
  credentials of his id and his own password; a protocol that is not enabled has no inbound; the
  users sing-box counts are the same ones. The store is the one before, but for the traffic that
  was accounted. Users the management server has sent are not served: in hybrid mode a change of
  a local user, or a local user reaching his limit, takes every remote user off the node until
  the next synchronisation.
\<close>

theorem regeneration_serves_exactly_the_local_users:
  assumes "localStore a = Some st0" "store_wf st0" "dom (s_users st0) \<subseteq> set (users_order regen)"
    and "write_ok (writing regen)"
  shows "\<exists>st config. localStore (regenerateConfig regen a) = Some st \<and> dom (s_users st) = dom (s_users st0) \<and>
    (\<forall>uuid. map_option untraffic (s_users st uuid) = map_option untraffic (s_users st0 uuid)) \<and>
    holds_config (writing regen) (regenerateConfig regen a) config \<and>
    (\<forall>(proto, tag) \<in> set protocol_tags.
      if proto_enabled (generator a) proto
      then set (inbound_users config tag) =
        {user_entry proto (l_UUID lu) (l_SSPassword lu) | lu.
          lu \<in> ran (s_users st) \<and> may_use (now regen) lu \<and> proto \<in> set (l_Protocols lu)}
      else inbound config tag = None) \<and>
    set (stats_users config) = {JStr (l_UUID lu) | lu. lu \<in> ran (s_users st) \<and> may_use (now regen) lu} \<and>
    served_names config \<subseteq> set (stats_users config)"
proof -
  obtain st where st: "localStore (accountLocalTraffic (accounting regen) False a) = Some st"
    "dom (s_users st) = dom (s_users st0)" "store_wf st"
    using accountLocalTraffic_users [OF assms(1), of "accounting regen" False] assms(2) by auto
  let ?us = "map config_user (ListUsers (users_order regen) st)"
  let ?cfg = "regenerated regen a st"
  have listed: "set (ListUsers (users_order regen) st) = ran (s_users st)"
    using st(2) assms(3) by (auto simp: ListUsers_def set_range_values ran_def dom_def)
  have "if proto_enabled (generator a) proto
      then set (inbound_users ?cfg tag) = {user_entry proto (l_UUID lu) (l_SSPassword lu) | lu.
          lu \<in> ran (s_users st) \<and> may_use (now regen) lu \<and> proto \<in> set (l_Protocols lu)}
      else inbound ?cfg tag = None" if "(proto, tag) \<in> set protocol_tags" for proto tag
  proof -
    have "{user_entry proto (UUID u) (SSPassword u) | u. u \<in> set ?us \<and> servable (now regen) u \<and> proto \<in> set (Protocols u)} =
        {user_entry proto (l_UUID lu) (l_SSPassword lu) | lu.
          lu \<in> ran (s_users st) \<and> may_use (now regen) lu \<and> proto \<in> set (l_Protocols lu)}"
      using listed config_entries [of proto "s_users st" "now regen"] by simp
    then show ?thesis
      using Generate_inbounds [OF that, of "generator a" "now regen" ?us "RealitySNI (cfg a)"] by (simp add: regenerated_def)
  qed
  moreover have "set (stats_users ?cfg) = {JStr (l_UUID lu) | lu. lu \<in> ran (s_users st) \<and> may_use (now regen) lu}"
    using listed config_counted [of "ran (s_users st)" "now regen"] by (simp add: regenerated_def stats_users_servable)
  moreover have "served_names ?cfg \<subseteq> set (stats_users ?cfg)"
    using served_names_servable [of "now regen" "generator a" ?us "RealitySNI (cfg a)"]
    by (simp add: regenerated_def stats_users_servable)
  moreover note accountLocalTraffic_untraffic [OF assms(1) st(1)]
  ultimately show ?thesis
    using regenerateConfig_eq [OF st(1) assms(4)] st(2) by (intro exI [of _ st] exI [of _ ?cfg]) auto
qed

section \<open>Hybrid mode\<close>

lemma foldl_by_uuid:
  "foldl (\<lambda>m u. m(key u \<mapsto> val u)) m us k =
     (case find (\<lambda>u. key u = k) (rev us) of None \<Rightarrow> m k | Some u \<Rightarrow> Some (val u))"
  by (induction us rule: rev_induct) auto

lemma hybrid_map_eq:
  "hybrid_map remote locals uuid =
     (case find (\<lambda>lu. l_UUID lu = uuid) (rev locals) of
        Some lu \<Rightarrow> Some (config_user lu)
      | None \<Rightarrow> find (\<lambda>u. UUID u = uuid) (rev remote))"
  unfolding hybrid_map_def Let_def foldl_by_uuid by (auto split: option.split)

lemma hybrid_map_store:
  assumes "store_wf st" "dom (s_users st) \<subseteq> set ks"
  shows "hybrid_map remote (ListUsers ks st) uuid =
    (case s_users st uuid of Some lu \<Rightarrow> Some (config_user lu)
     | None \<Rightarrow> find (\<lambda>u. UUID u = uuid) (rev remote))"
proof (cases "find (\<lambda>lu. l_UUID lu = uuid) (rev (ListUsers ks st))")
  case None
  have "s_users st uuid = None"
  proof (rule ccontr)
    assume "s_users st uuid \<noteq> None"
    then obtain lu where lu: "s_users st uuid = Some lu"
      by blast
    then have "lu \<in> set (ListUsers ks st)" "l_UUID lu = uuid"
      using assms by (auto simp: ListUsers_def set_range_values store_wf_def)
    with None show False by (simp add: find_None_iff)
  qed
  then show ?thesis
    using None by (simp add: hybrid_map_eq)
next
  case (Some lu)
  then have "lu \<in> set (ListUsers ks st)" "l_UUID lu = uuid"
    using find_SomeD by fastforce+
  then have "s_users st uuid = Some lu"
    using listed_users [OF assms(1)] by auto
  then show ?thesis
    using Some by (simp add: hybrid_map_eq)
qed

text \<open>The users of the merged map, and their entries.\<close>

lemma merged_users:
  assumes "store_wf st" "set users = ran m"
    and m: "\<And>k. m k = (case s_users st k of Some lu \<Rightarrow> Some (config_user lu) | None \<Rightarrow> find (\<lambda>u. UUID u = k) (rev remote))"
  shows "u \<in> set users \<longleftrightarrow> (\<exists>lu \<in> ran (s_users st). u = config_user lu) \<or>
    (s_users st (UUID u) = None \<and> find (\<lambda>v. UUID v = UUID u) (rev remote) = Some u)"
proof
  assume "u \<in> set users"
  then obtain k where k: "m k = Some u"
    using assms(2) by (auto simp: ran_def)
  show "(\<exists>lu \<in> ran (s_users st). u = config_user lu) \<or>
    (s_users st (UUID u) = None \<and> find (\<lambda>v. UUID v = UUID u) (rev remote) = Some u)"
  proof (cases "s_users st k")
    case None
    then have "find (\<lambda>u. UUID u = k) (rev remote) = Some u"
      using k m by simp
    moreover from this have "UUID u = k"
      using find_SomeD by fastforce
    ultimately show ?thesis
      using None by simp
  next
    case (Some lu)
    then show ?thesis
      using k m by (auto simp: ran_def)
  qed
next
  assume "(\<exists>lu \<in> ran (s_users st). u = config_user lu) \<or>
    (s_users st (UUID u) = None \<and> find (\<lambda>v. UUID v = UUID u) (rev remote) = Some u)"
  then have "\<exists>k. m k = Some u"
    unfolding m by (auto simp: ran_def) (metis option.simps(5), metis option.simps(4))
  then show "u \<in> set users"
    using assms(2) by (auto simp: ran_def)
qed

text \<open>
  The user a merged list has for an id: the local one; without a local one, the last the server
  lists.
\<close>

definition merged_entry :: "Store \<Rightarrow> User list \<Rightarrow> time \<Rightarrow> string \<Rightarrow> json set" where
  "merged_entry st remote t proto =
     {user_entry proto (l_UUID lu) (l_SSPassword lu) | lu.
        lu \<in> ran (s_users st) \<and> may_use t lu \<and> proto \<in> set (l_Protocols lu)} \<union>
     {user_entry proto (UUID u) (SSPassword u) | u.
        (s_users st (UUID u) = None \<and> find (\<lambda>v. UUID v = UUID u) (rev remote) = Some u) \<and>
        servable t u \<and> proto \<in> set (Protocols u)}"

text \<open>
  C7. A hybrid synchronisation serves the union of the remote and the local users, and a local
  user takes the place of a remote one with the same id: in the inbound of every protocol that is
  enabled the users are the local users that may use the node, with their own protocols and
  passwords, and those remote users that may use it whose id no local user has; a protocol that
  is not enabled has no inbound. The users sing-box counts are the same ones. The version of the
  server's list is recorded.
\<close>

theorem hybrid_sync_prefers_local_users:
  assumes "localStore a = Some st" "store_wf st" "dom (s_users st) \<subseteq> set (local_order env)"
    and "set (merge_order env) = dom (hybrid_map (Users resp) (ListUsers (local_order env) st))"
    and "write_ok (sync_write env)"
  shows "\<exists>config a'. fst (syncAndApplyHybrid env (Inr resp) a) = a' \<and> currentVersion a' = Version resp \<and>
    holds_config (sync_write env) a' config \<and>
    (\<forall>(proto, tag) \<in> set protocol_tags.
      if proto_enabled (generator a) proto
      then set (inbound_users config tag) = merged_entry st (Users resp) (sync_now env) proto
      else inbound config tag = None) \<and>
    set (stats_users config) = {JStr uuid | uuid u.
      (case s_users st uuid of Some lu \<Rightarrow> Some (config_user lu)
       | None \<Rightarrow> find (\<lambda>u. UUID u = uuid) (rev (Users resp))) = Some u \<and> servable (sync_now env) u}"
proof -
  let ?m = "hybrid_map (Users resp) (ListUsers (local_order env) st)"
  let ?users = "range_values ?m (merge_order env)"
  let ?cfg = "Generate (sync_now env) (generator a) ?users (resp_RealitySNI resp)"
  define a2 where "a2 = a\<lparr>monitor := UpdateUsers ?users (monitor a),
    users_cache := fst (Backend.SaveUsers (sync_marshal env) (sync_cache env) resp (users_cache a))\<rparr>"
  define a3 where "a3 = fst (write_config (sync_write env) ?cfg a2)"
  have w: "write_config (sync_write env) ?cfg a2 = (a3, True)" "holds_config (sync_write env) a3 ?cfg"
    using write_config_ok [OF assms(5), of ?cfg a2] by (simp_all add: a3_def prod_eq_iff)
  have run: "fst (syncAndApplyHybrid env (Inr resp) a) =
      fst (reload_if_running (sync_start env) (a3\<lparr>currentVersion := Version resp\<rparr>))"
    using w(1) by (simp add: syncAndApplyHybrid_def assms(1) a2_def Let_def)
  note m = hybrid_map_store [OF assms(2,3), of "Users resp"]
  have uuid: "UUID u = k" if "?m k = Some u" for k u
    using that assms(2) find_SomeD [of _ "rev (Users resp)"] by (auto simp: m store_wf_def split: option.splits)
  have users: "set ?users = ran ?m"
    using assms(4) by (auto simp: set_range_values ran_def dom_def)
  then have "set (stats_users ?cfg) = {JStr k | k u. ?m k = Some u \<and> servable (sync_now env) u}"
    using uuid by (fastforce simp: stats_users_servable ran_def image_iff)
  moreover have merged: "u \<in> set ?users \<longleftrightarrow> (\<exists>lu \<in> ran (s_users st). u = config_user lu) \<or>
      (s_users st (UUID u) = None \<and> find (\<lambda>v. UUID v = UUID u) (rev (Users resp)) = Some u)" for u
    by (rule merged_users [OF assms(2) users m])
  have "if proto_enabled (generator a) proto
      then set (inbound_users ?cfg tag) = merged_entry st (Users resp) (sync_now env) proto
      else inbound ?cfg tag = None" if "(proto, tag) \<in> set protocol_tags" for proto tag
  proof -
    have "{user_entry proto (UUID u) (SSPassword u) | u. u \<in> set ?users \<and> servable (sync_now env) u \<and> proto \<in> set (Protocols u)} =
        merged_entry st (Users resp) (sync_now env) proto"
      unfolding merged merged_entry_def by (rule merged_entries)
    then show ?thesis
      using Generate_inbounds [OF that, of "generator a" "sync_now env" ?users "resp_RealitySNI resp"] by simp
  qed
  moreover have "currentVersion (fst (reload_if_running e x)) = currentVersion x"
    "config_file (fst (reload_if_running e x)) = config_file x" for e x
    by (simp_all add: reload_if_running_def split: prod.split option.split)
  ultimately show ?thesis
    unfolding run using w(2) by (intro exI [of _ ?cfg]) (auto simp: holds_config_def m)
qed

section \<open>What clients are told is what the node serves\<close>

text \<open>The settings: ports that are not negative.\<close>

definition ports_ok :: "AgentConfig \<Rightarrow> bool" where
  "ports_ok c \<longleftrightarrow> 0 \<le> VMessPort c \<and> 0 \<le> TrojanPort c \<and> 0 \<le> Hysteria2Port c \<and> 0 \<le> TUICPort c"

text \<open>A client's outbound and a node's inbound that accepts it for the user \<open>uuid\<close>.\<close>

definition accepts :: "json \<Rightarrow> string \<Rightarrow> string \<Rightarrow> json \<Rightarrow> bool" where
  "accepts config tag uuid ob \<longleftrightarrow>
     (case inbound config tag of
        None \<Rightarrow> False
      | Some i \<Rightarrow> jget ''type'' i = jget ''type'' ob \<and> jget ''listen_port'' i = jget ''server_port'' ob \<and>
          list_ex (\<lambda>e. jget ''name'' e = JStr uuid \<and> jget ''uuid'' e = jget ''uuid'' ob \<and>
            jget ''password'' e = jget ''password'' ob) (inbound_users config tag))"

lemma built_agent:
  assumes "NewAgent env (Inr sec) c = AgentReady a"
  shows "localAPI a = (if has_local (Management c) then Some (node_config env c sec) else None)"
    "vlessPort (generator a) = VLESSPort c" "ssPort (generator a) = chosen_ss_port c sec"
    "vmessPort (generator a) = VMessPort c" "trojanPort (generator a) = TrojanPort c"
    "hy2Port (generator a) = Hysteria2Port c" "tuicPort (generator a) = TUICPort c"
    "(certPath (generator a), keyPath (generator a)) = chosen_cert env c"
    "cfg a = c\<lparr>SSPort := chosen_ss_port c sec\<rparr>" "secrets a = sec" "shortIDs (generator a) = ShortIDs sec"
    "privateKey (generator a) = PrivateKey sec" "ShortIDs sec \<noteq> []"
  using assms
  by (auto simp: NewAgent_def NewGenerator_def WithExtraProtocols_def Let_def split: if_splits prod.splits)

lemma entry_matches:
  assumes "profile_outbound nc lu server sfx proto = Some ob"
  shows "jget ''uuid'' (proto_entry proto (config_user lu)) = jget ''uuid'' ob"
    and "jget ''password'' (proto_entry proto (config_user lu)) = jget ''password'' ob"
    and "jget ''type'' ob = JStr proto"
    and "proto \<in> fst ` set protocol_tags"
  using assms unfolding profile_outbound_def proto_entry_def Let_def
  by (simp_all add: VMessUUID_def protocol_tags_def split: if_splits) auto

definition port_of :: "Generator \<Rightarrow> string \<Rightarrow> int" where
  "port_of g proto =
     (if proto = ''vless'' then vlessPort g
      else if proto = ''shadowsocks'' then ssPort g
      else if proto = ''vmess'' then vmessPort g
      else if proto = ''trojan'' then trojanPort g
      else if proto = ''hysteria2'' then hy2Port g
      else tuicPort g)"

lemma inbound_fields:
  "jget ''type'' (vlessInbound g sni us) = JStr ''vless''" "jget ''listen_port'' (vlessInbound g sni us) = JNum (vlessPort g)"
  "jget ''type'' (ssInbound g us) = JStr ''shadowsocks''" "jget ''listen_port'' (ssInbound g us) = JNum (ssPort g)"
  "jget ''type'' (vmessInbound g us) = JStr ''vmess''" "jget ''listen_port'' (vmessInbound g us) = JNum (vmessPort g)"
  "jget ''type'' (trojanInbound g us) = JStr ''trojan''" "jget ''listen_port'' (trojanInbound g us) = JNum (trojanPort g)"
  "jget ''type'' (hy2Inbound g us) = JStr ''hysteria2''" "jget ''listen_port'' (hy2Inbound g us) = JNum (hy2Port g)"
  "jget ''type'' (tuicInbound g us) = JStr ''tuic''" "jget ''listen_port'' (tuicInbound g us) = JNum (tuicPort g)"
  by (simp_all add: vlessInbound_def ssInbound_def vmessInbound_def trojanInbound_def hy2Inbound_def
      tuicInbound_def Let_def)

lemma port_of_simps:
  "port_of g ''vless'' = vlessPort g" "port_of g ''shadowsocks'' = ssPort g" "port_of g ''vmess'' = vmessPort g"
  "port_of g ''trojan'' = trojanPort g" "port_of g ''hysteria2'' = hy2Port g" "port_of g ''tuic'' = tuicPort g"
  by (simp_all add: port_of_def)

lemma optional_inbound:
  "(b \<longrightarrow> (\<exists>i. (if b then Some x else None) = Some i \<and> P i)) \<longleftrightarrow> (b \<longrightarrow> P x)"
  by auto

lemma inbound_of_protocol:
  assumes "(proto, tag) \<in> set protocol_tags" "proto_enabled g proto"
  shows "\<exists>i. inbound (Generate t g us sni) tag = Some i \<and> jget ''type'' i = JStr proto \<and>
    jget ''listen_port'' i = JNum (port_of g proto)"
proof -
  have "list_all (\<lambda>(proto, tag). proto_enabled g proto \<longrightarrow>
      (\<exists>i. inbound (Generate t g us sni) tag = Some i \<and> jget ''type'' i = JStr proto \<and>
        jget ''listen_port'' i = JNum (port_of g proto))) protocol_tags"
    by (simp only: protocol_tags_def list.pred_inject prod.case inbound_Generate inbound_fields port_of_simps
        option.inject if_True simp_thms optional_inbound)
  with assms show ?thesis by (auto simp: list_all_iff)
qed

lemma outbound_port:
  assumes "profile_outbound nc lu server sfx proto = Some ob"
  shows "jget ''server_port'' ob = JNum
     (if proto = ''vless'' then nc_VLESSPort nc
      else if proto = ''shadowsocks'' then nc_SSPort nc
      else if proto = ''vmess'' then nc_VMessPort nc
      else if proto = ''trojan'' then nc_TrojanPort nc
      else if proto = ''hysteria2'' then nc_Hysteria2Port nc
      else nc_TUICPort nc)"
    and "proto = ''vmess'' \<Longrightarrow> nc_VMessPort nc \<noteq> 0" "proto = ''trojan'' \<Longrightarrow> nc_TrojanPort nc \<noteq> 0"
    "proto = ''hysteria2'' \<Longrightarrow> nc_Hysteria2Port nc \<noteq> 0" "proto = ''tuic'' \<Longrightarrow> nc_TUICPort nc \<noteq> 0"
  using assms unfolding profile_outbound_def Let_def
  by (simp_all split: if_splits) auto

lemma proto_entry_listed:
  "lu \<in> set us \<Longrightarrow> proto \<in> set (l_Protocols lu) \<Longrightarrow> servable t (config_user lu) \<Longrightarrow>
     proto_entry proto (config_user lu) \<in> set (proto_entries proto (filter (servable t) (map config_user us)))"
  by (force simp: proto_entries_def count_list_0_iff)

text \<open>
  C2. What a client is told is what the node serves: for an agent built from its settings and
  secrets, every outbound of the sing-box profile of a user who may be served, for IPv4 or IPv6,
  has an inbound in the configuration the agent generates from its store, of the same protocol,
  on the port the client is told, that lists the user with exactly the credentials the client
  is given. The TLS protocols need the certificate.
\<close>

theorem profile_matches_configuration:
  assumes built: "NewAgent env (Inr sec) c = AgentReady a" "localAPI a = Some nc" "ports_ok c"
    and cert: "cert_paths env = Some (cp, kp)"
    and user: "lu \<in> set users" "servable t (config_user lu)"
    and outbound: "ob \<in> set (profile_nodes nc lu)"
  shows "\<exists>proto tag. (proto, tag) \<in> set protocol_tags \<and> jget ''type'' ob = JStr proto \<and>
    accepts (Generate t (generator a) (map config_user users) (RealitySNI (cfg a))) tag (l_UUID lu) ob"
proof -
  obtain proto server sfx where p: "proto \<in> set (l_Protocols lu)" "profile_outbound nc lu server sfx proto = Some ob"
    using outbound
    by (auto simp: profile_nodes_def emit_def List.map_filter_def split: if_splits option.splits)
  note entry = entry_matches [OF p(2)]
  from entry(4) obtain tag where tag: "(proto, tag) \<in> set protocol_tags"
    by auto
  note b = built_agent [OF built(1)]
  have nc: "nc = node_config env c sec"
    using b(1) built(2) by (auto split: if_splits)
  have tls: "certPath (generator a) = cp \<and> keyPath (generator a) = kp"
    if "0 < TrojanPort c \<or> 0 < Hysteria2Port c \<or> 0 < TUICPort c"
    using b(8) that cert by (simp add: chosen_cert_def)
  have ports: "nc_VLESSPort nc = VLESSPort c" "nc_SSPort nc = chosen_ss_port c sec" "nc_VMessPort nc = VMessPort c"
    "nc_TrojanPort nc = TrojanPort c" "nc_Hysteria2Port nc = Hysteria2Port c" "nc_TUICPort nc = TUICPort c"
    by (simp_all add: nc node_config_def)
  have "proto = ''vless'' \<or> proto = ''shadowsocks'' \<or> proto = ''vmess'' \<or> proto = ''trojan'' \<or>
      proto = ''hysteria2'' \<or> proto = ''tuic''"
    using entry(4) by (auto simp: protocol_tags_def)
  then have "proto_enabled (generator a) proto \<and> JNum (port_of (generator a) proto) = jget ''server_port'' ob"
    using outbound_port [OF p(2)] built(3) cert_paths_Some [OF cert] tls
    by (elim disjE) (simp_all add: proto_enabled_def port_of_simps b(2-7) ports ports_ok_def)
  then obtain i where i: "inbound (Generate t (generator a) (map config_user users) (RealitySNI (cfg a))) tag = Some i"
    "jget ''type'' i = JStr proto" "jget ''listen_port'' i = jget ''server_port'' ob" "proto_enabled (generator a) proto"
    using inbound_of_protocol [OF tag] by metis
  have "proto_entry proto (config_user lu) \<in> set (inbound_users (Generate t (generator a) (map config_user users) (RealitySNI (cfg a))) tag)"
    using inbound_users_servable [OF tag] i(4) proto_entry_listed [OF user(1) p(1) user(2)] by simp
  then have "accepts (Generate t (generator a) (map config_user users) (RealitySNI (cfg a))) tag (l_UUID lu) ob"
    using entry(1-3) i(1-3) name_proto_entry [of proto "config_user lu"]
    by (auto simp: accepts_def list_ex_iff intro!: bexI [of _ "proto_entry proto (config_user lu)"])
  then show ?thesis
    using tag entry(3) by blast
qed

text \<open>
  C19. The backend is told the truth. Whatever has happened to a running agent (its settings,
  secrets and generator are fixed when it is built), a poll reports as the VLESS port, and as the
  Shadowsocks port where it reports one, the port the configuration listens on; exactly the
  collector's counters, once per user; the fingerprints of exactly the keys that can log in;
  whether sing-box runs and how many users are stored. Where the counters cannot be read the poll
  is sent without any.
\<close>

theorem backend_is_told_the_truth:
  assumes "NewAgent env (Inr sec) c = AgentReady a0" "cfg a = cfg a0" "secrets a = secrets a0" "generator a = generator a0"
    and "keys_wf lib d" "\<forall>m. Collect rpc = Inr m \<longrightarrow> range_order m ks"
  shows "let req = poll_request (runner_status rpc ks d t a) s; st = req_Status req;
      config = Generate t' (generator a) us sni;
      listens = (\<lambda>tag. map_option (jget ''listen_port'') (inbound config tag)) in
    listens ''vless-in'' = Some (jget ''vless'' (EnrollClient.ListenPorts st)) \<and>
    (jget ''ss'' (EnrollClient.ListenPorts st) = JNull \<or> listens ''ss-in'' = Some (jget ''ss'' (EnrollClient.ListenPorts st))) \<and>
    SingboxRunning st = IsRunning (sb a) \<and>
    UserCount st = (case localStore a of None \<Rightarrow> 0 | Some store \<Rightarrow> int (card (dom (s_users store)))) \<and>
    jget ''fp'' ` set (OwnerKeys st) = JStr ` fingerprint lib ` access lib d \<and>
    (case Collect rpc of
       Inl err \<Rightarrow> req_Stats req = []
     | Inr m \<Rightarrow> distinct (map st_UUID (req_Stats req)) \<and>
         (\<lambda>x. (st_UUID x, st_Up x, st_Down x)) ` set (req_Stats req) = {(u, Upload n, Download n) | u n. m u = Some n})"
proof -
  note b = built_agent [OF assms(1)]
  let ?st = "req_Status (poll_request (runner_status rpc ks d t a) s)"
  have ports: "EnrollClient.ListenPorts ?st = JObj (map (\<lambda>(k, p). (k, JNum p)) (Agent.ListenPorts a))"
    by (simp add: poll_request_def runner_status_def)
  have "effectiveSSPort a = ssPort (generator a)"
    by (simp add: effectiveSSPort_def assms(2-4) b chosen_ss_port_def Let_def)
  moreover have "VLESSPort (cfg a) = vlessPort (generator a)"
    by (simp add: assms(2-4) b)
  ultimately have vless: "jget ''vless'' (EnrollClient.ListenPorts ?st) = JNum (vlessPort (generator a))"
    and ss: "jget ''ss'' (EnrollClient.ListenPorts ?st) = (if 0 < ssPort (generator a) then JNum (ssPort (generator a)) else JNull)"
    by (simp_all add: ports Agent.ListenPorts_def Let_def)
  have "map_option (jget ''listen_port'') (inbound (Generate t' (generator a) us sni) ''vless-in'') =
      Some (jget ''vless'' (EnrollClient.ListenPorts ?st))"
    unfolding vless by (simp add: inbound_Generate inbound_fields)
  moreover have "jget ''ss'' (EnrollClient.ListenPorts ?st) = JNull \<or>
      map_option (jget ''listen_port'') (inbound (Generate t' (generator a) us sni) ''ss-in'') =
        Some (jget ''ss'' (EnrollClient.ListenPorts ?st))"
    unfolding ss by (simp add: inbound_Generate inbound_fields)
  moreover have "SingboxRunning ?st = IsRunning (sb a)"
    by (simp add: poll_request_def runner_status_def singboxRunning_def)
  moreover have "UserCount ?st = (case localStore a of None \<Rightarrow> 0 | Some store \<Rightarrow> int (card (dom (s_users store))))"
    by (simp add: poll_request_def runner_status_def storeAdapter_UserCount_def store_GetUserCount_def split: option.split)
  moreover note reported_keys [OF assms(5), of rpc ks t a s]
  moreover have "case Collect rpc of
       Inl err \<Rightarrow> req_Stats (poll_request (runner_status rpc ks d t a) s) = []
     | Inr m \<Rightarrow> distinct (map st_UUID (req_Stats (poll_request (runner_status rpc ks d t a) s))) \<and>
         (\<lambda>x. (st_UUID x, st_Up x, st_Down x)) ` set (req_Stats (poll_request (runner_status rpc ks d t a) s)) =
           {(u, Upload n, Download n) | u n. m u = Some n}"
  proof (cases "Collect rpc")
    case (Inr m)
    then show ?thesis
      using reported_traffic [OF Inr] assms(6) by simp
  qed (simp add: reported_no_traffic)
  ultimately show ?thesis
    unfolding Let_def by (intro conjI)
qed

text \<open>The registration with the management server announces the ports the configuration listens on.\<close>

lemma registration_announces_the_ports:
  assumes "NewAgent env (Inr sec) c = AgentReady a"
  shows "let protocols = jget ''protocols'' (fst (agent_register out a));
      listens = (\<lambda>tag. map_option (jget ''listen_port'') (inbound (Generate t (generator a) us sni) tag)) in
    listens ''vless-in'' = Some (jget ''port'' (jget ''vless_reality'' protocols)) \<and>
    listens ''ss-in'' = Some (jget ''port'' (jget ''shadowsocks'' protocols))"
  using built_agent [OF assms]
  by (simp add: agent_register_def Backend.Register_def register_body_def Let_def inbound_Generate inbound_fields)

text \<open>
  C40. Where the addresses a node announces come from. An address that is configured is announced
  as it is, except that an IPv6 address that is not a global unicast one is dropped. An address
  that is not configured is the canonical text of one that a service reported (an answer with
  status 200 that parses): of an IPv6 one only if it is global unicast, of an IPv4 one without
  such a test, so that a private address a service reports is announced. If any service reports
  an IPv4 address, one is announced. (The hypothesis: the services answer with bare addresses.)
\<close>

theorem announced_addresses_are_valid:
  assumes "NewAgent env (Inr sec) c = AgentReady a" "localAPI a = Some nc" "list_all plain_answer (ipv6_answers env)"
  shows "(nc_ServerIPv6 nc \<noteq> '''' \<longrightarrow> IsPublicIPv6 (nc_ServerIPv6 nc) \<and>
      (if ServerIPv6 c \<noteq> '''' then nc_ServerIPv6 nc = ServerIPv6 c
       else (\<exists>ip. service_reported (ipv6_answers env) ip \<and> nc_ServerIPv6 nc = IP_String ip))) \<and>
    (if ServerIP c \<noteq> '''' then nc_ServerIP nc = ServerIP c
     else (if \<exists>ip. service_reported (ip_answers env) ip \<and> To4 ip \<noteq> None
       then (\<exists>ip f. service_reported (ip_answers env) ip \<and> To4 ip = Some f \<and> nc_ServerIP nc = show_ipv4 f \<and>
              ParseIP (nc_ServerIP nc) = Some ip)
       else nc_ServerIP nc = ''''))"
proof -
  have nc: "nc = node_config env c sec"
    using built_agent(1) [OF assms(1)] assms(2) by (auto split: if_splits)
  have "nc_ServerIPv6 nc \<noteq> '''' \<longrightarrow> IsPublicIPv6 (nc_ServerIPv6 nc) \<and>
      (if ServerIPv6 c \<noteq> '''' then nc_ServerIPv6 nc = ServerIPv6 c
       else (\<exists>ip. service_reported (ipv6_answers env) ip \<and> nc_ServerIPv6 nc = IP_String ip))"
    using DetectPublicIPv6_public [OF assms(3)] by (auto simp: nc node_config_def chosen_ipv6_def)
  moreover have "\<exists>ip f. service_reported (ip_answers env) ip \<and> To4 ip = Some f \<and> nc_ServerIP nc = show_ipv4 f \<and>
      ParseIP (nc_ServerIP nc) = Some ip"
    if "ServerIP c = ''''" "nc_ServerIP nc \<noteq> ''''"
    using DetectPublicIP_v4 [of "ip_answers env"] that by (simp add: nc node_config_def)
  moreover have "nc_ServerIP nc \<noteq> ''''" if "ServerIP c = ''''" "service_reported (ip_answers env) ip" "To4 ip \<noteq> None" for ip
    using DetectPublicIP_found [OF that(2,3)] that(1) by (simp add: nc node_config_def)
  moreover have "nc_ServerIP nc = ServerIP c" if "ServerIP c \<noteq> ''''"
    using that by (simp add: nc node_config_def)
  ultimately show ?thesis
    by (smt (verit) option.distinct(1))
qed

text \<open>
  Without the self-signed certificate (its creation failed) the agent generates no Trojan,
  Hysteria2 or TUIC inbound, but the share links and the client profile still announce these
  protocols on their configured ports: clients are given links nobody listens on.
\<close>

theorem links_without_certificate:
  assumes "NewAgent env (Inr sec) c = AgentReady a" "localAPI a = Some nc" "cert_paths env = None"
    and "0 < TrojanPort c" "nc_ServerIP nc \<noteq> ''''"
  shows "inbound (Generate t (generator a) users sni) ''trojan-in'' = None \<and>
    generateTrojanUrl (NewLocalAPIServer key (Some nc)) lu \<noteq> '''' \<and>
    (''trojan'' \<in> set (l_Protocols lu) \<longrightarrow>
      (\<exists>ob. ob \<in> set (profile_nodes nc lu) \<and> jget ''type'' ob = JStr ''trojan''))"
proof -
  note b = built_agent [OF assms(1)]
  have nc: "nc = node_config env c sec"
    using b(1) assms(2) by (auto split: if_splits)
  have "certPath (generator a) = ''''"
    using b(8) assms(3) by (simp add: chosen_cert_def split: if_splits)
  then have "\<not> proto_enabled (generator a) ''trojan''"
    by (simp add: proto_enabled_def)
  moreover have port: "nc_TrojanPort nc \<noteq> 0"
    using assms(4) by (simp add: nc node_config_def)
  then have "generateTrojanUrl (NewLocalAPIServer key (Some nc)) lu \<noteq> ''''"
    using assms(5) by (simp add: generateTrojanUrl_def NewLocalAPIServer_def Let_def)
  moreover have "\<exists>ob. ob \<in> set (profile_nodes nc lu) \<and> jget ''type'' ob = JStr ''trojan''"
    if "''trojan'' \<in> set (l_Protocols lu)"
  proof -
    obtain ob where ob: "profile_outbound nc lu (nc_ServerIP nc) '''' ''trojan'' = Some ob" "jget ''type'' ob = JStr ''trojan''"
      using port by (simp add: profile_outbound_def)
    then have "ob \<in> set (profile_nodes nc lu)"
      using that by (force simp: profile_nodes_def emit_def List.map_filter_def)
    with ob(2) show ?thesis by blast
  qed
  ultimately show ?thesis
    by (simp add: inbound_Generate)
qed

section \<open>Upgrades only on hosted machines\<close>

definition upgrades_of :: "Executor \<Rightarrow> effect list" where
  "upgrades_of e = filter (\<lambda>x. case x of DoUpgrade p \<Rightarrow> True | _ \<Rightarrow> False) (performed e)"

lemma remember_other [simp]:
  "performed (remember a e) = performed e" "upgrade (remember a e) = upgrade e" "exe_fs (remember a e) = exe_fs e"
  "pendingExit (remember a e) = pendingExit e"
  by (simp_all add: remember_def Let_def)

text \<open>\<open>e'\<close> differs from \<open>e\<close> in nothing an upgrade changes, and upgrades stay disabled.\<close>

definition not_upgraded :: "Executor \<Rightarrow> Executor \<Rightarrow> bool" where
  "not_upgraded e e' \<longleftrightarrow> upgrade e' = None \<and> exe_fs e' = exe_fs e \<and> pendingExit e' = pendingExit e \<and>
     upgrades_of e' = upgrades_of e"

lemma not_upgraded_trans: "not_upgraded e e1 \<Longrightarrow> not_upgraded e1 e2 \<Longrightarrow> not_upgraded e e2"
  by (simp add: not_upgraded_def)

lemma not_upgraded_perform:
  "upgrade e = None \<Longrightarrow> not_upgraded e (perform DoReload e)"
  "upgrade e = None \<Longrightarrow> not_upgraded e (perform (DoOpenTunnel i u) e)"
  by (simp_all add: not_upgraded_def perform_def upgrades_of_def)

lemma not_upgraded_execute:
  assumes "upgrade e = None"
  shows "not_upgraded e (fst (execute env t c e))"
proof -
  have "not_upgraded e e"
    using assms by (simp add: not_upgraded_def)
  moreover from this have "not_upgraded e (fst (doReload env e))"
    using not_upgraded_perform(1) [OF assms] by (simp add: doReload_def Let_def split: option.split)
  moreover from calculation(1) have "not_upgraded e (fst (openTunnel env c e))"
    using not_upgraded_perform(2) [OF assms] by (simp add: openTunnel_def Let_def split: option.split sum.split)
  moreover from calculation(1) have "not_upgraded e (fst (upgradeAgent env c e))"
    using assms by (simp add: upgradeAgent_def)
  ultimately show ?thesis
    by (simp add: execute_def)
qed

lemma not_upgraded_Execute:
  assumes "upgrade e = None"
  shows "not_upgraded e (fst (Execute env t c e))"
proof (cases "recent e (CommandID c)")
  case None
  then obtain a where "Execute env t c e = (remember a (fst (execute env t c e)), a)"
    by (rule Execute_fresh)
  then show ?thesis
    using not_upgraded_execute [OF assms, of env t c] by (simp add: not_upgraded_def upgrades_of_def)
qed (use assms in \<open>simp add: Execute_replay not_upgraded_def\<close>)

lemma not_upgraded_run:
  "upgrade e = None \<Longrightarrow> not_upgraded e (fst (executor.run_all ds e))"
proof (induction ds arbitrary: e)
  case (Cons d ds)
  obtain env t c where d: "d = (env, t, c)"
    by (cases d)
  obtain e1 a where x: "Execute env t c e = (e1, a)"
    by fastforce
  have "not_upgraded e e1"
    using not_upgraded_Execute [OF Cons.prems, of env t c] by (simp add: x)
  moreover from this have "not_upgraded e1 (fst (executor.run_all ds e1))"
    using Cons.IH [of e1] by (simp add: not_upgraded_def)
  moreover have "fst (executor.run_all (d # ds) e) = fst (executor.run_all ds e1)"
    by (simp add: d x split: prod.split)
  ultimately show ?case
    using not_upgraded_trans by metis
qed (simp add: not_upgraded_def)

text \<open>
  C12. A machine that is not hosted by the operator is never upgraded remotely, whatever commands
  the management server sends and in whatever order: the executor the agent builds leaves the
  agent's files alone, never asks the agent to exit for a new binary, and starts no upgrade. An
  \<^verbatim>\<open>upgrade_agent\<close> command it has not answered before is refused as unsupported.
\<close>

theorem self_hosted_agents_refuse_upgrades:
  assumes "enrollment_executor env existing exe version fs = Some e" "\<not> isHostedMode env"
  shows "exe_fs (fst (executor.run_all ds e)) = fs \<and> \<not> PendingExit (fst (executor.run_all ds e)) \<and>
    upgrades_of (fst (executor.run_all ds e)) = [] \<and>
    (CmdType c = ''upgrade_agent'' \<and> CmdExpiresAt c = None \<longrightarrow>
      Result (snd (Execute x t c e)) = ''failed'' \<and> ack_Error (snd (Execute x t c e)) = ''unsupported_type'')"
proof -
  have e: "e = NewExecutor version True fs"
    using assms by (simp add: enrollment_executor_def Let_def split: if_splits)
  have "Result (snd (Execute x t c e)) = ''failed'' \<and> ack_Error (snd (Execute x t c e)) = ''unsupported_type''"
    if "CmdType c = ''upgrade_agent''" "CmdExpiresAt c = None"
    using that
    by (simp add: e NewExecutor_def Execute_def replay_def execute_def upgradeAgent_def CmdGetConfig_def CmdReload_def
        CmdPing_def CmdUpgradeAgent_def ack_failed_def ResultFailed_def ErrUnsupportedType_def Let_def)
  moreover have "upgrade e = None" "exe_fs e = fs" "pendingExit e = False" "upgrades_of e = []"
    by (simp_all add: e NewExecutor_def upgrades_of_def)
  ultimately show ?thesis
    using not_upgraded_run [of e ds] by (simp add: PendingExit_def not_upgraded_def)
qed

section \<open>Revocation\<close>

text \<open>
  \<^verbatim>\<open>Stop\<close> took \<open>w\<close> to \<open>w'\<close>: sing-box does not run, the process that was the manager's is gone, and
  the monitors of this and earlier processes will do nothing, as long as nobody calls \<^verbatim>\<open>Start\<close>.
\<close>

definition stopped_from :: "world \<Rightarrow> world \<Rightarrow> bool" where
  "stopped_from w w' \<longleftrightarrow> \<not> IsRunning w' \<and> (\<forall>pid. cmd (mgr w) = Proc pid \<longrightarrow> pid \<notin> live w') \<and>
     (\<forall>gen v ok s. gen \<le> generation (mgr w) \<longrightarrow> mgr v = mgr w' \<longrightarrow>
        monitor_wake ok gen v = (v, None) \<and> monitor_resume s gen v = v)"

lemma stopped_from_Stop: "stopped_from w (Stop w)"
proof -
  have "\<not> IsRunning (Stop w)" "generation (mgr (Stop w)) = Suc (generation (mgr w))"
    "\<forall>pid. cmd (mgr w) = Proc pid \<longrightarrow> pid \<notin> live (Stop w)"
    by (simp_all add: Stop_def IsRunning_def Let_def split: cmdref.split)
  then show ?thesis
    by (simp add: stopped_from_def monitor_wake_def monitor_resume_def)
qed

lemma stopped_from_not: "stopped_from w w' \<Longrightarrow> \<not> IsRunning w'"
  by (simp add: stopped_from_def)

lemma collectAndReport_parts:
  "localStore (collectAndReport env a) = localStore a" "sb (collectAndReport env a) = sb a"
  "config_file (collectAndReport env a) = config_file a" "revoked_parts (collectAndReport env a) = revoked_parts a"
  by (simp_all add: collectAndReport_def flush_reports_def revoked_parts_def Let_def split: option.split prod.split bool.split)

lemma Done_parts:
  "localStore (main_loop_case (DoneTick rep) a) = localStore a" "sb (main_loop_case (DoneTick rep) a) = Stop (sb a)"
  "config_file (main_loop_case (DoneTick rep) a) = config_file a"
  "revoked_parts (main_loop_case (DoneTick rep) a) = revoked_parts a"
proof -
  have "revoked_parts (b\<lparr>sb := w\<rparr>) = revoked_parts b" for b w
    by (simp add: revoked_parts_def)
  then show "localStore (main_loop_case (DoneTick rep) a) = localStore a" "sb (main_loop_case (DoneTick rep) a) = Stop (sb a)"
    "config_file (main_loop_case (DoneTick rep) a) = config_file a"
    "revoked_parts (main_loop_case (DoneTick rep) a) = revoked_parts a"
    by (simp_all add: collectAndReport_parts)
qed

lemma revoke_users_spec:
  assumes "localStore a = Some st" "save_fails sv = None" "save_order sv = []"
  shows "no_users_left (revoke_users sv a)" "config_file (revoke_users sv a) = config_file a"
    "tunnelMgr a = Some m \<Longrightarrow> ran (active m) \<subseteq> cancelled_tunnels (revoke_users sv a)"
proof -
  have "localStore (revoke_users sv a) = Some (fst (Clear sv st))"
    by (simp add: revoke_users_def assms(1) Let_def split: option.split)
  moreover have "s_users (fst (Clear sv st)) = Map.empty" "s_users (restart (fst (Clear sv st))) = Map.empty"
    using assms(2,3) by (simp_all add: Clear_def save_ok Let_def restart_def NewStore_def load_def notify_def)
  ultimately show "no_users_left (revoke_users sv a)"
    by (simp add: no_users_left_def)
  show "config_file (revoke_users sv a) = config_file a"
    "tunnelMgr a = Some m \<Longrightarrow> ran (active m) \<subseteq> cancelled_tunnels (revoke_users sv a)"
    by (auto simp: revoke_users_def assms(1) Let_def CloseAll_def split: option.split)
qed

lemma revoke_node_spec:
  "localStore (revoke_node True a) = localStore a" "sb (revoke_node True a) = Stop (sb a)"
  "config_file (revoke_node True a) = config_file a" "cancelled_tunnels (revoke_node True a) = cancelled_tunnels a"
  "LoadNodeFile decode (final (node_files (revoke_node True a))) = Inr None"
  "revoked (revoke_node True a)" "shut_down (revoke_node True a)"
  by (simp_all add: revoke_node_def Let_def Cleanup_def RemoveNodeFile_def LoadNodeFile_def split: node_disk.split)

text \<open>
  What a revocation leaves for good, whatever runs after it: nobody in the user store nor in its
  file, no credentials, the tunnels cancelled, the main loop told to end, the exit code the service
  manager does not restart on.
\<close>

definition revoked_for_good :: "Agent \<Rightarrow> bool" where
  "revoked_for_good a \<longleftrightarrow> no_users_left a \<and> (\<forall>decode. LoadNodeFile decode (final (node_files a)) = Inr None) \<and>
     shut_down a \<and> exit_code a = 3"

lemma revoked_for_good_parts:
  "revoked_for_good a \<Longrightarrow> no_users_left b \<Longrightarrow> revoked_parts b = revoked_parts a \<Longrightarrow>
     revoked_for_good b \<and> cancelled_tunnels b = cancelled_tunnels a"
  by (simp add: revoked_for_good_def revoked_parts_def exit_code_def)

text \<open>
  C8. What a revocation ends. \<^verbatim>\<open>handleRevoked\<close> clears the users, stops sing-box, deletes the
  credentials and ends the main loop, whose last action is to stop sing-box again; regenerations,
  one of which \<^verbatim>\<open>Clear\<close> itself starts, and passes of the quota timer may run in between and after
  (\<open>before\<close>, \<open>between\<close>, \<open>later\<close>). From the end of \<^verbatim>\<open>handleRevoked\<close> on, whatever runs: the user
  store is empty, in memory and after a restart, the credentials are deleted so that the next start
  does not enrol without a token, the exit code is the one the service manager does not restart
  on, every tunnel that was open is cancelled, and the configuration file is the one before the
  revocation or one that serves and counts nobody. Both times sing-box is stopped its process is
  gone and no monitor brings it back; if no regeneration runs after the main loop's stop, it stays
  stopped. (A regeneration that runs later starts it again, with a configuration that serves
  nobody.) The users file can be written, the credentials file removed, and the configuration
  file written; a regeneration that had read the users before they were cleared, and a
  synchronisation in progress, are left out.
\<close>

theorem revoked_node_stops:
  assumes "localStore a = Some st" "save_fails sv = None" "save_order sv = []"
    and "list_all late_ok (before @ between @ later)"
    and a1: "a1 = run_late before (revoke_users sv a)" and a2: "a2 = revoke_node True a1"
    and a3: "a3 = run_late between a2" and a4: "a4 = main_loop_case (DoneTick rep) a3"
    and a5: "a5 = run_late later a4"
  shows "(before = [] \<longrightarrow> a2 = handleRevoked sv True a) \<and>
    (\<forall>b \<in> {a2, a3, a4, a5}. no_users_left b \<and> LoadNodeFile decode (final (node_files b)) = Inr None \<and>
       shut_down b \<and> exit_code b = 3 \<and> (\<forall>m. tunnelMgr a = Some m \<longrightarrow> ran (active m) \<subseteq> cancelled_tunnels b) \<and>
       (config_file b = config_file a \<or> serves_nobody (before @ between @ later) b)) \<and>
    stopped_from (sb a1) (sb a2) \<and> stopped_from (sb a3) (sb a4) \<and>
    ((\<forall>regen. LateRegen regen \<notin> set later) \<longrightarrow> sb a5 = sb a4) \<and>
    (env ''OTUN_ENROLL_TOKEN'' = '''' \<longrightarrow> \<not> isTokenMode env None)"
proof -
  note users = revoke_users_spec [OF assms(1-3)]
  have ok: "list_all late_ok before" "list_all late_ok between" "list_all late_ok later"
    using assms(4) by simp_all
  have run1: "no_users_left a1 \<and> revoked_parts a1 = revoked_parts (revoke_users sv a) \<and>
      (config_file a1 = config_file a \<or> serves_nobody before a1)"
    using run_late_spec [OF ok(1) users(1)] users(2) by (simp add: a1)
  have good2: "revoked_for_good a2"
    using run1 revoke_node_spec [where a = a1] by (simp add: a2 revoked_for_good_def no_users_left_def exit_code_def ExitRevokedCode_def)
  have run3: "no_users_left a3 \<and> revoked_parts a3 = revoked_parts a2 \<and> (config_file a3 = config_file a2 \<or> serves_nobody between a3)"
    using run_late_spec [OF ok(2), of a2] good2 by (simp add: a3 revoked_for_good_def)
  have run4: "no_users_left a4" "revoked_parts a4 = revoked_parts a3" "config_file a4 = config_file a3"
    using run3 Done_parts [of rep a3] by (simp_all add: a4 no_users_left_def)
  have run5: "no_users_left a5 \<and> revoked_parts a5 = revoked_parts a4 \<and> (config_file a5 = config_file a4 \<or> serves_nobody later a5) \<and>
      ((\<forall>regen. LateRegen regen \<notin> set later) \<longrightarrow> sb a5 = sb a4)"
    using run_late_spec [OF ok(3) run4(1)] by (simp add: a5)
  have "revoked_parts b = revoked_parts a2 \<and> no_users_left b" if "b \<in> {a2, a3, a4, a5}" for b
    using that good2 run3 run4 run5 by (elim insertE) (simp_all add: revoked_for_good_def)
  then have good: "revoked_for_good b \<and> cancelled_tunnels b = cancelled_tunnels a2" if "b \<in> {a2, a3, a4, a5}" for b
    using that revoked_for_good_parts [OF good2] by blast
  have tunnels: "ran (active m) \<subseteq> cancelled_tunnels a2" if "tunnelMgr a = Some m" for m
    using users(3) [OF that] run1 by (simp add: a2 revoke_node_spec revoked_parts_def)
  have carry: "serves_nobody (es1 @ es2 @ es3) b"
    if "serves_nobody es1 c \<or> serves_nobody es2 c \<or> serves_nobody es3 c" "config_file b = config_file c" for es1 es2 es3 b c
    using that by (auto simp: serves_nobody_def holds_config_def)
  have c2: "config_file a2 = config_file a1"
    by (simp add: a2 revoke_node_spec)
  have "config_file b = config_file a \<or> serves_nobody (before @ between @ later) b" if "b \<in> {a2, a3, a4, a5}" for b
    using that
  proof (elim insertE emptyE)
    assume b: "b = a2"
    show ?thesis
      using run1 c2 carry [of before a1 between later b] unfolding b by metis
  next
    assume b: "b = a3"
    show ?thesis
      using run1 run3 c2 carry [of before a1 between later b] carry [of before a3 between later b] unfolding b by metis
  next
    assume b: "b = a4"
    show ?thesis
      using run1 run3 run4(3) c2 carry [of before a1 between later b] carry [of before a3 between later b] unfolding b by metis
  next
    assume b: "b = a5"
    show ?thesis
      using run1 run3 run4(3) run5 c2 carry [of before a1 between later b] carry [of before a3 between later b]
        carry [of before a5 between later b] unfolding b by metis
  qed
  moreover have "stopped_from (sb a1) (sb a2)" "stopped_from (sb a3) (sb a4)"
    by (simp_all add: a2 a4 revoke_node_spec Done_parts stopped_from_Stop del: main_loop_case.simps)
  moreover have "before = [] \<longrightarrow> a2 = handleRevoked sv True a"
    by (simp add: a1 a2 run_late_def handleRevoked_def)
  ultimately show ?thesis
    using good tunnels run5 unfolding revoked_for_good_def isTokenMode_def by (intro conjI ballI) (simp_all del: insert_iff)
qed

text \<open>
  A regeneration that runs after the last stop starts sing-box again, when its binary and the
  configuration file are there.
\<close>

lemma regeneration_starts_singbox:
  assumes "localStore a = Some st" "\<not> IsRunning (sb a)" "write_ok (writing regen)" "spawn_ok (starting regen)"
    and "binPath (mgr (sb a)) \<in> files (sb a)" "configPath (mgr (sb a)) = SingboxConfig (cfg a)"
  shows "IsRunning (sb (regenerateConfig regen a))"
proof -
  have none: "accountLocalTraffic (accounting regen) False a = a"
    using assms(1,2) by (simp add: accountLocalTraffic_def)
  define a2 where "a2 = a\<lparr>monitor := UpdateUsers (map config_user (ListUsers (users_order regen) st)) (monitor a)\<rparr>"
  define a3 where "a3 = fst (write_config (writing regen) (regenerated regen a st) a2)"
  have w: "write_config (writing regen) (regenerated regen a st) a2 = (a3, True)" "config_file a3 \<noteq> None"
    using write_config_ok [OF assms(3), of "regenerated regen a st" a2]
    by (auto simp: a3_def prod_eq_iff holds_config_def)
  then have "sb a3 = (sb a)\<lparr>files := insert (SingboxConfig (cfg a)) (files (sb a))\<rparr>"
    by (auto simp: write_config_def Let_def split_beta a2_def)
  then have "IsRunning (sb (reload_or_start (starting regen) a3))"
    using assms(2,4-6) by (simp add: reload_or_start_def IsRunning_def Start_def startLocked_def reapStrays_def Let_def)
  moreover have "regenerateConfig regen a = (let a = reload_or_start (starting regen) a3 in a\<lparr>meter := Reset (meter a)\<rparr>)"
    unfolding regenerateConfig_def none Let_def assms(1) option.case
    using w(1) by (simp add: a2_def regenerated_def)
  ultimately show ?thesis
    by (simp add: Let_def)
qed

section \<open>Failures that are not noticed\<close>

text \<open>
  The \<^verbatim>\<open>reload\<close> command is acknowledged as done whatever happens: the callback the agent
  gives the executor drops the outcome, so the server is told the reload succeeded even when the
  new configuration could not be written and sing-box keeps the old one.
\<close>

theorem reload_command_hides_failures:
  assumes "CmdType c = ''reload''" "CmdExpiresAt c = None" "recent e (CommandID c) = None" "has_reload e"
    and "reload_result x = snd (reloadForCommand regen a)"
    and "\<And>p d f. os_write (writing regen) p d f = (f, Some err)"
  shows "Result (snd (Execute x t c e)) = ''done'' \<and>
    config_file (fst (reloadForCommand regen a)) = config_file a \<and> mgr (sb (fst (reloadForCommand regen a))) = mgr (sb a)"
proof -
  have "Result (snd (Execute x t c e)) = ''done''"
    using assms(1-5)
    by (simp add: Execute_def replay_def execute_def doReload_def reloadForCommand_def CmdGetConfig_def CmdReload_def
        ack_done_def ResultDone_def Let_def)
  moreover have "\<not> snd (write_config (writing regen) j b)" "config_file (fst (write_config (writing regen) j b)) = config_file b"
    for j b
    using assms(6) by (simp_all add: write_config_def WriteToFile_def Let_def split: sum.split)
  then have "config_file (regenerateConfig regen a) = config_file a \<and> mgr (sb (regenerateConfig regen a)) = mgr (sb a)"
    unfolding regenerateConfig_def Let_def by (simp add: split_beta split: option.split)
  ultimately show ?thesis
    by (simp add: reloadForCommand_def)
qed

text \<open>
  A synchronisation whose reload fails is not repeated: the version is recorded before
  sing-box is reloaded, so after a failed start sing-box is down and the next synchronisation with
  the same list changes nothing.
\<close>

theorem failed_reload_is_not_retried:
  assumes "IsRunning (sb a)" "currentVersion a \<noteq> Version resp" "write_ok (sync_write env)"
    and "\<not> spawn_ok (sync_start env)" "binPath (mgr (sb a)) \<in> files (sb a)" "configPath (mgr (sb a)) = SingboxConfig (cfg a)"
      "binPath (mgr (sb a)) \<noteq> SingboxConfig (cfg a)"
    and "syncAndApply env (Inr resp) a = (a', err)" "Version resp' = Version resp"
  shows "err = Some (ReloadFailed (ReloadStart StartFailed)) \<and> \<not> IsRunning (sb a') \<and>
    syncAndApply env' (Inr resp') a' = (a', None)"
proof -
  let ?cfg = "Generate (sync_now env) (generator a) (Users resp) (resp_RealitySNI resp)"
  define a2 where "a2 = a\<lparr>monitor := UpdateUsers (Users resp) (monitor a),
    users_cache := fst (Backend.SaveUsers (sync_marshal env) (sync_cache env) resp (users_cache a))\<rparr>"
  define a3 where "a3 = fst (write_config (sync_write env) ?cfg a2)"
  have w: "write_config (sync_write env) ?cfg a2 = (a3, True)"
    using write_config_ok [OF assms(3), of ?cfg a2] by (simp add: a3_def prod_eq_iff)
  have fs: "files (sb a3) = insert (SingboxConfig (cfg a)) (files (sb a))" "mgr (sb a3) = mgr (sb a)"
  proof -
    obtain data where "marshal_cfg (sync_write env) ?cfg = Inr data"
      using assms(3) unfolding write_ok_def by blast
    then show "files (sb a3) = insert (SingboxConfig (cfg a)) (files (sb a))"
      using assms(3) by (simp add: a3_def a2_def write_config_def WriteToFile_def Let_def write_ok_def)
    show "mgr (sb a3) = mgr (sb a)"
      by (simp add: a3_def a2_def)
  qed
  obtain w' where reload: "Reload (sync_start env) (sb a3) = (w', Some (ReloadStart StartFailed))" "\<not> running (mgr w')"
  proof -
    have "running (mgr (sb a3))"
      using assms(1) fs(2) by (simp add: IsRunning_def)
    moreover have stopped: "\<not> running (mgr (Stop (sb a3)))" "files (Stop (sb a3)) = files (sb a3)"
      "configPath (mgr (Stop (sb a3))) = configPath (mgr (sb a))" "binPath (mgr (Stop (sb a3))) = binPath (mgr (sb a))"
      using fs(2) by (simp_all add: Stop_def Let_def split: cmdref.split)
    ultimately show ?thesis
      using that assms(4-6) fs(1)
      by (simp add: Reload_def IsRunning_def Start_def startLocked_def Let_def reapStrays_def split: if_splits)
  qed
  have "syncAndApply env (Inr resp) a = reload_if_running (sync_start env) (a3\<lparr>currentVersion := Version resp\<rparr>)"
    using w assms(2) by (simp add: syncAndApply_def a2_def Let_def)
  also have "\<dots> = (a3\<lparr>currentVersion := Version resp, sb := w'\<rparr>, Some (ReloadFailed (ReloadStart StartFailed)))"
    using reload(1) assms(1) fs(2) by (simp add: reload_if_running_def IsRunning_def)
  finally show ?thesis
    using assms(8,9) reload(2) by (auto simp: IsRunning_def syncAndApply_def)
qed

text \<open>
  While the agent runs, expiry is not enforced: a pass of the quota timer in which nobody
  crosses his traffic limit leaves the configuration, the sing-box process and the pending
  regenerations as they are, whoever has expired. The request to cut the expired user's
  connections cannot help: the generated configuration opens no connection API.
\<close>

theorem expiry_waits_for_a_regeneration:
  assumes "localStore a = Some st"
    and "\<And>r k d lu. collected_now env = Some r \<Longrightarrow>
      account_ok env a r \<and> \<not> (reported (meter a) r k = Some d \<and> s_users st k = Some lu \<and> reaches d lu)"
  shows "config_file (main_loop_case (QuotaTick t ks env) a) = config_file a \<and>
    sb (main_loop_case (QuotaTick t ks env) a) = sb a \<and>
    regens (main_loop_case (QuotaTick t ks env) a) = regens a \<and>
    jget ''clash_api'' (jget ''experimental'' (Generate t' g users sni)) = JNull"
proof -
  let ?a = "a\<lparr>monitor := CheckAllUsers t ks (monitor a)\<rparr>"
  have "regens (accountLocalTraffic env True ?a) = regens a"
  proof (cases "IsRunning (sb a) \<and> collected_now env \<noteq> None")
    case True
    then obtain r where r: "collected_now env = Some r"
      by auto
    have "account_ok env ?a r"
      using assms(2) [OF r] by (simp add: account_ok_def)
    then show ?thesis
      using accountLocalTraffic_spec [of ?a st env r True] True assms(1) assms(2) [OF r] by auto
  next
    case False
    then show ?thesis
      using assms(1) by (auto simp: accountLocalTraffic_def)
  qed
  moreover have "jget ''clash_api'' (jget ''experimental'' (Generate t' g users sni)) = JNull"
    by (simp add: Generate_def Let_def)
  ultimately show ?thesis
    by simp
qed

section \<open>Examples\<close>

text \<open>A hybrid node with one local user, close to his limit, whose sing-box is running.\<close>

definition near_limit :: LocalUser where
  "near_limit = \<lparr>l_UUID = ''u1'', l_Name = ''bob'', l_Protocols = [''vless'', ''trojan''], l_SSPassword = ''pw'',
     l_Enabled = True, l_TrafficLimit = 100, l_TrafficUsed = 90, l_ExpireAt = None, CreatedAt = 0, UpdatedAt = 0\<rparr>"

definition sample_config :: AgentConfig where
  "sample_config = \<lparr>APIURL = '''', NodeAPIKey = '''', NodeID = ''n1'', SyncInterval = 60, StatsInterval = 60,
     VLESSPort = 443, SSPort = 8388, VMessPort = 0, TrojanPort = 8443, Hysteria2Port = 0, TUICPort = 0,
     SingboxBin = ''/sb'', SingboxConfig = ''/c'', LogLevel = ''info'', Management = ModeHybrid,
     ServerIP = ''192.0.2.1'', ServerIPv6 = '''', RealitySNI = ''sni''\<rparr>"

definition sample_boot :: "(string \<times> string) option \<Rightarrow> boot_env" where
  "sample_boot cert = \<lparr>boot_cert = \<lparr>cert_mkdir = True, new_pair = cert, crt_write = PemWritten, key_write = PemWritten\<rparr>,
     boot_certs = \<lparr>self_crt = None, self_key = None\<rparr>, ip_answers = [], ipv6_answers = [],
     users_disk = UsersFile \<lparr>data_Version = ''1'', data_Users = [near_limit]\<rparr>,
     boot_world = fst (Start good_env demo), boot_config = None, boot_cache = None, boot_reports = Map.empty,
     boot_node = \<lparr>final = NodeAbsent, tmp = None\<rparr>\<rparr>"

definition sample_agent :: "(string \<times> string) option \<Rightarrow> Agent" where
  "sample_agent cert = (case NewAgent (sample_boot cert) (Inr sample_secrets) sample_config of AgentReady a \<Rightarrow> a)"

definition sample_save :: save_env where
  "sample_save = \<lparr>save_order = [], save_nano = 0, save_fails = None\<rparr>"

definition sample_write :: write_env where
  "sample_write = \<lparr>marshal_cfg = (\<lambda>_. Inr ''config''), os_write = (\<lambda>p d f. (Some d, None))\<rparr>"

definition sample_account :: account_env where
  "sample_account = \<lparr>collected_now = Some [''u1'' \<mapsto> Some \<lparr>Upload = 7, Download = 3\<rparr>], stats_order = [''u1''],
     deltas_order = [''u1''], add_env = (\<lambda>_. sample_save)\<rparr>"

definition sample_regen :: regen_env where
  "sample_regen = \<lparr>accounting = sample_account, users_order = [''u1''], now = 5, writing = sample_write, starting = good_env\<rparr>"

definition sample_users :: UsersResponse where
  "sample_users = \<lparr>Version = ''v2'', Users = [sample_user\<lparr>UUID := ''r1''\<rparr>], resp_RealitySNI = ''sni''\<rparr>"

definition sample_sync :: sync_env where
  "sample_sync = \<lparr>sync_now = 5, merge_order = [''r1'', ''u1''], local_order = [''u1''], sync_marshal = (\<lambda>_. ''users''),
     sync_unmarshal = (\<lambda>_. None), sync_cache = Written, sync_write = sample_write,
     sync_start = \<lparr>pgrep_ok = True, spawn_ok = False\<rparr>\<rparr>"

lemma sample_built:
  "NewAgent (sample_boot cert) (Inr sample_secrets) sample_config = AgentReady (sample_agent cert)"
  by (simp add: sample_agent_def NewAgent_def sample_secrets_def Let_def split: prod.split)

lemma sample_store:
  "s_users (NewStore (UsersFile \<lparr>data_Version = ''1'', data_Users = [near_limit]\<rparr>) True) = [''u1'' \<mapsto> near_limit]"
  by (simp add: NewStore_def load_def load_user_def near_limit_def)

lemma sample_agent_simps:
  "localStore (sample_agent cert) = Some (NewStore (UsersFile \<lparr>data_Version = ''1'', data_Users = [near_limit]\<rparr>) True)"
  "sb (sample_agent cert) = fst (Start good_env demo)" "meter (sample_agent cert) = NewMeter"
  "localAPI (sample_agent cert) = Some (node_config (sample_boot cert) sample_config sample_secrets)"
  "cfg (sample_agent cert) = sample_config\<lparr>SSPort := 10005\<rparr>" "regens (sample_agent cert) = 0"
  "currentVersion (sample_agent cert) = ''''"
  by (simp_all add: sample_agent_def NewAgent_def sample_secrets_def Let_def sample_config_def sample_boot_def
      has_local_def chosen_ss_port_def split: prod.split)

lemma sample_running: "IsRunning (fst (Start good_env demo))" "mgr (fst (Start good_env demo)) =
    \<lparr>binPath = ''/sb'', configPath = ''/c'', cmd = Proc 8, running = True, generation = 1, consecutiveFailures = 0, stopped = False\<rparr>"
    "files (fst (Start good_env demo)) = {''/sb'', ''/c''}"
  by (simp_all add: IsRunning_def demo_defs)

lemma sample_store_wf: "store_wf (NewStore (UsersFile \<lparr>data_Version = ''1'', data_Users = [near_limit]\<rparr>) True)"
  by (simp add: store_wf_def sample_store) (simp add: near_limit_def)

lemma sample_write_ok: "write_ok sample_write"
  by (simp add: write_ok_def sample_write_def)


lemma sample_account_ok:
  "account_ok sample_account (sample_agent cert) [''u1'' \<mapsto> Some \<lparr>Upload = 7, Download = 3\<rparr>]"
  "reported NewMeter [''u1'' \<mapsto> Some \<lparr>Upload = 7, Download = 3\<rparr>] = [''u1'' \<mapsto> \<lparr>Upload = 7, Download = 3\<rparr>]"
proof -
  show r: "reported NewMeter [''u1'' \<mapsto> Some \<lparr>Upload = 7, Download = 3\<rparr>] = [''u1'' \<mapsto> \<lparr>Upload = 7, Download = 3\<rparr>]"
    by (simp add: fun_eq_iff reported_def last_of_def NewMeter_def stats_delta_def delta_def zero_stats_def i64_id is_i64_def)
  show "account_ok sample_account (sample_agent cert) [''u1'' \<mapsto> Some \<lparr>Upload = 7, Download = 3\<rparr>]"
    by (simp add: account_ok_def sample_account_def sample_agent_simps r range_order_def)
qed

lemma sample_fits: "fits (Some \<lparr>Upload = 7, Download = 3\<rparr>) near_limit"
  by (simp add: fits_def near_limit_def is_i64_def)

lemma traffic_limit_is_enforced_witness:
  "let a = sample_agent None; a1 = accountLocalTraffic sample_account True a;
       regen = sample_regen\<lparr>accounting := sample_account\<lparr>collected_now := None\<rparr>\<rparr>
   in regens a1 = 1 \<and>
     (\<exists>config. holds_config sample_write (regenerateConfig regen a1) config \<and> JStr ''u1'' \<notin> served_names config)"
proof -
  let ?d = "\<lparr>Upload = 7, Download = 3\<rparr>"
  have "IsRunning (sb (sample_agent None))" "reported (meter (sample_agent None)) [''u1'' \<mapsto> Some ?d] ''u1'' = Some ?d"
    by (simp_all add: sample_agent_simps sample_running sample_account_ok)
  moreover have "0 < l_TrafficLimit near_limit" "l_TrafficUsed near_limit < l_TrafficLimit near_limit"
    "l_TrafficLimit near_limit \<le> l_TrafficUsed near_limit + (Upload ?d + Download ?d)"
    by (simp_all add: near_limit_def)
  ultimately show ?thesis
    using traffic_limit_is_enforced [of "sample_agent None" _ "''u1''" near_limit sample_account
        "[''u1'' \<mapsto> Some ?d]" ?d "accountLocalTraffic sample_account True (sample_agent None)"
        "sample_regen\<lparr>accounting := sample_account\<lparr>collected_now := None\<rparr>\<rparr>", OF _ sample_store_wf]
    by (simp add: sample_agent_simps sample_store sample_account_ok sample_fits sample_write_ok sample_regen_def Let_def)
qed

text \<open>sing-box does not answer the accounting, so the user is still below his limit.\<close>

lemma sample_quiet:
  "localStore (regenerateConfig (sample_regen\<lparr>accounting := sample_account\<lparr>collected_now := None\<rparr>\<rparr>) (sample_agent None)) =
     Some (NewStore (UsersFile \<lparr>data_Version = ''1'', data_Users = [near_limit]\<rparr>) True)"
proof -
  let ?regen = "sample_regen\<lparr>accounting := sample_account\<lparr>collected_now := None\<rparr>\<rparr>"
  have "accountLocalTraffic (accounting ?regen) False (sample_agent None) = sample_agent None"
    by (simp add: accountLocalTraffic_def split: option.split)
  then show ?thesis
    using regenerateConfig_eq [of ?regen "sample_agent None"] sample_agent_simps(1)
    by (simp add: sample_regen_def sample_write_ok)
qed

lemma regeneration_serves_exactly_the_local_users_witness:
  "\<exists>config. holds_config sample_write (regenerateConfig (sample_regen\<lparr>accounting := sample_account\<lparr>collected_now := None\<rparr>\<rparr>)
       (sample_agent None)) config \<and>
     set (inbound_users config ''vless-in'') = {user_entry ''vless'' ''u1'' ''pw''}"
proof -
  let ?regen = "sample_regen\<lparr>accounting := sample_account\<lparr>collected_now := None\<rparr>\<rparr>"
  have "dom (s_users (NewStore (UsersFile \<lparr>data_Version = ''1'', data_Users = [near_limit]\<rparr>) True)) \<subseteq> set (users_order ?regen)"
    "write_ok (writing ?regen)"
    by (simp_all add: sample_store sample_regen_def sample_write_ok)
  from regeneration_serves_exactly_the_local_users [OF sample_agent_simps(1) [of None] sample_store_wf this]
  obtain st config where st: "localStore (regenerateConfig ?regen (sample_agent None)) = Some st"
    and c: "holds_config (writing ?regen) (regenerateConfig ?regen (sample_agent None)) config"
    and served: "\<forall>(proto, tag) \<in> set protocol_tags.
      if proto_enabled (generator (sample_agent None)) proto
      then set (inbound_users config tag) = {user_entry proto (l_UUID lu) (l_SSPassword lu) | lu.
        lu \<in> ran (s_users st) \<and> may_use (now ?regen) lu \<and> proto \<in> set (l_Protocols lu)}
      else inbound config tag = None"
    by (elim exE conjE) (rule that)
  have "ran (s_users st) = {near_limit}"
    using st sample_quiet sample_store by force
  moreover have "(''vless'', ''vless-in'') \<in> set protocol_tags" "proto_enabled (generator (sample_agent None)) ''vless''"
    by (simp_all add: protocol_tags_def proto_enabled_def)
  moreover have "may_use (now ?regen) near_limit"
    by (simp add: may_use_def near_limit_def sample_regen_def)
  moreover have "''vless'' \<in> set (l_Protocols near_limit)" "l_UUID near_limit = ''u1''" "l_SSPassword near_limit = ''pw''"
    by (simp_all add: near_limit_def)
  ultimately have "set (inbound_users config ''vless-in'') = {user_entry ''vless'' ''u1'' ''pw''}"
    using bspec [OF served, of "(''vless'', ''vless-in'')"] by auto
  moreover have "writing ?regen = sample_write"
    by (simp add: sample_regen_def)
  ultimately show ?thesis
    using c by auto
qed

lemma sample_merge:
  "hybrid_map (Users sample_users) (ListUsers [''u1''] (NewStore (UsersFile \<lparr>data_Version = ''1'', data_Users = [near_limit]\<rparr>) True)) =
     [''r1'' \<mapsto> sample_user\<lparr>UUID := ''r1''\<rparr>, ''u1'' \<mapsto> config_user near_limit]"
  by (simp add: hybrid_map_def ListUsers_def sample_store sample_users_def) (simp add: near_limit_def sample_user_def)

text \<open>The local user and the remote one are both served, the local one with his own password.\<close>

lemma hybrid_sync_prefers_local_users_witness:
  "\<exists>config. holds_config sample_write (fst (syncAndApplyHybrid sample_sync (Inr sample_users) (sample_agent None))) config \<and>
     {user_entry ''vless'' ''u1'' ''pw'', user_entry ''vless'' ''r1'' (SSPassword sample_user)} \<subseteq>
       set (inbound_users config ''vless-in'')"
proof -
  let ?st = "NewStore (UsersFile \<lparr>data_Version = ''1'', data_Users = [near_limit]\<rparr>) True"
  have "dom (s_users ?st) \<subseteq> set (local_order sample_sync)" "write_ok (sync_write sample_sync)"
    "set (merge_order sample_sync) = dom (hybrid_map (Users sample_users) (ListUsers (local_order sample_sync) ?st))"
    by (auto simp: sample_store sample_sync_def sample_write_ok sample_merge)
  from hybrid_sync_prefers_local_users [OF sample_agent_simps(1) [of None] sample_store_wf this(1,3,2)]
  obtain config where c: "holds_config (sync_write sample_sync) (fst (syncAndApplyHybrid sample_sync (Inr sample_users) (sample_agent None))) config"
    and served: "\<forall>(proto, tag) \<in> set protocol_tags.
      if proto_enabled (generator (sample_agent None)) proto
      then set (inbound_users config tag) = merged_entry ?st (Users sample_users) (sync_now sample_sync) proto
      else inbound config tag = None"
    by (elim exE conjE, hypsubst) (rule that)
  have "(''vless'', ''vless-in'') \<in> set protocol_tags" "proto_enabled (generator (sample_agent None)) ''vless''"
    by (simp_all add: protocol_tags_def proto_enabled_def)
  then have inb: "set (inbound_users config ''vless-in'') = merged_entry ?st (Users sample_users) 5 ''vless''"
    using bspec [OF served, of "(''vless'', ''vless-in'')"] by (simp add: sample_sync_def)
  let ?r = "sample_user\<lparr>UUID := ''r1''\<rparr>"
  have "servable 5 ?r" "''vless'' \<in> set (Protocols ?r)" "UUID ?r = ''r1''" "SSPassword ?r = SSPassword sample_user"
    "s_users ?st (UUID ?r) = None" "find (\<lambda>v. UUID v = UUID ?r) (rev (Users sample_users)) = Some ?r"
    by (simp_all add: servable_def sample_user_def OverQuota_def Expired_def sample_users_def sample_store)
  note r = this
  have "user_entry ''vless'' (UUID ?r) (SSPassword ?r) \<in> merged_entry ?st (Users sample_users) 5 ''vless''"
    unfolding merged_entry_def using r(1,2,5,6) by blast
  then have "user_entry ''vless'' ''r1'' (SSPassword sample_user) \<in> set (inbound_users config ''vless-in'')"
    by (simp only: r(3,4) inb)
  moreover have "near_limit \<in> ran (s_users ?st)"
    by (simp only: sample_store) simp
  moreover have u: "may_use 5 near_limit" "''vless'' \<in> set (l_Protocols near_limit)"
    "l_UUID near_limit = ''u1''" "l_SSPassword near_limit = ''pw''"
    by (simp_all add: may_use_def near_limit_def)
  ultimately have "user_entry ''vless'' (l_UUID near_limit) (l_SSPassword near_limit) \<in> merged_entry ?st (Users sample_users) 5 ''vless''"
    unfolding merged_entry_def by blast
  then have "user_entry ''vless'' ''u1'' ''pw'' \<in> set (inbound_users config ''vless-in'')"
    by (simp only: u(3,4) inb)
  moreover note \<open>user_entry ''vless'' ''r1'' (SSPassword sample_user) \<in> set (inbound_users config ''vless-in'')\<close>
  moreover have "sync_write sample_sync = sample_write"
    by (simp add: sample_sync_def)
  ultimately show ?thesis
    using c by (intro exI [of _ config]) simp
qed

lemma sample_profile:
  "servable 5 (config_user near_limit)" "ports_ok sample_config" "''trojan'' \<in> set (l_Protocols near_limit)"
  "0 < TrojanPort sample_config" "nc_ServerIP (node_config (sample_boot cert) sample_config sample_secrets) \<noteq> ''''"
  "nc_TrojanPort (node_config (sample_boot cert) sample_config sample_secrets) = 8443"
  "cert_paths (sample_boot None) = None"
  "cert_paths (sample_boot (Some (''crt'', ''key''))) = Some (''data/self.crt'', ''data/self.key'')"
  by (simp_all add: servable_def config_user_def near_limit_def OverQuota_def Expired_def ports_ok_def sample_config_def
      node_config_def sample_boot_def cert_paths_def EnsureSelfSignedCert_def)

lemma sample_trojan_outbound:
  "\<exists>ob \<in> set (profile_nodes (node_config (sample_boot cert) sample_config sample_secrets) near_limit).
     jget ''type'' ob = JStr ''trojan''"
proof -
  let ?nc = "node_config (sample_boot cert) sample_config sample_secrets"
  obtain ob where ob: "profile_outbound ?nc near_limit (nc_ServerIP ?nc) '''' ''trojan'' = Some ob" "jget ''type'' ob = JStr ''trojan''"
    by (simp add: profile_outbound_def sample_profile)
  then have "ob \<in> set (profile_nodes ?nc near_limit)"
    using sample_profile(3) by (force simp: profile_nodes_def emit_def List.map_filter_def)
  with ob(2) show ?thesis by blast
qed

lemma profile_matches_configuration_witness:
  "let a = sample_agent (Some (''crt'', ''key'')); nc = node_config (sample_boot (Some (''crt'', ''key''))) sample_config sample_secrets
   in \<exists>ob \<in> set (profile_nodes nc near_limit). jget ''type'' ob = JStr ''trojan'' \<and>
     (\<exists>tag. accepts (Generate 5 (generator a) (map config_user [near_limit]) (RealitySNI (cfg a))) tag ''u1'' ob)"
proof -
  obtain ob where ob: "ob \<in> set (profile_nodes (node_config (sample_boot (Some (''crt'', ''key''))) sample_config sample_secrets) near_limit)"
    "jget ''type'' ob = JStr ''trojan''"
    using sample_trojan_outbound by blast
  have "l_UUID near_limit = ''u1''"
    by (simp add: near_limit_def)
  then show ?thesis
    using profile_matches_configuration [OF sample_built sample_agent_simps(4) sample_profile(2), of "Some (''crt'', ''key'')" "''data/self.crt''" "''data/self.key''"
        near_limit "[near_limit]" 5 ob] ob sample_profile(1)
    by (auto simp: sample_profile Let_def)
qed

lemma backend_is_told_the_truth_witness:
  "\<forall>s. (\<lambda>x. (st_UUID x, st_Up x, st_Down x)) ` set (req_Stats (poll_request (runner_status example_rpc [''u1''] sample_keys 0 (sample_agent None)) s))
     = {(''u1'', 300, 0)}"
proof
  fix s
  let ?m = "[''u1'' \<mapsto> \<lparr>Upload = 300, Download = 0\<rparr>]"
  have "\<forall>m. Collect example_rpc = Inr m \<longrightarrow> range_order m [''u1'']"
    by (simp only: example_Collect sum.inject simp_thms) (simp add: range_order_def)
  note t = backend_is_told_the_truth [OF sample_built [of None] refl refl refl sample_keys_wf(1) this, where s = s and t = 0, unfolded example_Collect Let_def sum.case]
  have "(\<lambda>x. (st_UUID x, st_Up x, st_Down x)) ` set (req_Stats (poll_request (runner_status example_rpc [''u1''] sample_keys 0 (sample_agent None)) s))
    = {(u, Upload n, Download n) | u n. ?m u = Some n}"
    using t [where t' = 0 and us = "[]" and sni = "''''"] by (rule conjunct2 [OF conjunct2 [OF conjunct2 [OF conjunct2 [OF conjunct2 [OF conjunct2]]]]])
  also have "\<dots> = {(''u1'', 300, 0)}"
    by (auto split: if_splits)
  finally show "(\<lambda>x. (st_UUID x, st_Up x, st_Down x)) ` set (req_Stats (poll_request (runner_status example_rpc [''u1''] sample_keys 0 (sample_agent None)) s))
    = {(''u1'', 300, 0)}" .
qed

lemma only_the_key_opens_the_api_witness:
  "\<exists>a. main sample_ssh ''now'' AuthKeys.Renamed (\<lambda>_. '''') ''/agent'' [] (\<lambda>_. sample_keys) (sample_config\<lparr>NodeAPIKey := ''key''\<rparr>)
        (sample_boot None) (Inr sample_secrets) = MainAgent a \<and>
     (\<forall>env. fst (startHTTPServer env a \<lparr>Method = ''POST'', Path = ''/api/local/users'', Authorization = ''Bearer guess'', Format = ''''\<rparr>) = a)"
proof -
  let ?c = "sample_config\<lparr>NodeAPIKey := ''key''\<rparr>"
  let ?r = "\<lparr>Method = ''POST'', Path = ''/api/local/users'', Authorization = ''Bearer guess'', Format = ''''\<rparr> :: Request"
  have "\<not> isOboxKeyInvocation ''/agent'' []"
    by (simp add: isOboxKeyInvocation_def filepath_Base_def HasSuffix_def Let_def)
  moreover obtain a where "NewAgent (sample_boot None) (Inr sample_secrets) ?c = AgentReady a"
    by (cases "chosen_cert (sample_boot None) ?c") (simp add: NewAgent_def sample_secrets_def Let_def)
  ultimately have a: "main sample_ssh ''now'' AuthKeys.Renamed (\<lambda>_. '''') ''/agent'' [] (\<lambda>_. sample_keys) ?c (sample_boot None) (Inr sample_secrets) =
      MainAgent a"
    by (simp add: main_def)
  have no: "\<nexists>scheme. Authorization ?r = scheme @ '' '' @ NodeAPIKey ?c \<and> map ascii_lower scheme = ''bearer''"
  proof
    assume "\<exists>scheme. Authorization ?r = scheme @ '' '' @ NodeAPIKey ?c \<and> map ascii_lower scheme = ''bearer''"
    then obtain scheme where "''Bearer guess'' = scheme @ '' key''" "length scheme = 6"
      by (auto dest: arg_cong [of _ _ length])
    then have "length ''Bearer guess'' = 6 + length '' key''"
      by (metis length_append)
    then show False
      by simp
  qed
  have "fst (startHTTPServer env a ?r) = a" for env
    using only_the_key_opens_the_api [OF a, of ?r env] no by blast
  with a show ?thesis
    by blast
qed

lemma announced_addresses_are_valid_witness:
  "let env = (sample_boot None)\<lparr>ip_answers := [NoAnswer, IpAnswer 200 ''192.0.2.7''],
         ipv6_answers := [IpAnswer 503 '''', IpAnswer 200 ''2001::1'']\<rparr>;
       nc = node_config env (sample_config\<lparr>ServerIP := ''''\<rparr>) sample_secrets
   in nc_ServerIP nc = ''192.0.2.7'' \<and> IsPublicIPv6 (nc_ServerIPv6 nc)"
proof -
  let ?env = "(sample_boot None)\<lparr>ip_answers := [NoAnswer, IpAnswer 200 ''192.0.2.7''],
         ipv6_answers := [IpAnswer 503 '''', IpAnswer 200 ''2001::1'']\<rparr>"
  let ?c = "sample_config\<lparr>ServerIP := ''''\<rparr>"
  let ?nc = "node_config ?env ?c sample_secrets"
  obtain a where a: "NewAgent ?env (Inr sample_secrets) ?c = AgentReady a"
    by (cases "chosen_cert ?env ?c") (simp add: NewAgent_def sample_secrets_def Let_def)
  have "localAPI a = Some ?nc"
    using built_agent(1) [OF a] by (simp add: sample_config_def has_local_def)
  moreover have "nc_ServerIPv6 ?nc \<noteq> ''''" "nc_ServerIP ?nc = ''192.0.2.7''"
    using sample_detected by (simp_all add: node_config_def chosen_ipv6_def sample_config_def)
  ultimately show ?thesis
    using announced_addresses_are_valid [OF a, of ?nc] sample_detected(3) by (simp add: Let_def)
qed

lemma links_without_certificate_witness:
  "inbound (Generate 5 (generator (sample_agent None)) [config_user near_limit] ''sni'') ''trojan-in'' = None \<and>
   generateTrojanUrl (NewLocalAPIServer ''key'' (Some (node_config (sample_boot None) sample_config sample_secrets))) near_limit \<noteq> ''''"
  using links_without_certificate [OF sample_built sample_agent_simps(4) sample_profile(7) sample_profile(4,5)] by blast

definition token_only :: "string \<Rightarrow> string" where
  "token_only k = (if k = ''OTUN_ENROLL_TOKEN'' then ''token'' else '''')"

lemma self_hosted_agents_refuse_upgrades_witness:
  "\<not> PendingExit (fst (executor.run_all [(sample_exec_env, 6, sample_command ''c1'' ''upgrade_agent'')] (NewExecutor ''v1'' True Map.empty))) \<and>
   ack_Error (snd (Execute sample_exec_env 5 (sample_command ''c1'' ''upgrade_agent'') (NewExecutor ''v1'' True Map.empty))) = ''unsupported_type''"
proof -
  have "enrollment_executor token_only None (Some ''/agent'') ''v1'' Map.empty = Some (NewExecutor ''v1'' True Map.empty)"
    "\<not> isHostedMode token_only"
    by (simp_all add: enrollment_executor_def isHostedMode_def token_only_def)
  moreover have "CmdType (sample_command ''c1'' ''upgrade_agent'') = ''upgrade_agent''" "CmdExpiresAt (sample_command ''c1'' ''upgrade_agent'') = None"
    by (simp_all add: sample_command_def)
  ultimately show ?thesis
    using self_hosted_agents_refuse_upgrades [of token_only None "Some ''/agent''" "''v1''" Map.empty
        "NewExecutor ''v1'' True Map.empty"] by blast
qed

text \<open>A regeneration runs between the two stops, and none after the second.\<close>

lemma revoked_node_stops_witness:
  "\<forall>rep. let a2 = handleRevoked sample_save True (sample_agent None);
       a3 = run_late [LateRegen sample_regen] a2;
       a4 = main_loop_case (DoneTick rep) a3
   in no_users_left a4 \<and> exit_code a4 = 3 \<and> \<not> IsRunning (sb a2) \<and> \<not> IsRunning (sb a4)"
proof
  fix rep
  have ok: "list_all late_ok ([] @ [LateRegen sample_regen] @ [])" "save_fails sample_save = None" "save_order sample_save = []"
    by (simp_all add: late_ok_def sample_regen_def sample_write_ok sample_save_def)
  define a2 where "a2 = revoke_node True (run_late [] (revoke_users sample_save (sample_agent None)))"
  define a3 where "a3 = run_late [LateRegen sample_regen] a2"
  define a4 where "a4 = main_loop_case (DoneTick rep) a3"
  from revoked_node_stops [OF sample_agent_simps(1) ok(2,3,1) refl a2_def a3_def a4_def refl, of "\<lambda>_. None" "\<lambda>_. ''''"]
  have "a2 = handleRevoked sample_save True (sample_agent None)" "no_users_left a4" "exit_code a4 = 3"
    "\<not> IsRunning (sb a2)" "\<not> IsRunning (sb a4)"
    using stopped_from_not by blast+
  then show "let a2 = handleRevoked sample_save True (sample_agent None);
       a3 = run_late [LateRegen sample_regen] a2;
       a4 = main_loop_case (DoneTick rep) a3
   in no_users_left a4 \<and> exit_code a4 = 3 \<and> \<not> IsRunning (sb a2) \<and> \<not> IsRunning (sb a4)"
    unfolding Let_def a4_def a3_def by simp
qed

lemma reload_command_hides_failures_witness:
  "let regen = sample_regen\<lparr>writing := sample_write\<lparr>os_write := (\<lambda>p d f. (f, Some ''disk full''))\<rparr>\<rparr>;
       c = sample_command ''c1'' ''reload''
   in Result (snd (Execute sample_exec_env 5 c sample_executor)) = ''done'' \<and>
     config_file (fst (reloadForCommand regen (sample_agent None))) = config_file (sample_agent None)"
  using reload_command_hides_failures [of "sample_command ''c1'' ''reload''" sample_executor sample_exec_env
      "sample_regen\<lparr>writing := sample_write\<lparr>os_write := (\<lambda>p d f. (f, Some ''disk full''))\<rparr>\<rparr>" "sample_agent None" "''disk full''" 5]
  by (simp add: sample_executor_wf sample_command_def sample_exec_env_def reloadForCommand_def sample_executor_def
      EnableTunnel_def NewExecutor_def)

lemma failed_reload_is_not_retried_witness:
  "let a' = fst (syncAndApply sample_sync (Inr sample_users) (sample_agent None))
   in \<not> IsRunning (sb a') \<and> syncAndApply (sample_sync\<lparr>sync_start := good_env\<rparr>) (Inr sample_users) a' = (a', None)"
proof -
  obtain a' err where "syncAndApply sample_sync (Inr sample_users) (sample_agent None) = (a', err)"
    by fastforce
  then show ?thesis
    using failed_reload_is_not_retried [of "sample_agent None" sample_users sample_sync a' err sample_users
        "sample_sync\<lparr>sync_start := good_env\<rparr>"]
    by (simp add: sample_agent_simps sample_running sample_sync_def sample_write_ok sample_users_def sample_config_def Let_def)
qed

lemma expiry_waits_for_a_regeneration_witness:
  "let round = sample_account\<lparr>collected_now := Some [''u1'' \<mapsto> Some \<lparr>Upload = 1, Download = 2\<rparr>]\<rparr>
   in config_file (main_loop_case (QuotaTick 99 [''u1''] round) (sample_agent None)) = config_file (sample_agent None) \<and>
     regens (main_loop_case (QuotaTick 99 [''u1''] round) (sample_agent None)) = 0"
proof -
  let ?r = "[''u1'' \<mapsto> Some \<lparr>Upload = 1, Download = 2\<rparr>]"
  have d: "reported NewMeter ?r = [''u1'' \<mapsto> \<lparr>Upload = 1, Download = 2\<rparr>]"
    by (simp add: fun_eq_iff reported_def last_of_def NewMeter_def stats_delta_def delta_def zero_stats_def i64_id is_i64_def)
  have "account_ok (sample_account\<lparr>collected_now := Some ?r\<rparr>) (sample_agent None) ?r"
    by (simp add: account_ok_def sample_account_def sample_agent_simps d range_order_def)
  moreover have "\<not> reaches \<lparr>Upload = 1, Download = 2\<rparr> near_limit"
    by (simp add: reaches_def charged_def near_limit_def i64_id is_i64_def)
  ultimately have "account_ok (sample_account\<lparr>collected_now := Some ?r\<rparr>) (sample_agent None) r \<and>
      \<not> (reported (meter (sample_agent None)) r k = Some d \<and>
        s_users (NewStore (UsersFile \<lparr>data_Version = ''1'', data_Users = [near_limit]\<rparr>) True) k = Some lu \<and> reaches d lu)"
    if "collected_now (sample_account\<lparr>collected_now := Some ?r\<rparr>) = Some r" for r k d lu
    using that by (auto simp: sample_agent_simps sample_store d split: if_splits)
  from expiry_waits_for_a_regeneration [OF sample_agent_simps(1) this]
  show ?thesis
    by (simp add: sample_agent_simps(6))
qed

section \<open>The identity of a node\<close>

text \<open>What one start of the agent meets, for each of the four things it keeps in files.\<close>

record start_env =
  se_secrets :: "(byte list \<Rightarrow> byte list) \<times> entropy \<times> (string \<Rightarrow> string option \<Rightarrow> string option \<times> bool)"
  se_host :: "byte list option \<times> seed_write \<times> string \<times> string"
  se_id :: "byte list option \<times> id_write"
  se_cert :: cert_env

text \<open>
  C26. A node stays the same node. Take any history of starts, each with its own random source,
  outcomes of the writes and, for the SSH server, node identity and secret given by the backend.
  Once a start has found or made the Reality keys and the port, the SSH host key, the machine's
  fingerprint or the certificate, every later start succeeds there and finds the same, so clients,
  known-hosts files and the backend keep recognising the node. (Writes of the secrets are assumed
  to succeed; failures of the other writes are allowed.)
\<close>

theorem node_identity_is_stable:
  assumes "list_all (\<lambda>e. secrets_sane marshal unmarshal (se_secrets e) \<and> host_sane ''data'' (se_host e) \<and> id_sane (se_id e)) es"
    and "i < j" "j < length es"
  shows "let S = starts (secrets_boot marshal unmarshal) (map se_secrets es) f1; H = starts (host_boot ''data'') (map se_host es) f2;
      M = starts (id_boot m) (map se_id es) f3; C = starts (cert_boot ''data'') (map se_cert es) d in
    (\<forall>s. S ! i = Inr s \<longrightarrow> S ! j = Inr s) \<and>
    (\<forall>srv. H ! i = Inr srv \<longrightarrow> (\<exists>srv'. H ! j = Inr srv' \<and> hostKey srv' = hostKey srv)) \<and>
    (\<forall>x. M ! i = Inr x \<longrightarrow> M ! j = Inr x) \<and>
    (\<forall>c. C ! i = Inr c \<longrightarrow> C ! j = Inr c)"
proof -
  have sane: "list_all (secrets_sane marshal unmarshal) (map se_secrets es)" "list_all (host_sane ''data'') (map se_host es)"
    "list_all id_sane (map se_id es)" "list_all (\<lambda>_. True) (map se_cert es)"
    using assms(1) by (auto simp: list_all_iff)
  show ?thesis
    unfolding Let_def
    using node_secrets.same_for_ever [OF sane(1) assms(2)] host_key.same_for_ever [OF sane(2) assms(2)]
      machine_id.same_for_ever [OF sane(3) assms(2)] certificate.same_for_ever [OF sane(4) assms(2)] assms(3)
    by (simp del: split_paired_Ex split_paired_All)
qed

text \<open>A file format for the secrets, and two starts, the second with another secret and no random source.\<close>

definition put_secrets :: "NodeSecrets \<Rightarrow> string" where
  "put_secrets s = put_str (PrivateKey s) @ put_str (PublicKey s) @ put_int (sec_SSPort s) @ concat (map put_str (ShortIDs s)) @ ''''"

fun get_strs :: "nat \<Rightarrow> string \<Rightarrow> string list" where
  "get_strs 0 s = []"
| "get_strs (Suc n) s = (if s = [] then [] else (case get_str s of (x, s) \<Rightarrow> x # get_strs n s))"

definition get_secrets :: "string \<Rightarrow> NodeSecrets option" where
  "get_secrets s =
     (let (k, s) = get_str s; (p, s) = get_str s; (n, s) = get_int s
      in Some \<lparr>PrivateKey = k, PublicKey = p, ShortIDs = get_strs (length s) s, sec_SSPort = n\<rparr>)"

lemma get_strs_put: "length (concat (map put_str xs)) \<le> n \<Longrightarrow> get_strs n (concat (map put_str xs)) = xs"
proof (induction xs arbitrary: n)
  case Nil
  then show ?case by (cases n) simp_all
next
  case (Cons x xs)
  have "2 \<le> length (put_str x)" and ne: "put_str x \<noteq> []"
    by (simp_all add: put_str_def)
  then obtain k where n: "n = Suc k" "length (concat (map put_str xs)) \<le> k"
    using Cons.prems by (cases n) auto
  then show ?case
    using Cons.IH [OF n(2)] by (simp add: n(1) ne)
qed

lemma get_put_secrets: "get_secrets (put_secrets s) = Some s"
  by (simp add: get_secrets_def put_secrets_def get_strs_put del: append_Nil2) (simp add: get_strs_put)

definition first_start :: start_env where
  "first_start = \<lparr>se_secrets = (id, sample_entropy, \<lambda>d f. (Some d, True)), se_host = (Some (replicate 32 7), SeedRenamed, ''n1'', ''k1''),
     se_id = (Some (replicate 32 5), IdWritten), se_cert = \<lparr>cert_mkdir = True, new_pair = Some (''crt'', ''key''), crt_write = PemWritten, key_write = PemWritten\<rparr>\<rparr>"

definition later_start :: start_env where
  "later_start = \<lparr>se_secrets = (id, sample_entropy\<lparr>rand_key := Some [9]\<rparr>, \<lambda>d f. (Some d, True)), se_host = (None, SeedMkdirFails, ''n2'', ''k2''),
     se_id = (None, IdMkdirFails), se_cert = \<lparr>cert_mkdir = False, new_pair = None, crt_write = PemFails None, key_write = PemWritten\<rparr>\<rparr>"

lemma node_identity_is_stable_witness:
  "starts (secrets_boot put_secrets get_secrets) [se_secrets first_start, se_secrets later_start] None ! 1 = Inr sample_secrets \<and>
   (\<exists>srv. starts (host_boot ''data'') [se_host first_start, se_host later_start] None ! 1 = Inr srv \<and> hostKey srv = replicate 32 7) \<and>
   starts (cert_boot ''data'') [se_cert first_start, se_cert later_start] \<lparr>self_crt = None, self_key = None\<rparr> ! 1 = Inr (Some ''crt'', Some ''key'')"
proof -
  let ?d = "\<lparr>self_crt = None, self_key = None\<rparr> :: cert_dir"
  have s: "list_all (\<lambda>e. secrets_sane put_secrets get_secrets (se_secrets e) \<and> host_sane ''data'' (se_host e) \<and> id_sane (se_id e))
      [first_start, later_start]"
    by (auto simp: first_start_def later_start_def secrets_sane_def host_sane_def id_sane_def get_put_secrets honest_write_def
        rand_in_range_def sample_entropy_def randomPort_def split: if_splits)
  have 0: "snd (secrets_boot put_secrets get_secrets (se_secrets first_start) None) = Inr sample_secrets"
    "snd (host_boot ''data'' (se_host first_start) None) = Inr \<lparr>s_nodeID = ''n1'', hostKey = replicate 32 7, has_authKeys = False\<rparr>"
    "snd (cert_boot ''data'' (se_cert first_start) ?d) = Inr (Some ''crt'', Some ''key'')"
    by (simp_all add: secrets_boot_def first_start_def LoadOrGenerateSecrets_def GenerateKeyPair_def sample_entropy_def sample_secrets_def
        randomPort_def host_boot_def NewServer_def loadOrCreateHostKeySeed_def usable_seed_def cert_boot_def EnsureSelfSignedCert_def Let_def)
  have first: "starts boot (e # es) f ! 0 = snd (boot e f)" for boot :: "'e \<Rightarrow> 'f \<Rightarrow> 'f \<times> 'r" and e es f
    by (simp split: prod.split)
  show ?thesis
    using node_identity_is_stable [OF s, of 0 1 None None sample_machine None ?d] 0
    by (fastforce simp: Let_def first simp del: starts.simps)
qed

end
